(* ===== verification/DC_Prelude.thy ===== *)
theory DC_Prelude
  imports Main "HOL-Library.Multiset" "HOL-Library.Word"
begin

text \<open>
  Shared material of the development: the result type of fallible C++ code and
  its bind, the integer ranges of the program's fixed-width types, saturating
  addition, suffixes of lists, and the facts on stable sorting that the two
  timestamp-ordered queues of the program need.

  Time values: \<open>rclcpp::Time\<close>, \<open>rclcpp::Duration\<close> and the
  \<open>std::chrono\<close> clocks are nanosecond counts (milliseconds where the code
  says so), modelled as \<open>int\<close>.  The range lemmas at the end of this theory
  show why: the stamps of ROS messages are so small that no sum or difference
  the program forms leaves the 64-bit range.
\<close>

named_theorems result_iff \<open>inversion of successful results\<close>
named_theorems suffix_simps \<open>suffix operations on queues\<close>

section \<open>Results\<close>

text \<open>
  What C++ code can do instead of returning: access a variant through the
  wrong alternative (an exception) or pop an empty deque (undefined behaviour).
\<close>

datatype cpp_error = BadVariantAccess | EmptyPopFront

type_synonym 'a result = "cpp_error + 'a"

definition result_bind :: "'e + 'a \<Rightarrow> ('a \<Rightarrow> 'e + 'b) \<Rightarrow> 'e + 'b" where
  "result_bind m f = (case m of Inl e \<Rightarrow> Inl e | Inr x \<Rightarrow> f x)"

lemma result_bind_simps [simp]:
  "result_bind (Inl e) f = Inl e"
  "result_bind (Inr x) f = f x"
  by (simp_all add: result_bind_def)

lemma result_bind_Inr_iff [result_iff]:
  "result_bind m f = Inr y \<longleftrightarrow> (\<exists>x. m = Inr x \<and> f x = Inr y)"
  by (cases m) auto

lemma result_bind_cong [fundef_cong]:
  "m = n \<Longrightarrow> (\<And>x. n = Inr x \<Longrightarrow> f x = g x) \<Longrightarrow> result_bind m f = result_bind n g"
  by (cases n) auto

section \<open>Fixed-width integers\<close>

definition SIZE_MAX :: nat where
  "SIZE_MAX = 2 ^ 64 - 1"

definition INT64_MAX :: int where
  "INT64_MAX = 2 ^ 63 - 1"

definition INT64_MIN :: int where
  "INT64_MIN = - (2 ^ 63)"

definition in_int64 :: "int \<Rightarrow> bool" where
  "in_int64 x \<longleftrightarrow> INT64_MIN \<le> x \<and> x \<le> INT64_MAX"

text \<open>The saturating sum the buffer's byte accounting writes out by hand.\<close>

definition sat_add :: "nat \<Rightarrow> nat \<Rightarrow> nat" where
  "sat_add a b = (if b > SIZE_MAX - a then SIZE_MAX else a + b)"

lemma sat_add_le: "a \<le> SIZE_MAX \<Longrightarrow> sat_add a b \<le> a + b"
  by (auto simp: sat_add_def)

lemma sat_add_bound: "sat_add a b \<le> max SIZE_MAX a"
  by (auto simp: sat_add_def)

lemma sat_add_exact: "a + b \<le> SIZE_MAX \<Longrightarrow> sat_add a b = a + b"
  by (auto simp: sat_add_def)

section \<open>Suffixes of lists\<close>

definition lastn :: "nat \<Rightarrow> 'a list \<Rightarrow> 'a list" where
  "lastn n xs = drop (length xs - n) xs"

lemma length_lastn [suffix_simps]: "length (lastn n xs) = min n (length xs)"
  by (simp add: lastn_def)

lemma lastn_short [suffix_simps]: "length xs \<le> n \<Longrightarrow> lastn n xs = xs"
  by (simp add: lastn_def)

lemma lastn_Cons [suffix_simps]:
  "lastn n (x # xs) = (if length xs < n then x # xs else lastn n xs)"
  by (auto simp: lastn_def Suc_diff_le not_less)

lemma set_lastn: "set (lastn n xs) \<subseteq> set xs"
  by (simp add: lastn_def set_drop_subset)

lemma lastn_drop: "k + n \<le> length xs \<Longrightarrow> lastn n (drop k xs) = lastn n xs"
  by (simp add: lastn_def)

lemma lastn_append: "length ys \<le> n \<Longrightarrow> lastn n (xs @ ys) = lastn (n - length ys) xs @ ys"
  by (simp add: lastn_def)

lemma lastn_append_ge: "n \<le> length ys \<Longrightarrow> lastn n (xs @ ys) = lastn n ys"
  by (simp add: lastn_def)

lemma lastn_map: "lastn n (map f xs) = map f (lastn n xs)"
  by (simp add: lastn_def drop_map)

lemma lastn_upt: "lastn n [0..<m] = [m - n..<m]"
  by (simp add: lastn_def)

lemma lastn_lastn: "m \<le> n \<Longrightarrow> lastn m (lastn n xs) = lastn m xs"
  by (cases "length xs \<le> n") (simp_all add: lastn_def)

lemma lastn_snoc_lastn: "lastn n (lastn n xs @ [x]) = lastn n (xs @ [x])"
  by (cases n) (simp_all add: lastn_append lastn_lastn, simp add: lastn_def)

lemma sorted_map_drop: "sorted (map f xs) \<Longrightarrow> sorted (map f (drop n xs))"
  by (simp flip: drop_map add: sorted_wrt_drop)

lemma sorted_map_take: "sorted (map f xs) \<Longrightarrow> sorted (map f (take n xs))"
  by (simp flip: take_map add: sorted_wrt_take)

lemma sorted_map_filter: "sorted (map f xs) \<Longrightarrow> sorted (map f (filter P xs))"
  by (induction xs) auto

text \<open>On a list sorted by a key, dropping a prefix below a bound is filtering.\<close>

lemma dropWhile_less_eq_filter:
  fixes f :: "'a \<Rightarrow> int"
  shows "sorted (map f xs) \<Longrightarrow> dropWhile (\<lambda>x. f x < c) xs = filter (\<lambda>x. c \<le> f x) xs"
proof (induction xs)
  case (Cons x xs)
  show ?case
  proof (cases "f x < c")
    case True
    with Cons show ?thesis by simp
  next
    case False
    with Cons.prems have "\<forall>y\<in>set xs. c \<le> f y" by fastforce
    with False show ?thesis by simp
  qed
qed simp

lemma dropWhile_suffix_length:
  "dropWhile P xs = drop (length (takeWhile P xs)) xs"
  by (simp add: dropWhile_eq_drop)

section \<open>Stable sorting\<close>

text \<open>
  Appending one element to a list sorted by a key and sorting again places the
  new element after every element whose key is not larger.
\<close>

lemma sort_key_snoc:
  fixes f :: "'a \<Rightarrow> int"
  assumes "sorted (map f xs)"
  shows "sort_key f (xs @ [x]) = takeWhile (\<lambda>y. f y \<le> f x) xs @ x # dropWhile (\<lambda>y. f y \<le> f x) xs"
    (is "_ = ?ys")
proof (rule properties_for_sort_key)
  have split: "takeWhile (\<lambda>y. f y \<le> f x) xs @ dropWhile (\<lambda>y. f y \<le> f x) xs = xs"
    by simp
  have "mset ?ys = add_mset x (mset (takeWhile (\<lambda>y. f y \<le> f x) xs @ dropWhile (\<lambda>y. f y \<le> f x) xs))"
    unfolding mset_append by simp
  then show "mset ?ys = mset (xs @ [x])"
    unfolding split by simp
  have above: "\<forall>z\<in>set (dropWhile (\<lambda>y. f y \<le> f x) xs). f x < f z"
    using assms
  proof (induction xs)
    case (Cons y ys)
    then show ?case by (cases "f y \<le> f x") fastforce+
  qed simp
  have parts: "filter (\<lambda>y. f k = f y) (takeWhile (\<lambda>y. f y \<le> f x) xs) @
      filter (\<lambda>y. f k = f y) (dropWhile (\<lambda>y. f y \<le> f x) xs) = filter (\<lambda>y. f k = f y) xs" for k
    by (metis filter_append split)
  show "filter (\<lambda>y. f k = f y) ?ys = filter (\<lambda>y. f k = f y) (xs @ [x])" for k
  proof (cases "f k = f x")
    case True
    with above have "filter (\<lambda>y. f k = f y) (dropWhile (\<lambda>y. f y \<le> f x) xs) = []"
      by (auto simp: filter_empty_conv)
    with True parts [of k] show ?thesis by simp
  next
    case False
    with parts [of k] show ?thesis by simp
  qed
  have below: "\<forall>z\<in>set (takeWhile (\<lambda>y. f y \<le> f x) xs). f z \<le> f x"
    by (auto dest: set_takeWhileD)
  have "sorted (map f (takeWhile (\<lambda>y. f y \<le> f x) xs))"
    by (metis assms sorted_map_take takeWhile_eq_take)
  moreover have "sorted (map f (dropWhile (\<lambda>y. f y \<le> f x) xs))"
    by (metis assms dropWhile_eq_drop sorted_map_drop)
  ultimately have "sorted (map f (takeWhile (\<lambda>y. f y \<le> f x) xs))"
    "sorted (map f (dropWhile (\<lambda>y. f y \<le> f x) xs))" .
  with above below show "sorted (map f ?ys)"
    by (force simp: sorted_append)
qed

lemma sort_key_append_sorted:
  fixes f :: "'a \<Rightarrow> int"
  shows "sort_key f (sort_key f xs @ ys) = sort_key f (xs @ ys)"
proof (rule properties_for_sort_key [symmetric])
  show "filter (\<lambda>x. f k = f x) (sort_key f (sort_key f xs @ ys)) =
      filter (\<lambda>x. f k = f x) (xs @ ys)" for k
    using sort_key_stable [of f "f k" "sort_key f xs @ ys"] sort_key_stable [of f "f k" xs]
    by (simp add: eq_commute)
qed simp_all

lemma filter_sort_key:
  fixes f :: "'a \<Rightarrow> int"
  shows "filter P (sort_key f xs) = sort_key f (filter P xs)"
  by (rule filter_sort)

section \<open>Time stamps of ROS messages\<close>

text \<open>
  A \<open>builtin_interfaces/Time\<close> has an \<open>int32\<close> field \<open>sec\<close>
  and a \<open>uint32\<close> field \<open>nanosec\<close>, and \<open>rclcpp::Time\<close> refuses a
  negative one.  A duration built from an \<open>int\<close> number of seconds is in the
  range of \<open>from_seconds\<close>.
\<close>

definition stamp_range :: "int \<Rightarrow> bool" where
  "stamp_range t \<longleftrightarrow> 0 \<le> t \<and> t \<le> 2147483647 * 1000000000 + 4294967295"

definition seconds_range :: "int \<Rightarrow> bool" where
  "seconds_range d \<longleftrightarrow> 0 \<le> d \<and> d \<le> 2147483647 * 1000000000"

lemma stamp_diff_in_int64: "stamp_range s \<Longrightarrow> stamp_range t \<Longrightarrow> in_int64 (s - t)"
  by (simp add: stamp_range_def in_int64_def INT64_MIN_def INT64_MAX_def)

lemma stamp_minus_seconds_in_int64: "stamp_range s \<Longrightarrow> seconds_range d \<Longrightarrow> in_int64 (s - d)"
  by (simp add: stamp_range_def seconds_range_def in_int64_def INT64_MIN_def INT64_MAX_def)

lemma stamp_plus_seconds_in_int64: "stamp_range s \<Longrightarrow> seconds_range d \<Longrightarrow> in_int64 (s + d)"
  by (simp add: stamp_range_def seconds_range_def in_int64_def INT64_MIN_def INT64_MAX_def)

end
