(* ===== verification/Sensor_Data.thy ===== *)
theory Sensor_Data
  imports DC_Prelude
begin

text \<open>
  The data model of include/data.hpp, and the accessors \<open>timestampOf\<close> and
  \<open>payloadBytes\<close> that \<open>DataBuffer\<close>, \<open>EventMonitor\<close> and
  \<open>RawStorageWorker\<close> share.  Of the ROS message types only the fields the
  program reads are kept; a shared pointer is an option, \<open>None\<close> the null one.
\<close>

record Image =
  img_stamp :: int
  img_height :: nat
  img_width :: nat
  img_step :: nat
  img_encoding :: string
  img_data :: string

record PointCloud2 =
  pc_stamp :: int
  pc_height :: nat
  pc_width :: nat
  pc_point_step :: nat
  pc_fields :: "string list"
  pc_data :: string

record CameraData =
  cam_timestamp :: int
  cam_image :: "Image option"

record LidarData =
  lid_timestamp :: int
  lid_cloud :: "PointCloud2 option"

datatype SensorType = CAMERA | LIDAR

datatype SensorDataVariant = CameraAlt CameraData | LidarAlt LidarData

record SensorData =
  sd_type :: SensorType
  sd_data :: SensorDataVariant

text \<open>The order of \<open>std::map\<close> keys: the enumerators in declaration order.\<close>

instantiation SensorType :: linorder
begin

definition less_eq_SensorType :: "SensorType \<Rightarrow> SensorType \<Rightarrow> bool" where
  "less_eq_SensorType a b \<longleftrightarrow> a = CAMERA \<or> b = LIDAR"

definition less_SensorType :: "SensorType \<Rightarrow> SensorType \<Rightarrow> bool" where
  "less_SensorType a b \<longleftrightarrow> a = CAMERA \<and> b = LIDAR"

instance
  by standard (auto simp: less_eq_SensorType_def less_SensorType_def intro: SensorType.exhaust)

end

definition sensorTypes :: "SensorType list" where
  "sensorTypes = [CAMERA, LIDAR]"

lemma sensorTypes_ordered: "sorted sensorTypes" "distinct sensorTypes" "set sensorTypes = UNIV"
  by (auto simp: sensorTypes_def less_eq_SensorType_def intro: SensorType.exhaust)

definition timestampOf :: "SensorData \<Rightarrow> int" where
  "timestampOf d = (case sd_data d of CameraAlt v \<Rightarrow> cam_timestamp v | LidarAlt v \<Rightarrow> lid_timestamp v)"

definition payloadBytes :: "SensorData \<Rightarrow> nat result" where
  "payloadBytes d =
     (if sd_type d = CAMERA then
        (case sd_data d of
           CameraAlt v \<Rightarrow> Inr (case cam_image v of Some img \<Rightarrow> length (img_data img) | None \<Rightarrow> 0)
         | LidarAlt _ \<Rightarrow> Inl BadVariantAccess)
      else
        (case sd_data d of
           LidarAlt v \<Rightarrow> Inr (case lid_cloud v of Some cloud \<Rightarrow> length (pc_data cloud) | None \<Rightarrow> 0)
         | CameraAlt _ \<Rightarrow> Inl BadVariantAccess))"

text \<open>A value whose tag and variant alternative agree, as every producer builds it.\<close>

definition well_typed :: "SensorData \<Rightarrow> bool" where
  "well_typed d \<longleftrightarrow> (case sd_data d of CameraAlt _ \<Rightarrow> sd_type d = CAMERA | LidarAlt _ \<Rightarrow> sd_type d = LIDAR)"

definition payloadSize :: "SensorData \<Rightarrow> nat" where
  "payloadSize d = (case sd_data d of
       CameraAlt v \<Rightarrow> (case cam_image v of Some img \<Rightarrow> length (img_data img) | None \<Rightarrow> 0)
     | LidarAlt v \<Rightarrow> (case lid_cloud v of Some cloud \<Rightarrow> length (pc_data cloud) | None \<Rightarrow> 0))"

lemma payloadBytes_well_typed [simp]: "well_typed d \<Longrightarrow> payloadBytes d = Inr (payloadSize d)"
  by (auto simp: well_typed_def payloadBytes_def payloadSize_def split: SensorDataVariant.splits)

lemma payloadBytes_Inr_iff [result_iff]:
  "payloadBytes d = Inr n \<longleftrightarrow> well_typed d \<and> n = payloadSize d"
  by (cases "sd_type d")
    (auto simp: well_typed_def payloadBytes_def payloadSize_def split: SensorDataVariant.splits)

text \<open>The two values the subscription callbacks build.\<close>

definition cameraFrame :: "Image \<Rightarrow> SensorData" where
  "cameraFrame m = \<lparr>sd_type = CAMERA, sd_data = CameraAlt \<lparr>cam_timestamp = img_stamp m, cam_image = Some m\<rparr>\<rparr>"

definition lidarFrame :: "PointCloud2 \<Rightarrow> SensorData" where
  "lidarFrame m = \<lparr>sd_type = LIDAR, sd_data = LidarAlt \<lparr>lid_timestamp = pc_stamp m, lid_cloud = Some m\<rparr>\<rparr>"

lemma frame_simps [simp]:
  "well_typed (cameraFrame i)" "well_typed (lidarFrame c)"
  "timestampOf (cameraFrame i) = img_stamp i" "timestampOf (lidarFrame c) = pc_stamp c"
  "sd_type (cameraFrame i) = CAMERA" "sd_type (lidarFrame c) = LIDAR"
  "payloadSize (cameraFrame i) = length (img_data i)" "payloadSize (lidarFrame c) = length (pc_data c)"
  by (simp_all add: cameraFrame_def lidarFrame_def well_typed_def timestampOf_def payloadSize_def)

end
