(* ===== verification/Stamped_Queue.thy ===== *)
theory Stamped_Queue
  imports DC_Prelude
begin

text \<open>
  The timestamp-ordered deque of the program.  \<open>ApproximateSynchronizer\<close>
  has it as the template \<open>insertOrdered\<close> (include/approximate\_synchronizer.hpp)
  and \<open>DataBuffer::addData\<close> (include/databuffer.hpp) has the same code inline:
  append when the new stamp is not older than the back, otherwise insert at the
  position \<open>std::upper_bound\<close> finds.  The locale \<open>stamped_queue\<close> is the
  contract both clients use: on a sorted queue the insertion is the stable sort
  of the queue with the new element behind it.
\<close>

section \<open>Operations\<close>

text \<open>
  \<open>std::upper_bound\<close> on a sorted range: the number of leading elements the
  comparator does not place after the value.
\<close>

definition upper_bound :: "('a \<Rightarrow> int) \<Rightarrow> 'a list \<Rightarrow> int \<Rightarrow> nat" where
  "upper_bound stamp q value = length (takeWhile (\<lambda>candidate. \<not> value < stamp candidate) q)"

definition insertOrdered :: "('a \<Rightarrow> int) \<Rightarrow> 'a list \<Rightarrow> 'a \<Rightarrow> 'a list" where
  "insertOrdered stamp queue message =
     (let timestamp = stamp message in
      if queue = [] \<or> timestamp \<ge> stamp (last queue) then queue @ [message]
      else let position = upper_bound stamp queue timestamp
           in take position queue @ message # drop position queue)"

section \<open>The contract\<close>

locale stamped_queue =
  fixes stamp :: "'a \<Rightarrow> int"
    and ins :: "'a list \<Rightarrow> 'a \<Rightarrow> 'a list"
  assumes ins_sort: "sorted (map stamp q) \<Longrightarrow> ins q x = sort_key stamp (q @ [x])"
begin

lemma sorted_ins: "sorted (map stamp q) \<Longrightarrow> sorted (map stamp (ins q x))"
  by (simp add: ins_sort)

lemma mset_ins: "sorted (map stamp q) \<Longrightarrow> mset (ins q x) = add_mset x (mset q)"
  by (simp add: ins_sort)

lemma set_ins: "sorted (map stamp q) \<Longrightarrow> set (ins q x) = insert x (set q)"
  by (simp add: ins_sort)

lemma length_ins: "sorted (map stamp q) \<Longrightarrow> length (ins q x) = Suc (length q)"
  by (simp add: ins_sort)

lemma ins_nonempty: "sorted (map stamp q) \<Longrightarrow> ins q x \<noteq> []"
  using length_ins [of q x] by force

text \<open>A run of insertions is the stable sort of the arrivals.\<close>

lemma ins_run: "foldl ins (sort_key stamp xs) ys = sort_key stamp (xs @ ys)"
proof (induction ys arbitrary: xs)
  case (Cons y ys)
  have "foldl ins (sort_key stamp xs) (y # ys) = foldl ins (sort_key stamp (xs @ [y])) ys"
    by (simp add: ins_sort sort_key_append_sorted)
  also have "\<dots> = sort_key stamp (xs @ y # ys)"
    using Cons.IH [of "xs @ [y]"] by simp
  finally show ?case .
qed simp

text \<open>Filtering by a lower bound commutes with insertion.\<close>

lemma filter_ins:
  assumes "sorted (map stamp q)"
  shows "filter P (ins q x) = (if P x then ins (filter P q) x else filter P q)"
  using assms by (simp add: ins_sort filter_sort_key sorted_map_filter)
    (metis sort_key_id_if_sorted sorted_map_filter)

text \<open>Keeping only the newest elements commutes with insertion.\<close>

lemma lastn_ins:
  assumes sorted: "sorted (map stamp q)"
  shows "lastn k (ins (lastn k q) x) = lastn k (ins q x)"
proof (cases "length q \<le> k")
  case True
  then show ?thesis by (simp add: lastn_short)
next
  case False
  define A S where "A = take (length q - k) q" and "S = lastn k q"
  have q: "q = A @ S" and len: "length S = k"
    using False by (simp_all add: A_def S_def lastn_def)
  have S: "sorted (map stamp S)" and AS: "\<forall>a\<in>set A. \<forall>s\<in>set S. stamp a \<le> stamp s"
    using sorted by (auto simp: q sorted_append)
  have insS: "ins S x = takeWhile (\<lambda>y. stamp y \<le> stamp x) S @ x # dropWhile (\<lambda>y. stamp y \<le> stamp x) S"
    by (simp add: ins_sort S sort_key_snoc)
  have insq: "ins q x = takeWhile (\<lambda>y. stamp y \<le> stamp x) q @ x # dropWhile (\<lambda>y. stamp y \<le> stamp x) q"
    by (simp add: ins_sort sorted sort_key_snoc)
  have "lastn k (ins S x) = lastn k (ins q x)"
  proof (cases "\<forall>a\<in>set A. stamp a \<le> stamp x")
    case True
    then have "takeWhile (\<lambda>y. stamp y \<le> stamp x) q = A @ takeWhile (\<lambda>y. stamp y \<le> stamp x) S"
      and "dropWhile (\<lambda>y. stamp y \<le> stamp x) q = dropWhile (\<lambda>y. stamp y \<le> stamp x) S"
      by (simp_all add: q)
    then have "ins q x = A @ ins S x"
      by (simp add: insq insS)
    then show ?thesis
      by (simp add: lastn_append_ge length_ins S len)
  next
    case False
    then obtain a where a: "a \<in> set A" "stamp x < stamp a" by auto
    with AS have "\<forall>s\<in>set S. stamp x < stamp s" by fastforce
    then have "takeWhile (\<lambda>y. stamp y \<le> stamp x) S = []" "dropWhile (\<lambda>y. stamp y \<le> stamp x) S = S"
      by (cases S; simp)+
    then have left: "lastn k (ins S x) = S"
      by (simp add: insS lastn_Cons lastn_short len)
    from a have "dropWhile (\<lambda>y. stamp y \<le> stamp x) q = dropWhile (\<lambda>y. stamp y \<le> stamp x) A @ S"
      by (simp add: q dropWhile_append1 [of a])
    then have "lastn k (ins q x) = S"
      by (simp add: insq lastn_append_ge len lastn_short lastn_Cons)
    with left show ?thesis by simp
  qed
  then show ?thesis by (simp add: S_def)
qed

end

section \<open>The program's insertion meets it\<close>

lemma insertOrdered_sorted:
  assumes "sorted (map stamp q)"
  shows "insertOrdered stamp q x = sort_key stamp (q @ [x])"
proof (cases "q = [] \<or> stamp x \<ge> stamp (last q)")
  case True
  have "\<forall>y\<in>set q. stamp y \<le> stamp x"
  proof (cases q rule: rev_cases)
    case (snoc ys y)
    with True assms show ?thesis by (auto simp: sorted_append)
  qed simp
  then have "sort_key stamp (q @ [x]) = q @ [x]"
    by (simp add: sort_key_snoc [OF assms] takeWhile_eq_all_conv [THEN iffD2])
  with True show ?thesis by (auto simp: insertOrdered_def)
next
  case False
  then show ?thesis
    by (simp add: insertOrdered_def upper_bound_def sort_key_snoc [OF assms] not_less Let_def
        flip: takeWhile_eq_take dropWhile_eq_drop)
qed

interpretation ordered: stamped_queue stamp "insertOrdered stamp" for stamp :: "'a \<Rightarrow> int"
  by unfold_locales (rule insertOrdered_sorted)

end
