(* ===== verification/Window_Store.thy ===== *)
theory Window_Store
  imports DC_Prelude
begin

text \<open>
  The interface \<open>EventMonitor\<close> uses of \<open>DataBuffer\<close> and
  \<open>PairIndex\<close>: a store of stamped items with a closed-interval query
  \<open>getDataWithinTimeRange\<close>.  The lemmas are what the pre-event and
  post-event batches need: the batch of the closed interval before the event and
  the batch after it with the boundary removed split the whole window.
\<close>

locale window_store =
  fixes contents :: "'s \<Rightarrow> 'a list"
    and stamp :: "'a \<Rightarrow> int"
    and window :: "'s \<Rightarrow> int \<Rightarrow> int \<Rightarrow> 'a list"
  assumes window_filter: "window s a b = filter (\<lambda>x. a \<le> stamp x \<and> stamp x \<le> b) (contents s)"
begin

lemma set_window: "set (window s a b) = {x \<in> set (contents s). a \<le> stamp x \<and> stamp x \<le> b}"
  by (auto simp: window_filter)

lemma window_empty: "b < a \<Longrightarrow> window s a b = []"
  by (auto simp: window_filter filter_empty_conv)

lemma post_batch:
  "filter (\<lambda>x. stamp x \<noteq> e) (window s e b) = filter (\<lambda>x. e < stamp x \<and> stamp x \<le> b) (contents s)"
  by (auto simp: window_filter intro: filter_cong)

lemma split_window:
  assumes "a \<le> e" "e \<le> b"
  shows "mset (window s a e) + mset (filter (\<lambda>x. stamp x \<noteq> e) (window s e b)) = mset (window s a b)"
proof -
  have "mset (window s a b) =
      filter_mset (\<lambda>x. a \<le> stamp x \<and> stamp x \<le> e) (mset (contents s)) +
      filter_mset (\<lambda>x. e < stamp x \<and> stamp x \<le> b) (mset (contents s))"
    using assms by (auto simp: window_filter filter_mset_eq_conv multiset_eq_iff)
  then show ?thesis
    by (simp add: post_batch) (simp add: window_filter)
qed

lemma batches_disjoint:
  "set (window s a e) \<inter> set (filter (\<lambda>x. stamp x \<noteq> e) (window s' e b)) = {}"
  by (auto simp: window_filter)

end

end
