(* ===== verification/Data_Buffer.thy ===== *)
theory Data_Buffer
  imports Sensor_Data Stamped_Queue Window_Store
begin

text \<open>
  \<open>DataBuffer\<close> of include/databuffer.hpp: one timestamp-ordered queue per
  sensor type, bounded by a count, an age against the newest stamp seen, and a
  byte budget.  The two \<open>std::map\<close> members are total functions: an absent
  key is an empty deque and a zero counter, as \<open>operator[]\<close> makes it.
  Popping an empty deque, undefined behaviour in C++, is the error
  \<open>EmptyPopFront\<close>; the invariant rules it out.
\<close>

section \<open>State and operations\<close>

record DataBuffer =
  queues :: "SensorType \<Rightarrow> SensorData list"
  queueBytes :: "SensorType \<Rightarrow> nat"
  maxSize :: nat
  maxAge :: int
  maxBytesPerSensor :: nat
  latestTimestamp :: int
  hasLatestTimestamp :: bool

definition newDataBuffer :: "nat \<Rightarrow> int \<Rightarrow> nat \<Rightarrow> DataBuffer" where
  "newDataBuffer limit age bytes =
     \<lparr>queues = (\<lambda>_. []), queueBytes = (\<lambda>_. 0), maxSize = limit, maxAge = age,
      maxBytesPerSensor = bytes, latestTimestamp = 0, hasLatestTimestamp = False\<rparr>"

fun popFront :: "SensorData list \<Rightarrow> nat \<Rightarrow> (SensorData list \<times> nat) result" where
  "popFront [] bytes = Inl EmptyPopFront"
| "popFront (front # rest) bytes =
     result_bind (payloadBytes front)
       (\<lambda>removed. Inr (rest, if removed > bytes then 0 else bytes - removed))"

lemma popFront_shorter: "popFront q bytes = Inr (q', bytes') \<Longrightarrow> length q' < length q"
  by (cases q) (auto simp: result_iff)

text \<open>The loop of \<open>addData\<close> that enforces the count and the byte budget.\<close>

function shrinkQueue :: "nat \<Rightarrow> nat \<Rightarrow> SensorData list \<Rightarrow> nat \<Rightarrow> (SensorData list \<times> nat) result" where
  "shrinkQueue limit budget q bytes =
     (if length q > limit \<or> (budget > 0 \<and> bytes > budget)
      then result_bind (popFront q bytes) (\<lambda>(q', bytes'). shrinkQueue limit budget q' bytes')
      else Inr (q, bytes))"
  by pat_completeness auto
termination
  by (relation "measure (\<lambda>(limit, budget, q, bytes). length q)") (auto dest: popFront_shorter)

text \<open>The loop of \<open>evictExpiredLocked\<close> on one queue.\<close>

function popExpired :: "int \<Rightarrow> SensorData list \<Rightarrow> nat \<Rightarrow> (SensorData list \<times> nat) result" where
  "popExpired oldestAllowed q bytes =
     (if q \<noteq> [] \<and> timestampOf (hd q) < oldestAllowed
      then result_bind (popFront q bytes) (\<lambda>(q', bytes'). popExpired oldestAllowed q' bytes')
      else Inr (q, bytes))"
  by pat_completeness auto
termination
  by (relation "measure (\<lambda>(oldest, q, bytes). length q)") (auto dest: popFront_shorter)

declare shrinkQueue.simps [simp del] popExpired.simps [simp del]

primrec evictEntries :: "int \<Rightarrow> SensorType list \<Rightarrow> DataBuffer \<Rightarrow> DataBuffer result" where
  "evictEntries oldestAllowed [] b = Inr b"
| "evictEntries oldestAllowed (t # ts) b =
     result_bind (popExpired oldestAllowed (queues b t) (queueBytes b t))
       (\<lambda>(q, bytes). evictEntries oldestAllowed ts
          (b\<lparr>queues := (queues b)(t := q), queueBytes := (queueBytes b)(t := bytes)\<rparr>))"

definition evictExpiredLocked :: "DataBuffer \<Rightarrow> DataBuffer result" where
  "evictExpiredLocked b =
     (if maxAge b \<le> 0 \<or> \<not> hasLatestTimestamp b then Inr b
      else evictEntries (latestTimestamp b - maxAge b) sensorTypes b)"

definition addData :: "DataBuffer \<Rightarrow> SensorData \<Rightarrow> DataBuffer result" where
  "addData b0 data =
     (if maxSize b0 = 0 then Inr b0
      else
        let timestamp = timestampOf data;
            b = (if \<not> hasLatestTimestamp b0 \<or> timestamp > latestTimestamp b0
                 then b0\<lparr>latestTimestamp := timestamp, hasLatestTimestamp := True\<rparr> else b0)
        in if maxAge b > 0 \<and> timestamp < latestTimestamp b - maxAge b then Inr b
           else
             let t = sd_type data
             in result_bind (payloadBytes data) (\<lambda>addedBytes.
                  let q = insertOrdered timestampOf (queues b t) data;
                      bytes = sat_add (queueBytes b t) addedBytes
                  in result_bind (shrinkQueue (maxSize b) (maxBytesPerSensor b) q bytes)
                       (\<lambda>(q', bytes'). evictExpiredLocked
                          (b\<lparr>queues := (queues b)(t := q'),
                             queueBytes := (queueBytes b)(t := bytes')\<rparr>))))"

definition getDataWithinTimeRange :: "DataBuffer \<Rightarrow> int \<Rightarrow> int \<Rightarrow> SensorData list" where
  "getDataWithinTimeRange b start end_t =
     concat (map (\<lambda>t. filter (\<lambda>d. timestampOf d \<ge> start \<and> timestampOf d \<le> end_t) (queues b t)) sensorTypes)"

definition getAllData :: "DataBuffer \<Rightarrow> SensorData list" where
  "getAllData b = concat (map (queues b) sensorTypes)"

definition latestSensorTimestamp :: "DataBuffer \<Rightarrow> int option" where
  "latestSensorTimestamp b = (if hasLatestTimestamp b then Some (latestTimestamp b) else None)"

text \<open>A sequence of arrivals.\<close>

primrec addAll :: "DataBuffer \<Rightarrow> SensorData list \<Rightarrow> DataBuffer result" where
  "addAll b [] = Inr b"
| "addAll b (d # ds) = result_bind (addData b d) (\<lambda>b'. addAll b' ds)"

lemma addAll_snoc: "addAll b (ds @ [d]) = result_bind (addAll b ds) (\<lambda>b'. addData b' d)"
  by (induction ds arbitrary: b) (auto simp: result_bind_def split: sum.splits)

section \<open>The buffer as a window store\<close>

interpretation buffer_window: window_store getAllData timestampOf getDataWithinTimeRange
  by unfold_locales (simp add: getAllData_def getDataWithinTimeRange_def sensorTypes_def)

section \<open>The loops\<close>

abbreviation total_size :: "SensorData list \<Rightarrow> nat" where
  "total_size q \<equiv> sum_list (map payloadSize q)"

lemma popFront_Cons [simp]:
  "well_typed d \<Longrightarrow> popFront (d # q) bytes = Inr (q, bytes - payloadSize d)"
  by simp

declare popFront.simps(2) [simp del]

text \<open>
  The count and budget loop pops a prefix, never from an empty queue, and stops
  at the first queue within both limits.
\<close>

lemma shrinkQueue_drop:
  assumes "\<forall>d\<in>set q. well_typed d" "bytes \<le> total_size q"
  shows "\<exists>k bytes'. shrinkQueue limit budget q bytes = Inr (drop k q, bytes') \<and>
      k \<le> length q \<and> length q - k \<le> limit \<and> bytes' \<le> total_size (drop k q) \<and> bytes' \<le> bytes \<and>
      (budget > 0 \<longrightarrow> bytes' \<le> budget) \<and>
      (bytes = total_size q \<longrightarrow> bytes' = total_size (drop k q)) \<and>
      (budget = 0 \<longrightarrow> drop k q = lastn limit q)"
  using assms
proof (induction q arbitrary: bytes)
  case Nil
  then show ?case by (simp add: shrinkQueue.simps lastn_short)
next
  case (Cons d q)
  show ?case
  proof (cases "length (d # q) > limit \<or> (budget > 0 \<and> bytes > budget)")
    case True
    then have step: "shrinkQueue limit budget (d # q) bytes =
        shrinkQueue limit budget q (bytes - payloadSize d)"
      using Cons.prems by (subst shrinkQueue.simps) simp
    have typed: "\<forall>x\<in>set q. well_typed x" and le: "bytes - payloadSize d \<le> total_size q"
      using Cons.prems by (auto simp: le_diff_conv)
    from Cons.IH [OF typed le] obtain k bytes' where k: "shrinkQueue limit budget q (bytes - payloadSize d) = Inr (drop k q, bytes')"
      "k \<le> length q" "length q - k \<le> limit" "bytes' \<le> total_size (drop k q)"
      "bytes' \<le> bytes - payloadSize d" "budget > 0 \<longrightarrow> bytes' \<le> budget"
      "bytes - payloadSize d = total_size q \<longrightarrow> bytes' = total_size (drop k q)"
      "budget = 0 \<longrightarrow> drop k q = lastn limit q"
      by blast
    show ?thesis
    proof (intro exI conjI)
      show "shrinkQueue limit budget (d # q) bytes = Inr (drop (Suc k) (d # q), bytes')"
        by (simp add: step k(1))
      show "budget = 0 \<longrightarrow> drop (Suc k) (d # q) = lastn limit (d # q)"
        using True k(8) by (auto simp: lastn_Cons)
    qed (use k in auto)
  next
    case False
    then have "shrinkQueue limit budget (d # q) bytes = Inr (drop 0 (d # q), bytes)"
      by (subst shrinkQueue.simps) auto
    with False Cons.prems show ?thesis
      by (intro exI [of _ 0] exI [of _ bytes]) (auto simp: lastn_short)
  qed
qed

lemma popExpired_dropWhile:
  assumes "\<forall>d\<in>set q. well_typed d"
  shows "popExpired oldest q bytes =
    Inr (dropWhile (\<lambda>d. timestampOf d < oldest) q,
         bytes - total_size (takeWhile (\<lambda>d. timestampOf d < oldest) q))"
  using assms by (induction q arbitrary: bytes) (auto simp: popExpired.simps)

lemma evictEntries_dropWhile:
  assumes "distinct ts" "\<forall>t\<in>set ts. \<forall>d\<in>set (queues b t). well_typed d"
  shows "evictEntries oldest ts b = Inr (b\<lparr>
      queues := (\<lambda>t. if t \<in> set ts then dropWhile (\<lambda>d. timestampOf d < oldest) (queues b t) else queues b t),
      queueBytes := (\<lambda>t. if t \<in> set ts
         then queueBytes b t - total_size (takeWhile (\<lambda>d. timestampOf d < oldest) (queues b t))
         else queueBytes b t)\<rparr>)"
  using assms
proof (induction ts arbitrary: b)
  case (Cons t ts)
  then show ?case
    by (auto simp: popExpired_dropWhile fun_eq_iff intro!: arg_cong2 [where f = "\<lambda>q n. b\<lparr>queues := q, queueBytes := n\<rparr>"])
qed simp

section \<open>The invariant\<close>

definition queue_ok :: "DataBuffer \<Rightarrow> SensorType \<Rightarrow> bool" where
  "queue_ok b t \<longleftrightarrow>
     sorted (map timestampOf (queues b t)) \<and>
     (\<forall>d\<in>set (queues b t). well_typed d \<and> sd_type d = t \<and> hasLatestTimestamp b \<and>
        timestampOf d \<le> latestTimestamp b \<and>
        (maxAge b > 0 \<longrightarrow> latestTimestamp b - maxAge b \<le> timestampOf d)) \<and>
     length (queues b t) \<le> maxSize b \<and>
     queueBytes b t \<le> total_size (queues b t) \<and>
     queueBytes b t \<le> SIZE_MAX \<and>
     (maxBytesPerSensor b > 0 \<longrightarrow> queueBytes b t \<le> maxBytesPerSensor b)"

definition buffer_ok :: "DataBuffer \<Rightarrow> bool" where
  "buffer_ok b \<longleftrightarrow> (\<forall>t. queue_ok b t)"

lemma buffer_ok_new: "buffer_ok (newDataBuffer limit age bytes)"
  by (simp add: buffer_ok_def queue_ok_def newDataBuffer_def)

text \<open>The watermark \<open>addData\<close> sets before it looks at the queues.\<close>

definition advance :: "DataBuffer \<Rightarrow> int \<Rightarrow> DataBuffer" where
  "advance b timestamp =
     (if \<not> hasLatestTimestamp b \<or> timestamp > latestTimestamp b
      then b\<lparr>latestTimestamp := timestamp, hasLatestTimestamp := True\<rparr> else b)"

lemma advance_simps [simp]:
  "queues (advance b t) = queues b" "queueBytes (advance b t) = queueBytes b"
  "maxSize (advance b t) = maxSize b" "maxAge (advance b t) = maxAge b"
  "maxBytesPerSensor (advance b t) = maxBytesPerSensor b"
  "hasLatestTimestamp (advance b t)"
  "t \<le> latestTimestamp (advance b t)"
  "hasLatestTimestamp b \<Longrightarrow> latestTimestamp (advance b t) = max (latestTimestamp b) t"
  "\<not> hasLatestTimestamp b \<Longrightarrow> latestTimestamp (advance b t) = t"
  by (auto simp: advance_def)

text \<open>A frame is fresh for a buffer when the age limit does not reject it.\<close>

definition fresh :: "DataBuffer \<Rightarrow> int \<Rightarrow> bool" where
  "fresh b timestamp \<longleftrightarrow> maxAge b > 0 \<longrightarrow> latestTimestamp b - maxAge b \<le> timestamp"

text \<open>
  What \<open>addData\<close> does on a good buffer, as one equation per branch: the
  late frame only moves the watermark, every other frame is inserted in
  timestamp order, a prefix of its queue is popped and then the expired prefix
  of every queue.
\<close>

lemma evictExpiredLocked_filter:
  assumes "\<forall>t. \<forall>d\<in>set (queues b t). well_typed d" "\<forall>t. sorted (map timestampOf (queues b t))"
    "hasLatestTimestamp b" "\<forall>t. queueBytes b t \<le> total_size (queues b t)"
  shows "\<exists>b'. evictExpiredLocked b = Inr b' \<and>
     (\<forall>t. queues b' t = filter (\<lambda>d. fresh b (timestampOf d)) (queues b t)) \<and>
     (\<forall>t. queueBytes b' t \<le> queueBytes b t \<and> queueBytes b' t \<le> total_size (queues b' t)) \<and>
     (\<forall>t. queueBytes b t = total_size (queues b t) \<longrightarrow> queueBytes b' t = total_size (queues b' t)) \<and>
     b' = b\<lparr>queues := queues b', queueBytes := queueBytes b'\<rparr>"
proof (cases "maxAge b > 0")
  case False
  then show ?thesis
    using assms(4) by (simp add: evictExpiredLocked_def fresh_def)
next
  case True
  let ?old = "\<lambda>d. timestampOf d < latestTimestamp b - maxAge b"
  have size: "total_size (takeWhile ?old q) + total_size (dropWhile ?old q) = total_size q" for q
    by (metis map_append sum_list_append takeWhile_dropWhile_id)
  have evict: "evictExpiredLocked b = Inr (b\<lparr>
      queues := (\<lambda>t. dropWhile ?old (queues b t)),
      queueBytes := (\<lambda>t. queueBytes b t - total_size (takeWhile ?old (queues b t)))\<rparr>)"
    using True assms(1,3) evictEntries_dropWhile [of sensorTypes b]
    by (simp add: evictExpiredLocked_def sensorTypes_ordered)
  have "dropWhile ?old (queues b t) = filter (\<lambda>d. fresh b (timestampOf d)) (queues b t)" for t
    using True assms(2) by (simp add: dropWhile_less_eq_filter fresh_def)
  moreover have "queueBytes b t - total_size (takeWhile ?old (queues b t))
      \<le> total_size (dropWhile ?old (queues b t))" for t
    using assms(4) size [of "queues b t"] by (metis add.commute le_diff_conv)
  moreover have "queueBytes b t = total_size (queues b t) \<Longrightarrow>
      queueBytes b t - total_size (takeWhile ?old (queues b t)) = total_size (dropWhile ?old (queues b t))" for t
    using size [of "queues b t"] by linarith
  ultimately show ?thesis
    by (intro exI [of _ "b\<lparr>queues := (\<lambda>t. dropWhile ?old (queues b t)),
      queueBytes := (\<lambda>t. queueBytes b t - total_size (takeWhile ?old (queues b t)))\<rparr>"] conjI allI impI)
      (simp_all add: evict)
qed

lemma addData_disabled: "maxSize b = 0 \<Longrightarrow> addData b d = Inr b"
  by (simp add: addData_def)

lemma addData_enabled:
  fixes d :: SensorData
  assumes "maxSize b > 0"
  defines "c \<equiv> advance b (timestampOf d)"
  shows "addData b d =
     (if \<not> fresh c (timestampOf d) then Inr c
      else result_bind (payloadBytes d) (\<lambda>addedBytes.
        result_bind (shrinkQueue (maxSize c) (maxBytesPerSensor c)
            (insertOrdered timestampOf (queues c (sd_type d)) d)
            (sat_add (queueBytes c (sd_type d)) addedBytes))
          (\<lambda>(q', bytes'). evictExpiredLocked
             (c\<lparr>queues := (queues c)(sd_type d := q'),
                queueBytes := (queueBytes c)(sd_type d := bytes')\<rparr>))))"
  using assms(1) unfolding addData_def advance_def [symmetric] c_def [symmetric] Let_def fresh_def
  by (simp add: not_le)

lemma addData_late:
  assumes "maxSize b > 0" "\<not> fresh (advance b (timestampOf d)) (timestampOf d)"
  shows "addData b d = Inr (advance b (timestampOf d))"
  using assms by (simp add: addData_enabled)

lemma addData_accepted:
  assumes ok: "buffer_ok b" and typed: "well_typed d" and size: "maxSize b > 0"
    and fresh: "fresh (advance b (timestampOf d)) (timestampOf d)"
  defines "c \<equiv> advance b (timestampOf d)"
    and "q \<equiv> insertOrdered timestampOf (queues b (sd_type d)) d"
  shows "\<exists>k b'. addData b d = Inr b' \<and> length q - k \<le> maxSize b \<and>
     (maxBytesPerSensor b = 0 \<longrightarrow> drop k q = lastn (maxSize b) q) \<and>
     (\<forall>t. queues b' t = filter (\<lambda>x. fresh c (timestampOf x)) (if t = sd_type d then drop k q else queues b t)) \<and>
     (\<forall>t. queueBytes b' t \<le> total_size (queues b' t) \<and> queueBytes b' t \<le> SIZE_MAX \<and>
        (maxBytesPerSensor b > 0 \<longrightarrow> queueBytes b' t \<le> maxBytesPerSensor b)) \<and>
     ((\<forall>t. queueBytes b t = total_size (queues b t)) \<longrightarrow>
        queueBytes b (sd_type d) + payloadSize d \<le> SIZE_MAX \<longrightarrow>
        (\<forall>t. queueBytes b' t = total_size (queues b' t))) \<and>
     b' = c\<lparr>queues := queues b', queueBytes := queueBytes b'\<rparr>"
proof -
  let ?t = "sd_type d" and ?bytes = "sat_add (queueBytes b (sd_type d)) (payloadSize d)"
  have sorted: "sorted (map timestampOf (queues b t))"
    and typed_q: "\<forall>x\<in>set (queues b t). well_typed x"
    and bytes: "queueBytes b t \<le> total_size (queues b t)" "queueBytes b t \<le> SIZE_MAX"
      "maxBytesPerSensor b > 0 \<longrightarrow> queueBytes b t \<le> maxBytesPerSensor b" for t
    using ok by (auto simp: buffer_ok_def queue_ok_def)
  have mset_q: "mset q = add_mset d (mset (queues b ?t))"
    unfolding q_def by (rule ordered.mset_ins [OF sorted])
  then have set_q: "\<forall>x\<in>set q. well_typed x"
    using typed typed_q by (metis insertE set_mset_add_mset_insert set_mset_mset)
  have total_q: "total_size q = payloadSize d + total_size (queues b ?t)"
    by (metis mset_map mset_q image_mset_add_mset sum_mset.add_mset sum_mset_sum_list)
  have "?bytes \<le> total_size q" "?bytes \<le> SIZE_MAX"
    using sat_add_le [OF bytes(2), of ?t "payloadSize d"] bytes(1) [of ?t]
      sat_add_bound [of "queueBytes b ?t" "payloadSize d"] bytes(2) [of ?t] total_q by auto
  with shrinkQueue_drop [OF set_q, of ?bytes "maxSize b" "maxBytesPerSensor b"]
  obtain k bytes' where k: "shrinkQueue (maxSize b) (maxBytesPerSensor b) q ?bytes = Inr (drop k q, bytes')"
      "length q - k \<le> maxSize b" "bytes' \<le> total_size (drop k q)" "bytes' \<le> SIZE_MAX"
      "maxBytesPerSensor b > 0 \<longrightarrow> bytes' \<le> maxBytesPerSensor b"
      "?bytes = total_size q \<longrightarrow> bytes' = total_size (drop k q)"
      "maxBytesPerSensor b = 0 \<longrightarrow> drop k q = lastn (maxSize b) q"
    by fastforce
  define e where "e = c\<lparr>queues := (queues b)(?t := drop k q), queueBytes := (queueBytes b)(?t := bytes')\<rparr>"
  have add: "addData b d = evictExpiredLocked e"
    using size fresh typed k(1) by (simp add: addData_enabled e_def c_def q_def)
  have sorted_e: "\<forall>t. sorted (map timestampOf (queues e t))"
    using sorted ordered.sorted_ins [OF sorted] by (auto simp: e_def q_def intro: sorted_map_drop)
  have typed_e: "\<forall>t. \<forall>x\<in>set (queues e t). well_typed x"
    using typed_q set_q by (auto simp: e_def dest: in_set_dropD)
  have "hasLatestTimestamp e" and bytes_e: "\<forall>t. queueBytes e t \<le> total_size (queues e t)"
    using k(3) bytes(1) by (auto simp: e_def c_def)
  from evictExpiredLocked_filter [OF typed_e sorted_e this] obtain b' where b':
      "evictExpiredLocked e = Inr b'"
      "\<forall>t. queues b' t = filter (\<lambda>x. fresh e (timestampOf x)) (queues e t)"
      "\<forall>t. queueBytes b' t \<le> queueBytes e t \<and> queueBytes b' t \<le> total_size (queues b' t)"
      "\<forall>t. queueBytes e t = total_size (queues e t) \<longrightarrow> queueBytes b' t = total_size (queues b' t)"
      "b' = e\<lparr>queues := queues b', queueBytes := queueBytes b'\<rparr>"
    by blast
  have fresh_e: "fresh e = fresh c" by (simp add: e_def fresh_def fun_eq_iff)
  have exact: "(\<forall>t. queueBytes b t = total_size (queues b t)) \<Longrightarrow>
      queueBytes b ?t + payloadSize d \<le> SIZE_MAX \<Longrightarrow> queueBytes e t = total_size (queues e t)" for t
    using k(6) total_q by (auto simp: e_def sat_add_exact add.commute)
  have limits: "queueBytes e t \<le> SIZE_MAX" "maxBytesPerSensor b > 0 \<longrightarrow> queueBytes e t \<le> maxBytesPerSensor b" for t
    using k(4,5) bytes by (auto simp: e_def)
  show ?thesis
  proof (intro exI [of _ k] exI [of _ b'] conjI)
    show "addData b d = Inr b'" using add b'(1) by simp
    show "length q - k \<le> maxSize b" "maxBytesPerSensor b = 0 \<longrightarrow> drop k q = lastn (maxSize b) q"
      using k by auto
    show "\<forall>t. queues b' t = filter (\<lambda>x. fresh c (timestampOf x)) (if t = sd_type d then drop k q else queues b t)"
      using b'(2) fresh_e by (simp add: e_def)
    show "\<forall>t. queueBytes b' t \<le> total_size (queues b' t) \<and> queueBytes b' t \<le> SIZE_MAX \<and>
        (maxBytesPerSensor b > 0 \<longrightarrow> queueBytes b' t \<le> maxBytesPerSensor b)"
      using b'(3) limits by (meson le_trans)
    show "(\<forall>t. queueBytes b t = total_size (queues b t)) \<longrightarrow>
        queueBytes b (sd_type d) + payloadSize d \<le> SIZE_MAX \<longrightarrow>
        (\<forall>t. queueBytes b' t = total_size (queues b' t))"
      using b'(4) exact by blast
    show "b' = c\<lparr>queues := queues b', queueBytes := queueBytes b'\<rparr>"
      by (subst b'(5)) (simp add: e_def)
  qed
qed

text \<open>The two corollaries the later proofs use.\<close>

lemma addData_accepted_shape:
  assumes "buffer_ok b" "well_typed d" "maxSize b > 0"
    "fresh (advance b (timestampOf d)) (timestampOf d)" "addData b d = Inr b'"
  shows "b' = (advance b (timestampOf d))\<lparr>queues := queues b', queueBytes := queueBytes b'\<rparr>"
  using addData_accepted [OF assms(1-4)] assms(5) by (elim exE conjE) simp

lemma addData_accepted_unbudgeted:
  assumes "buffer_ok b" "well_typed d" "maxSize b > 0"
    "fresh (advance b (timestampOf d)) (timestampOf d)" "addData b d = Inr b'" "maxBytesPerSensor b = 0"
  shows "queues b' t = filter (\<lambda>x. fresh (advance b (timestampOf d)) (timestampOf x))
     (if t = sd_type d then lastn (maxSize b) (insertOrdered timestampOf (queues b t) d) else queues b t)"
  using addData_accepted [OF assms(1-4)] assms(5,6) by (elim exE conjE) simp

section \<open>Preservation, limits and exact accounting\<close>

lemma fresh_simps [simp]:
  "fresh (b\<lparr>queues := q, queueBytes := n\<rparr>) t = fresh b t"
  by (simp add: fresh_def)

lemma queue_ok_advance:
  assumes ok: "buffer_ok b" and late: "\<not> fresh (advance b ts) ts"
  shows "buffer_ok (advance b ts)"
proof -
  from late have "advance b ts = b"
    by (auto simp: fresh_def advance_def split: if_splits)
  with ok show ?thesis by simp
qed

lemma addData_buffer_ok:
  assumes ok: "buffer_ok b" and typed: "well_typed d"
  shows "\<exists>b'. addData b d = Inr b' \<and> buffer_ok b'"
proof (cases "maxSize b = 0 \<or> \<not> fresh (advance b (timestampOf d)) (timestampOf d)")
  case True
  then show ?thesis
    using ok addData_disabled addData_late queue_ok_advance by (cases "maxSize b = 0") auto
next
  case False
  let ?c = "advance b (timestampOf d)"
  let ?q = "insertOrdered timestampOf (queues b (sd_type d)) d"
  have sorted: "sorted (map timestampOf (queues b t))" and len: "length (queues b t) \<le> maxSize b"
    and elems: "x \<in> set (queues b t) \<Longrightarrow> well_typed x \<and> sd_type x = t \<and> timestampOf x \<le> latestTimestamp ?c"
    for t x
    using ok by (force simp: buffer_ok_def queue_ok_def advance_def)+
  from False addData_accepted [OF ok typed] obtain k b' where b':
      "addData b d = Inr b'" "length ?q - k \<le> maxSize b"
      "\<forall>t. queues b' t = filter (\<lambda>x. fresh ?c (timestampOf x)) (if t = sd_type d then drop k ?q else queues b t)"
      "\<forall>t. queueBytes b' t \<le> total_size (queues b' t) \<and> queueBytes b' t \<le> SIZE_MAX \<and>
        (maxBytesPerSensor b > 0 \<longrightarrow> queueBytes b' t \<le> maxBytesPerSensor b)"
      "b' = ?c\<lparr>queues := queues b', queueBytes := queueBytes b'\<rparr>"
    by blast
  have fields: "maxSize b' = maxSize b" "maxAge b' = maxAge b" "hasLatestTimestamp b'"
    "maxBytesPerSensor b' = maxBytesPerSensor b" "latestTimestamp b' = latestTimestamp ?c"
    by (subst b'(5), simp)+
  have "queue_ok b' t" for t
    unfolding queue_ok_def
  proof (intro conjI ballI)
    show "sorted (map timestampOf (queues b' t))"
      using b'(3) sorted ordered.sorted_ins [OF sorted]
      by (auto intro!: sorted_map_filter sorted_map_drop)
    have "length (queues b' t) \<le> length (if t = sd_type d then drop k ?q else queues b t)"
      using b'(3) length_filter_le by metis
    then show "length (queues b' t) \<le> maxSize b'"
      using b'(2) len [of t] by (auto simp: fields split: if_splits)
    fix x assume "x \<in> set (queues b' t)"
    then have x: "fresh ?c (timestampOf x)" "x \<in> set (if t = sd_type d then drop k ?q else queues b t)"
      using b'(3) by auto
    then have "x = d \<and> t = sd_type d \<or> x \<in> set (queues b t)"
      using ordered.set_ins [OF sorted] by (auto dest: in_set_dropD split: if_splits)
    then show "well_typed x" "sd_type x = t" "timestampOf x \<le> latestTimestamp b'"
      using typed elems by (auto simp: fields)
    show "maxAge b' > 0 \<longrightarrow> latestTimestamp b' - maxAge b' \<le> timestampOf x" "hasLatestTimestamp b'"
      using x(1) by (auto simp: fields fresh_def)
  qed (use b'(4) in \<open>auto simp: fields\<close>)
  with b'(1) show ?thesis by (auto simp: buffer_ok_def)
qed

lemma addAll_buffer_ok:
  assumes "buffer_ok b" "\<forall>d\<in>set ds. well_typed d"
  shows "\<exists>b'. addAll b ds = Inr b' \<and> buffer_ok b'"
  using assms
proof (induction ds arbitrary: b)
  case (Cons d ds)
  then show ?case using addData_buffer_ok [of b d] by fastforce
qed simp

section \<open>What the buffer holds after a run\<close>

text \<open>
  The abstract specification: of the frames of one sensor in stable timestamp
  order, the newest \<open>limit\<close> among those no older than the newest stamp
  seen on any sensor less the age limit.
\<close>

definition watermark :: "SensorData list \<Rightarrow> int" where
  "watermark ds = Max (timestampOf ` set ds)"

definition bufferSpec :: "nat \<Rightarrow> int \<Rightarrow> SensorData list \<Rightarrow> SensorType \<Rightarrow> SensorData list" where
  "bufferSpec limit age ds t =
     lastn limit (filter (\<lambda>d. age > 0 \<longrightarrow> watermark ds - age \<le> timestampOf d)
       (sort_key timestampOf (filter (\<lambda>d. sd_type d = t) ds)))"

lemma watermark_snoc: "ds \<noteq> [] \<Longrightarrow> watermark (ds @ [d]) = max (watermark ds) (timestampOf d)"
  by (simp add: watermark_def max.commute)

lemma lastn_filter_ge:
  fixes f :: "'a \<Rightarrow> int"
  assumes "sorted (map f xs)"
  shows "filter (\<lambda>x. P \<longrightarrow> c \<le> f x) (lastn n xs) = lastn n (filter (\<lambda>x. P \<longrightarrow> c \<le> f x) xs)"
  using assms
proof (induction xs)
  case (Cons x xs)
  show ?case
  proof (cases "P \<longrightarrow> c \<le> f x")
    case True
    with Cons.prems have "filter (\<lambda>x. P \<longrightarrow> c \<le> f x) xs = xs"
      by (fastforce simp: filter_id_conv)
    with True Cons show ?thesis by (auto simp: lastn_Cons)
  next
    case False
    with Cons show ?thesis by (auto simp: lastn_Cons) (metis lastn_short nat_less_le)
  qed
qed (simp add: lastn_def)

text \<open>Adding a fresh frame to the specification is an insertion, then the limits.\<close>

lemma bufferSpec_snoc:
  assumes mono: "\<And>x. (age > 0 \<longrightarrow> watermark (ds @ [d]) - age \<le> x) \<Longrightarrow> (age > 0 \<longrightarrow> watermark ds - age \<le> x)"
    and fresh: "age > 0 \<longrightarrow> watermark (ds @ [d]) - age \<le> timestampOf d"
  shows "bufferSpec limit age (ds @ [d]) t =
     filter (\<lambda>x. age > 0 \<longrightarrow> watermark (ds @ [d]) - age \<le> timestampOf x)
       (if t = sd_type d then lastn limit (insertOrdered timestampOf (bufferSpec limit age ds t) d)
        else bufferSpec limit age ds t)"
proof -
  let ?new = "\<lambda>x. age > 0 \<longrightarrow> watermark (ds @ [d]) - age \<le> timestampOf x"
  let ?old = "\<lambda>x. age > 0 \<longrightarrow> watermark ds - age \<le> timestampOf x"
  define S where "S = sort_key timestampOf (filter (\<lambda>d. sd_type d = t) ds)"
  have S: "sorted (map timestampOf S)" by (simp add: S_def)
  have spec: "bufferSpec limit age ds t = lastn limit (filter ?old S)"
    by (simp add: bufferSpec_def S_def)
  have new_old: "filter ?new (filter ?old S) = filter ?new S"
    using mono by (auto intro: filter_cong simp: filter_filter)
  have other: "filter ?new (lastn limit (filter ?old S)) = lastn limit (filter ?new S)"
    by (simp only: lastn_filter_ge [OF sorted_map_filter [OF S]] new_old)
  show ?thesis
  proof (cases "t = sd_type d")
    case False
    then show ?thesis using other by (simp add: bufferSpec_def S_def)
  next
    case True
    let ?q = "lastn limit (filter ?old S)"
    have q: "sorted (map timestampOf ?q)"
      by (simp only: lastn_def sorted_map_drop [OF sorted_map_filter [OF S]])
    have "filter ?new (lastn limit (insertOrdered timestampOf ?q d)) =
        lastn limit (insertOrdered timestampOf (filter ?new ?q) d)"
      using fresh by (simp only: lastn_filter_ge [OF ordered.sorted_ins [OF q]] ordered.filter_ins [OF q]) simp
    also have "\<dots> = lastn limit (insertOrdered timestampOf (filter ?new S) d)"
      by (simp only: other ordered.lastn_ins [OF sorted_map_filter [OF S]])
    also have "\<dots> = lastn limit (filter ?new (insertOrdered timestampOf S d))"
      using fresh by (simp only: ordered.filter_ins [OF S]) simp
    also have "insertOrdered timestampOf S d = sort_key timestampOf (filter (\<lambda>d. sd_type d = t) (ds @ [d]))"
      using True by (simp add: insertOrdered_sorted [OF S]) (simp add: S_def sort_key_append_sorted)
    also have "lastn limit (filter ?new \<dots>) = bufferSpec limit age (ds @ [d]) t"
      by (simp only: bufferSpec_def)
    finally show ?thesis unfolding if_P [OF True] spec by (rule sym)
  qed
qed

lemma addAll_config:
  "addAll b ds = Inr b' \<Longrightarrow> buffer_ok b \<Longrightarrow> \<forall>d\<in>set ds. well_typed d \<Longrightarrow>
     maxSize b' = maxSize b \<and> maxAge b' = maxAge b \<and> maxBytesPerSensor b' = maxBytesPerSensor b"
proof (induction ds arbitrary: b)
  case (Cons d ds)
  then obtain b1 where b1: "addData b d = Inr b1" "addAll b1 ds = Inr b'"
    by (auto simp: result_iff)
  with addData_buffer_ok [of b d] Cons.prems have ok: "buffer_ok b1" by auto
  have "maxSize b1 = maxSize b \<and> maxAge b1 = maxAge b \<and> maxBytesPerSensor b1 = maxBytesPerSensor b"
  proof (cases "maxSize b = 0 \<or> \<not> fresh (advance b (timestampOf d)) (timestampOf d)")
    case True
    then show ?thesis using b1(1) by (cases "maxSize b = 0") (auto simp: addData_disabled addData_late)
  next
    case False
    with addData_accepted_shape [of b d b1] Cons.prems b1(1) have
      "b1 = (advance b (timestampOf d))\<lparr>queues := queues b1, queueBytes := queueBytes b1\<rparr>" by auto
    then show ?thesis
      by (metis (no_types, lifting) DataBuffer.ext_inject DataBuffer.surjective DataBuffer.update_convs(1,2) advance_simps(3-5))
  qed
  with Cons.IH [OF b1(2) ok] Cons.prems show ?case by simp
qed simp

text \<open>One more arrival, on the specification's side and on the code's side.\<close>

lemma bufferSpec_Nil [simp]: "bufferSpec limit age [] t = []"
  by (simp add: bufferSpec_def lastn_def)

lemma addAll_bufferSpec:
  assumes "limit > 0" "\<forall>d\<in>set ds. well_typed d"
  shows "\<exists>b. addAll (newDataBuffer limit age 0) ds = Inr b \<and> buffer_ok b \<and>
     (\<forall>t. queues b t = bufferSpec limit age ds t) \<and>
     latestSensorTimestamp b = (if ds = [] then None else Some (watermark ds)) \<and>
     maxSize b = limit \<and> maxAge b = age \<and> maxBytesPerSensor b = 0"
  using assms(2)
proof (induction ds rule: rev_induct)
  case Nil
  then show ?case
    using buffer_ok_new [of limit age 0] by (simp add: newDataBuffer_def latestSensorTimestamp_def)
next
  case (snoc d ds)
  then obtain b where b: "addAll (newDataBuffer limit age 0) ds = Inr b" "buffer_ok b"
      "\<forall>t. queues b t = bufferSpec limit age ds t"
      "latestSensorTimestamp b = (if ds = [] then None else Some (watermark ds))"
      "maxSize b = limit" "maxAge b = age" "maxBytesPerSensor b = 0" by auto
  let ?c = "advance b (timestampOf d)"
  have typed: "well_typed d" using snoc.prems by simp
  have wm: "latestTimestamp ?c = watermark (ds @ [d])" "hasLatestTimestamp ?c"
    using b(4) by (cases "ds = []"; auto simp: latestSensorTimestamp_def watermark_snoc watermark_def
        split: if_splits)+
  have fresh: "fresh ?c x \<longleftrightarrow> (age > 0 \<longrightarrow> watermark (ds @ [d]) - age \<le> x)" for x
    using b(6) wm by (simp add: fresh_def)
  obtain b' where b': "addData b d = Inr b'" "buffer_ok b'"
    using addData_buffer_ok [OF b(2) typed] by blast
  have add: "addAll (newDataBuffer limit age 0) (ds @ [d]) = Inr b'"
    by (simp add: addAll_snoc b(1) b'(1))
  note config = addAll_config [OF add buffer_ok_new snoc.prems]
  show ?case
  proof (cases "fresh ?c (timestampOf d)")
    case False
    then have late: "b' = ?c" using b' b(5) assms(1) by (simp add: addData_late)
    from False have age: "age > 0" "timestampOf d < watermark (ds @ [d]) - age" by (auto simp: fresh)
    have ds: "ds \<noteq> []"
      using age by (auto simp: watermark_def)
    with age have same: "watermark (ds @ [d]) = watermark ds"
      by (auto simp: watermark_snoc max_def split: if_splits)
    have "bufferSpec limit age (ds @ [d]) t = bufferSpec limit age ds t" for t
      using age by (auto simp: bufferSpec_def filter_sort_key same)
    then show ?thesis
      using add b' late b wm config ds same by (simp add: latestSensorTimestamp_def newDataBuffer_def)
  next
    case True
    have pos: "maxSize b > 0" using assms(1) b(5) by simp
    note q = addData_accepted_unbudgeted [OF b(2) typed pos True b'(1) b(7)]
    note shape = addData_accepted_shape [OF b(2) typed pos True b'(1)]
    have mono: "(age > 0 \<longrightarrow> watermark (ds @ [d]) - age \<le> x) \<Longrightarrow> (age > 0 \<longrightarrow> watermark ds - age \<le> x)"
      if "ds \<noteq> []" for x
      using that by (auto simp: watermark_snoc)
    have "bufferSpec limit age (ds @ [d]) t = queues b' t" for t
    proof (cases "ds = []")
      case True
      then show ?thesis
        using q [of t] b(3,5) assms(1) by (auto simp: bufferSpec_def insertOrdered_def fresh lastn_def)
    next
      case False
      then show ?thesis
        using bufferSpec_snoc [OF mono [OF False], of d limit t] \<open>fresh ?c (timestampOf d)\<close> q [of t] b(3,5)
        by (simp add: fresh)
    qed
    moreover have "latestSensorTimestamp b' = Some (watermark (ds @ [d]))"
      by (subst shape) (simp add: latestSensorTimestamp_def wm)
    ultimately show ?thesis
      using add b'(2) config by (simp add: newDataBuffer_def)
  qed
qed

section \<open>Properties\<close>

text \<open>
  C2. Whatever well-typed frames arrive, in whatever order, \<open>addData\<close> never
  pops an empty deque and never reads the wrong variant, and the buffer keeps
  its limits: every queue is in timestamp order, holds frames of its own sensor,
  at most \<open>limit\<close> of them and at most \<open>budget\<close> accounted bytes, and no frame
  is older than the newest stamp less the age limit.
\<close>

theorem buffer_limits:
  assumes "\<forall>d\<in>set ds. well_typed d"
  shows "\<exists>b. addAll (newDataBuffer limit age budget) ds = Inr b \<and>
     (\<forall>t. sorted (map timestampOf (queues b t)) \<and>
        length (queues b t) \<le> limit \<and>
        (budget > 0 \<longrightarrow> queueBytes b t \<le> budget) \<and>
        (\<forall>d\<in>set (queues b t). sd_type d = t \<and> timestampOf d \<le> latestTimestamp b \<and>
           (age > 0 \<longrightarrow> latestTimestamp b - age \<le> timestampOf d)))"
proof -
  obtain b where b: "addAll (newDataBuffer limit age budget) ds = Inr b" "buffer_ok b"
    using addAll_buffer_ok [OF buffer_ok_new assms] by blast
  with addAll_config [OF b(1) buffer_ok_new assms] show ?thesis
    by (intro exI [of _ b]) (auto simp: buffer_ok_def queue_ok_def newDataBuffer_def)
qed

definition sampleImage :: "int \<Rightarrow> Image" where
  "sampleImage t = \<lparr>img_stamp = t, img_height = 1, img_width = 1, img_step = 3,
     img_encoding = ''bgr8'', img_data = ''abc''\<rparr>"

definition sampleCloud :: "int \<Rightarrow> PointCloud2" where
  "sampleCloud t = \<lparr>pc_stamp = t, pc_height = 1, pc_width = 1, pc_point_step = 2,
     pc_fields = [''x''], pc_data = ''ab''\<rparr>"

theorem buffer_limits_witness:
  "\<exists>b. addAll (newDataBuffer 2 10 4) [cameraFrame (sampleImage 5), lidarFrame (sampleCloud 7),
        cameraFrame (sampleImage 3), cameraFrame (sampleImage 9)] = Inr b \<and>
     length (queues b CAMERA) \<le> 2 \<and> queueBytes b CAMERA \<le> 4"
proof -
  have "\<forall>d\<in>set [cameraFrame (sampleImage 5), lidarFrame (sampleCloud 7),
      cameraFrame (sampleImage 3), cameraFrame (sampleImage 9)]. well_typed d" by simp
  from buffer_limits [OF this, of 2 10 4] show ?thesis by auto
qed

text \<open>
  C1. Without a byte budget the buffer is exactly its specification: for each
  sensor, the newest \<open>limit\<close> frames, in stable timestamp order, among all
  that ever arrived and are no older than the newest stamp less the age limit;
  \<open>latestSensorTimestamp\<close> is that newest stamp.  No frame inside the limits
  is lost, also when frames arrive out of order.
\<close>

theorem buffer_refines_spec:
  assumes "limit > 0" "\<forall>d\<in>set ds. well_typed d"
  shows "\<exists>b. addAll (newDataBuffer limit age 0) ds = Inr b \<and>
     (\<forall>t. queues b t = bufferSpec limit age ds t) \<and>
     getAllData b = concat (map (bufferSpec limit age ds) sensorTypes) \<and>
     latestSensorTimestamp b = (if ds = [] then None else Some (watermark ds))"
proof -
  obtain b where "addAll (newDataBuffer limit age 0) ds = Inr b"
      "\<forall>t. queues b t = bufferSpec limit age ds t"
      "latestSensorTimestamp b = (if ds = [] then None else Some (watermark ds))"
    using addAll_bufferSpec [OF assms] by blast
  then show ?thesis
    by (intro exI [of _ b]) (simp add: getAllData_def sensorTypes_def)
qed

theorem buffer_refines_spec_witness:
  "\<exists>b. addAll (newDataBuffer 2 10 0) [cameraFrame (sampleImage 5), lidarFrame (sampleCloud 7),
        cameraFrame (sampleImage 3), cameraFrame (sampleImage 14)] = Inr b \<and>
     queues b CAMERA = [cameraFrame (sampleImage 5), cameraFrame (sampleImage 14)] \<and>
     latestSensorTimestamp b = Some 14"
proof -
  let ?ds = "[cameraFrame (sampleImage 5), lidarFrame (sampleCloud 7),
        cameraFrame (sampleImage 3), cameraFrame (sampleImage 14)]"
  have "\<forall>d\<in>set ?ds. well_typed d" "(2::nat) > 0" by simp_all
  from buffer_refines_spec [OF this(2,1), of 10] obtain b where
    "addAll (newDataBuffer 2 10 0) ?ds = Inr b" "queues b CAMERA = bufferSpec 2 10 ?ds CAMERA"
    "latestSensorTimestamp b = Some (watermark ?ds)" by auto
  moreover have "bufferSpec 2 10 ?ds CAMERA = [cameraFrame (sampleImage 5), cameraFrame (sampleImage 14)]"
    by (simp add: bufferSpec_def watermark_def sampleImage_def sampleCloud_def lastn_def)
  moreover have "watermark ?ds = 14"
    by (simp add: watermark_def sampleImage_def sampleCloud_def)
  ultimately show ?thesis by auto
qed

text \<open>
  The byte counters are exact: as long as the payloads of one sensor's queue
  and of the new frame fit in \<open>size_t\<close>, every counter stays the sum of the
  payload sizes of the frames its queue holds, through insertion, the count and
  budget loop and the age eviction of both queues.
\<close>

theorem byte_accounting_exact:
  assumes "buffer_ok b" "well_typed d" "\<forall>t. queueBytes b t = total_size (queues b t)"
    and "queueBytes b (sd_type d) + payloadSize d \<le> SIZE_MAX"
  shows "\<exists>b'. addData b d = Inr b' \<and> (\<forall>t. queueBytes b' t = total_size (queues b' t))"
proof (cases "maxSize b = 0 \<or> \<not> fresh (advance b (timestampOf d)) (timestampOf d)")
  case True
  then show ?thesis
    using assms(3) by (cases "maxSize b = 0") (auto simp: addData_disabled addData_late)
next
  case False
  then have "maxSize b > 0" "fresh (advance b (timestampOf d)) (timestampOf d)" by auto
  from addData_accepted [OF assms(1,2) this] assms(3,4) show ?thesis
    by (elim exE conjE) blast
qed

theorem byte_accounting_exact_witness:
  "\<exists>b'. addData (newDataBuffer 2 0 4) (cameraFrame (sampleImage 5)) = Inr b' \<and> queueBytes b' CAMERA = total_size (queues b' CAMERA)"
proof -
  have "buffer_ok (newDataBuffer 2 0 4)" "well_typed (cameraFrame (sampleImage 5))"
    by (simp_all add: buffer_ok_new)
  from byte_accounting_exact [OF this] show ?thesis
    by (auto simp: newDataBuffer_def sampleImage_def SIZE_MAX_def)
qed

end
