(* ===== verification/Approx_Sync.thy ===== *)
theory Approx_Sync
  imports Sensor_Data Stamped_Queue
begin

text \<open>
  \<open>ApproximateSynchronizer\<close> of include/approximate\_synchronizer.hpp: two
  timestamp-ordered queues, front-based greedy pairing within a tolerance, and
  the explicit accounting of everything that leaves a queue unmatched.  An
  operation works on the synchronizer and the \<open>PendingResults\<close> it collects
  under the mutex; \<open>dispatch\<close> turns these into the calls of the two callbacks,
  made after the mutex is released.
\<close>

section \<open>State and operations\<close>

record Synchronizer =
  queueSize :: nat
  tolerance :: int
  hasDropCallback :: bool
  images :: "Image list"
  clouds :: "PointCloud2 list"
  droppedImages :: "64 word"
  droppedClouds :: "64 word"

record MatchResult =
  m_image :: Image
  m_cloud :: PointCloud2
  m_difference :: int

record DropResult =
  d_sensor :: string
  d_timestamp :: int
  d_count :: "64 word"
  d_reason :: string

record PendingResults =
  matches :: "MatchResult list"
  drops :: "DropResult list"

type_synonym sync = "Synchronizer \<times> PendingResults"

definition newSynchronizer :: "nat \<Rightarrow> int \<Rightarrow> bool \<Rightarrow> Synchronizer" where
  "newSynchronizer n tol callback =
     \<lparr>queueSize = max 1 n, tolerance = tol, hasDropCallback = callback, images = [], clouds = [],
      droppedImages = 0, droppedClouds = 0\<rparr>"

definition noResults :: PendingResults where
  "noResults = \<lparr>matches = [], drops = []\<rparr>"

definition recordDrop :: "string \<Rightarrow> int \<Rightarrow> string \<Rightarrow> sync \<Rightarrow> sync" where
  "recordDrop sensor timestamp why \<sigma> =
     (let s = fst \<sigma>; r = snd \<sigma> in
      if sensor = ''camera''
      then let count = droppedImages s + 1
           in (s\<lparr>droppedImages := count\<rparr>,
               r\<lparr>drops := drops r @ [\<lparr>d_sensor = sensor, d_timestamp = timestamp, d_count = count, d_reason = why\<rparr>]\<rparr>)
      else let count = droppedClouds s + 1
           in (s\<lparr>droppedClouds := count\<rparr>,
               r\<lparr>drops := drops r @ [\<lparr>d_sensor = sensor, d_timestamp = timestamp, d_count = count, d_reason = why\<rparr>]\<rparr>))"

text \<open>The pair of statements every loop uses: record the front's drop, pop it.\<close>

definition dropImage :: "string \<Rightarrow> sync \<Rightarrow> sync" where
  "dropImage why \<sigma> =
     (let \<sigma>' = recordDrop ''camera'' (img_stamp (hd (images (fst \<sigma>)))) why \<sigma>
      in (fst \<sigma>'\<lparr>images := tl (images (fst \<sigma>'))\<rparr>, snd \<sigma>'))"

definition dropCloud :: "string \<Rightarrow> sync \<Rightarrow> sync" where
  "dropCloud why \<sigma> =
     (let \<sigma>' = recordDrop ''lidar'' (pc_stamp (hd (clouds (fst \<sigma>)))) why \<sigma>
      in (fst \<sigma>'\<lparr>clouds := tl (clouds (fst \<sigma>'))\<rparr>, snd \<sigma>'))"

definition matchFronts :: "sync \<Rightarrow> sync" where
  "matchFronts \<sigma> =
     (let s = fst \<sigma>; r = snd \<sigma>;
          diff = img_stamp (hd (images s)) - pc_stamp (hd (clouds s));
          magnitude = (if diff < 0 then - diff else diff)
      in (s\<lparr>images := tl (images s), clouds := tl (clouds s)\<rparr>,
          r\<lparr>matches := matches r @ [\<lparr>m_image = hd (images s), m_cloud = hd (clouds s), m_difference = magnitude\<rparr>]\<rparr>))"

lemma sync_step_queues [simp]:
  "images (fst (dropImage why \<sigma>)) = tl (images (fst \<sigma>))"
  "clouds (fst (dropImage why \<sigma>)) = clouds (fst \<sigma>)"
  "clouds (fst (dropCloud why \<sigma>)) = tl (clouds (fst \<sigma>))"
  "images (fst (dropCloud why \<sigma>)) = images (fst \<sigma>)"
  "images (fst (matchFronts \<sigma>)) = tl (images (fst \<sigma>))"
  "clouds (fst (matchFronts \<sigma>)) = tl (clouds (fst \<sigma>))"
  "queueSize (fst (dropImage why \<sigma>)) = queueSize (fst \<sigma>)"
  "queueSize (fst (dropCloud why \<sigma>)) = queueSize (fst \<sigma>)"
  "queueSize (fst (matchFronts \<sigma>)) = queueSize (fst \<sigma>)"
  "tolerance (fst (dropImage why \<sigma>)) = tolerance (fst \<sigma>)"
  "tolerance (fst (dropCloud why \<sigma>)) = tolerance (fst \<sigma>)"
  "tolerance (fst (matchFronts \<sigma>)) = tolerance (fst \<sigma>)"
  by (simp_all add: dropImage_def dropCloud_def matchFronts_def recordDrop_def Let_def)

function tryMatchLocked :: "sync \<Rightarrow> sync" where
  "tryMatchLocked \<sigma> =
     (if images (fst \<sigma>) \<noteq> [] \<and> clouds (fst \<sigma>) \<noteq> [] then
        let diff = img_stamp (hd (images (fst \<sigma>))) - pc_stamp (hd (clouds (fst \<sigma>)));
            tol = tolerance (fst \<sigma>)
        in if diff \<ge> - tol \<and> diff \<le> tol then tryMatchLocked (matchFronts \<sigma>)
           else if diff < 0 then tryMatchLocked (dropImage ''outside synchronization tolerance'' \<sigma>)
           else tryMatchLocked (dropCloud ''outside synchronization tolerance'' \<sigma>)
      else \<sigma>)"
  by pat_completeness auto
termination
  by (relation "measure (\<lambda>\<sigma>. length (images (fst \<sigma>)) + length (clouds (fst \<sigma>)))")
    (auto simp: neq_Nil_conv)

function dropImagesWhileFull :: "sync \<Rightarrow> sync" where
  "dropImagesWhileFull \<sigma> =
     (if length (images (fst \<sigma>)) > queueSize (fst \<sigma>)
      then dropImagesWhileFull (dropImage ''synchronizer queue full'' \<sigma>) else \<sigma>)"
  by pat_completeness auto
termination
  by (relation "measure (\<lambda>\<sigma>. length (images (fst \<sigma>)))") auto

function dropCloudsWhileFull :: "sync \<Rightarrow> sync" where
  "dropCloudsWhileFull \<sigma> =
     (if length (clouds (fst \<sigma>)) > queueSize (fst \<sigma>)
      then dropCloudsWhileFull (dropCloud ''synchronizer queue full'' \<sigma>) else \<sigma>)"
  by pat_completeness auto
termination
  by (relation "measure (\<lambda>\<sigma>. length (clouds (fst \<sigma>)))") auto

function flushImages :: "string \<Rightarrow> sync \<Rightarrow> sync" where
  "flushImages why \<sigma> = (if images (fst \<sigma>) \<noteq> [] then flushImages why (dropImage why \<sigma>) else \<sigma>)"
  by pat_completeness auto
termination
  by (relation "measure (\<lambda>(why, \<sigma>). length (images (fst \<sigma>)))") auto

function flushClouds :: "string \<Rightarrow> sync \<Rightarrow> sync" where
  "flushClouds why \<sigma> = (if clouds (fst \<sigma>) \<noteq> [] then flushClouds why (dropCloud why \<sigma>) else \<sigma>)"
  by pat_completeness auto
termination
  by (relation "measure (\<lambda>(why, \<sigma>). length (clouds (fst \<sigma>)))") auto

declare tryMatchLocked.simps [simp del] dropImagesWhileFull.simps [simp del]
  dropCloudsWhileFull.simps [simp del] flushImages.simps [simp del] flushClouds.simps [simp del]

definition addImage :: "Synchronizer \<Rightarrow> Image \<Rightarrow> sync" where
  "addImage s img =
     tryMatchLocked (dropImagesWhileFull
       (s\<lparr>images := insertOrdered img_stamp (images s) img\<rparr>, noResults))"

definition addPointCloud :: "Synchronizer \<Rightarrow> PointCloud2 \<Rightarrow> sync" where
  "addPointCloud s cloud =
     tryMatchLocked (dropCloudsWhileFull
       (s\<lparr>clouds := insertOrdered pc_stamp (clouds s) cloud\<rparr>, noResults))"

definition flushUnmatched :: "Synchronizer \<Rightarrow> string \<Rightarrow> sync" where
  "flushUnmatched s why = flushClouds why (flushImages why (s, noResults))"

text \<open>The callback invocations of \<open>dispatch\<close>, in order.\<close>

datatype callback = MatchCallback Image PointCloud2 int | DropCallback string int "64 word" string

definition dispatch :: "Synchronizer \<Rightarrow> PendingResults \<Rightarrow> callback list" where
  "dispatch s r =
     map (\<lambda>m. MatchCallback (m_image m) (m_cloud m) (m_difference m)) (matches r) @
     (if hasDropCallback s
      then map (\<lambda>d. DropCallback (d_sensor d) (d_timestamp d) (d_count d) (d_reason d)) (drops r) else [])"

section \<open>Loop rules\<close>

text \<open>
  What every step of a loop keeps, the loop keeps; and each loop establishes its
  exit condition.
\<close>

lemma tryMatchLocked_rule:
  assumes "P \<sigma>"
    and "\<And>\<sigma> i is c cs. P \<sigma> \<Longrightarrow> images (fst \<sigma>) = i # is \<Longrightarrow> clouds (fst \<sigma>) = c # cs \<Longrightarrow>
       - tolerance (fst \<sigma>) \<le> img_stamp i - pc_stamp c \<Longrightarrow> img_stamp i - pc_stamp c \<le> tolerance (fst \<sigma>) \<Longrightarrow>
       P (matchFronts \<sigma>)"
    and "\<And>\<sigma> i is c cs. P \<sigma> \<Longrightarrow> images (fst \<sigma>) = i # is \<Longrightarrow> clouds (fst \<sigma>) = c # cs \<Longrightarrow>
       img_stamp i - pc_stamp c < - tolerance (fst \<sigma>) \<Longrightarrow> img_stamp i < pc_stamp c \<Longrightarrow>
       P (dropImage ''outside synchronization tolerance'' \<sigma>)"
    and "\<And>\<sigma> i is c cs. P \<sigma> \<Longrightarrow> images (fst \<sigma>) = i # is \<Longrightarrow> clouds (fst \<sigma>) = c # cs \<Longrightarrow>
       tolerance (fst \<sigma>) < img_stamp i - pc_stamp c \<Longrightarrow> pc_stamp c \<le> img_stamp i \<Longrightarrow>
       P (dropCloud ''outside synchronization tolerance'' \<sigma>)"
  shows "P (tryMatchLocked \<sigma>)"
  using assms(1)
proof (induction \<sigma> rule: tryMatchLocked.induct)
  case (1 \<sigma>)
  show ?case
  proof (cases "images (fst \<sigma>) \<noteq> [] \<and> clouds (fst \<sigma>) \<noteq> []")
    case False
    then have "tryMatchLocked \<sigma> = \<sigma>" by (subst tryMatchLocked.simps) auto
    with 1 show ?thesis by simp
  next
    case True
    then obtain i "is" c cs where fronts: "images (fst \<sigma>) = i # is" "clouds (fst \<sigma>) = c # cs"
      by (auto simp: neq_Nil_conv)
    show ?thesis
      using 1 assms(2-4) [OF "1.prems" fronts] fronts
      by (subst tryMatchLocked.simps) (auto simp: Let_def)
  qed
qed

lemma tryMatchLocked_exit: "images (fst (tryMatchLocked \<sigma>)) = [] \<or> clouds (fst (tryMatchLocked \<sigma>)) = []"
proof (induction \<sigma> rule: tryMatchLocked.induct)
  case (1 \<sigma>)
  then show ?case by (auto simp: tryMatchLocked.simps [of \<sigma>] Let_def)
qed

lemma dropImagesWhileFull_rule:
  assumes "P \<sigma>" "\<And>\<sigma> i is. P \<sigma> \<Longrightarrow> images (fst \<sigma>) = i # is \<Longrightarrow> P (dropImage ''synchronizer queue full'' \<sigma>)"
  shows "P (dropImagesWhileFull \<sigma>)"
  using assms(1)
proof (induction \<sigma> rule: dropImagesWhileFull.induct)
  case (1 \<sigma>)
  then show ?case
    using assms(2) [of \<sigma>] by (subst dropImagesWhileFull.simps) (cases "images (fst \<sigma>)", auto)
qed

lemma dropImagesWhileFull_exit:
  "length (images (fst (dropImagesWhileFull \<sigma>))) \<le> queueSize (fst (dropImagesWhileFull \<sigma>))"
proof (induction \<sigma> rule: dropImagesWhileFull.induct)
  case (1 \<sigma>)
  then show ?case by (simp add: dropImagesWhileFull.simps [of \<sigma>])
qed

lemma dropCloudsWhileFull_rule:
  assumes "P \<sigma>" "\<And>\<sigma> c cs. P \<sigma> \<Longrightarrow> clouds (fst \<sigma>) = c # cs \<Longrightarrow> P (dropCloud ''synchronizer queue full'' \<sigma>)"
  shows "P (dropCloudsWhileFull \<sigma>)"
  using assms(1)
proof (induction \<sigma> rule: dropCloudsWhileFull.induct)
  case (1 \<sigma>)
  then show ?case
    using assms(2) [of \<sigma>] by (subst dropCloudsWhileFull.simps) (cases "clouds (fst \<sigma>)", auto)
qed

lemma dropCloudsWhileFull_exit:
  "length (clouds (fst (dropCloudsWhileFull \<sigma>))) \<le> queueSize (fst (dropCloudsWhileFull \<sigma>))"
proof (induction \<sigma> rule: dropCloudsWhileFull.induct)
  case (1 \<sigma>)
  then show ?case by (simp add: dropCloudsWhileFull.simps [of \<sigma>])
qed

lemma flushImages_rule:
  assumes "P \<sigma>" "\<And>\<sigma> i is. P \<sigma> \<Longrightarrow> images (fst \<sigma>) = i # is \<Longrightarrow> P (dropImage why \<sigma>)"
  shows "P (flushImages why \<sigma>)"
  using assms(1)
proof (induction "images (fst \<sigma>)" arbitrary: \<sigma>)
  case Nil
  then show ?case by (simp add: flushImages.simps [of why \<sigma>])
next
  case (Cons i "is")
  note ne = Cons.hyps(2) [symmetric]
  have "P (dropImage why \<sigma>)" by (rule assms(2) [OF Cons.prems ne])
  moreover have "is = images (fst (dropImage why \<sigma>))" by (simp add: ne)
  ultimately have "P (flushImages why (dropImage why \<sigma>))" by (rule Cons.hyps(1) [rotated])
  then show ?case by (simp add: flushImages.simps [of why \<sigma>] ne)
qed

lemma flushClouds_rule:
  assumes "P \<sigma>" "\<And>\<sigma> c cs. P \<sigma> \<Longrightarrow> clouds (fst \<sigma>) = c # cs \<Longrightarrow> P (dropCloud why \<sigma>)"
  shows "P (flushClouds why \<sigma>)"
  using assms(1)
proof (induction "clouds (fst \<sigma>)" arbitrary: \<sigma>)
  case Nil
  then show ?case by (simp add: flushClouds.simps [of why \<sigma>])
next
  case (Cons c cs)
  note ne = Cons.hyps(2) [symmetric]
  have "P (dropCloud why \<sigma>)" by (rule assms(2) [OF Cons.prems ne])
  moreover have "cs = clouds (fst (dropCloud why \<sigma>))" by (simp add: ne)
  ultimately have "P (flushClouds why (dropCloud why \<sigma>))" by (rule Cons.hyps(1) [rotated])
  then show ?case by (simp add: flushClouds.simps [of why \<sigma>] ne)
qed

lemma flushImages_exit: "images (fst (flushImages why \<sigma>)) = []"
proof (induction "images (fst \<sigma>)" arbitrary: \<sigma>)
  case Nil
  then show ?case by (simp add: flushImages.simps [of why \<sigma>])
next
  case (Cons i "is")
  note ne = Cons.hyps(2) [symmetric]
  have "is = images (fst (dropImage why \<sigma>))" by (simp add: ne)
  then have "images (fst (flushImages why (dropImage why \<sigma>))) = []" by (rule Cons.hyps(1))
  then show ?case by (simp add: flushImages.simps [of why \<sigma>] ne)
qed

lemma flushClouds_exit: "clouds (fst (flushClouds why \<sigma>)) = []"
proof (induction "clouds (fst \<sigma>)" arbitrary: \<sigma>)
  case Nil
  then show ?case by (simp add: flushClouds.simps [of why \<sigma>])
next
  case (Cons c cs)
  note ne = Cons.hyps(2) [symmetric]
  have "cs = clouds (fst (dropCloud why \<sigma>))" by (simp add: ne)
  then have "clouds (fst (flushClouds why (dropCloud why \<sigma>))) = []" by (rule Cons.hyps(1))
  then show ?case by (simp add: flushClouds.simps [of why \<sigma>] ne)
qed

section \<open>Runs\<close>

text \<open>
  A run is a list of calls; its results are the results of the calls in order.
\<close>

datatype sync_op = AddImage Image | AddCloud PointCloud2 | Flush string

fun syncStep :: "Synchronizer \<Rightarrow> sync_op \<Rightarrow> sync" where
  "syncStep s (AddImage i) = addImage s i"
| "syncStep s (AddCloud c) = addPointCloud s c"
| "syncStep s (Flush why) = flushUnmatched s why"

definition after :: "PendingResults \<Rightarrow> sync \<Rightarrow> sync" where
  "after r0 \<sigma> = (fst \<sigma>, \<lparr>matches = matches r0 @ matches (snd \<sigma>), drops = drops r0 @ drops (snd \<sigma>)\<rparr>)"

definition runSync :: "Synchronizer \<Rightarrow> sync_op list \<Rightarrow> sync" where
  "runSync s ops = foldl (\<lambda>\<sigma> op. after (snd \<sigma>) (syncStep (fst \<sigma>) op)) (s, noResults) ops"

lemma after_noResults: "after r (s, noResults) = (s, r)"
  by (simp add: after_def noResults_def)

lemma after_queues [simp]: "fst (after r \<sigma>) = fst \<sigma>"
  by (simp add: after_def)

lemma step_after [simp]:
  "dropImage why (after r \<sigma>) = after r (dropImage why \<sigma>)"
  "dropCloud why (after r \<sigma>) = after r (dropCloud why \<sigma>)"
  "matchFronts (after r \<sigma>) = after r (matchFronts \<sigma>)"
  by (simp_all add: dropImage_def dropCloud_def matchFronts_def recordDrop_def after_def Let_def)

text \<open>The loops only append to the results they are given.\<close>

lemma loops_after:
  "tryMatchLocked (after r \<sigma>) = after r (tryMatchLocked \<sigma>)"
  "dropImagesWhileFull (after r \<sigma>) = after r (dropImagesWhileFull \<sigma>)"
  "dropCloudsWhileFull (after r \<sigma>) = after r (dropCloudsWhileFull \<sigma>)"
  "flushImages why (after r \<sigma>) = after r (flushImages why \<sigma>)"
  "flushClouds why (after r \<sigma>) = after r (flushClouds why \<sigma>)"
proof -
  show "tryMatchLocked (after r \<sigma>) = after r (tryMatchLocked \<sigma>)"
  proof (induction \<sigma> rule: tryMatchLocked.induct)
    case (1 \<sigma>)
    then show ?case by (simp add: tryMatchLocked.simps [of \<sigma>] tryMatchLocked.simps [of "after r \<sigma>"] Let_def)
  qed
  show "dropImagesWhileFull (after r \<sigma>) = after r (dropImagesWhileFull \<sigma>)"
  proof (induction \<sigma> rule: dropImagesWhileFull.induct)
    case (1 \<sigma>)
    then show ?case by (simp add: dropImagesWhileFull.simps [of \<sigma>] dropImagesWhileFull.simps [of "after r \<sigma>"])
  qed
  show "dropCloudsWhileFull (after r \<sigma>) = after r (dropCloudsWhileFull \<sigma>)"
  proof (induction \<sigma> rule: dropCloudsWhileFull.induct)
    case (1 \<sigma>)
    then show ?case by (simp add: dropCloudsWhileFull.simps [of \<sigma>] dropCloudsWhileFull.simps [of "after r \<sigma>"])
  qed
  show "flushImages why (after r \<sigma>) = after r (flushImages why \<sigma>)"
  proof (induction why \<sigma> rule: flushImages.induct)
    case (1 why \<sigma>)
    then show ?case by (simp add: flushImages.simps [of why \<sigma>] flushImages.simps [of why "after r \<sigma>"])
  qed
  show "flushClouds why (after r \<sigma>) = after r (flushClouds why \<sigma>)"
  proof (induction why \<sigma> rule: flushClouds.induct)
    case (1 why \<sigma>)
    then show ?case by (simp add: flushClouds.simps [of why \<sigma>] flushClouds.simps [of why "after r \<sigma>"])
  qed
qed

lemma runSync_Nil [simp]: "runSync s [] = (s, noResults)"
  by (simp add: runSync_def)

lemma runSync_snoc: "runSync s (ops @ [op]) = after (snd (runSync s ops)) (syncStep (fst (runSync s ops)) op)"
  by (simp add: runSync_def)

text \<open>
  The rule for invariants of a run: established at the start, kept by an arrival
  before any loop runs, and by every loop step.
\<close>

lemma runSync_rule:
  assumes init: "Q [] (s0, noResults)"
    and image: "\<And>ops s r i. Q ops (s, r) \<Longrightarrow> Q (ops @ [AddImage i]) (s\<lparr>images := insertOrdered img_stamp (images s) i\<rparr>, r)"
    and cloud: "\<And>ops s r c. Q ops (s, r) \<Longrightarrow> Q (ops @ [AddCloud c]) (s\<lparr>clouds := insertOrdered pc_stamp (clouds s) c\<rparr>, r)"
    and flush: "\<And>ops \<sigma> why. Q ops \<sigma> \<Longrightarrow> Q (ops @ [Flush why]) \<sigma>"
    and match: "\<And>ops \<sigma> i is c cs. Q ops \<sigma> \<Longrightarrow> images (fst \<sigma>) = i # is \<Longrightarrow> clouds (fst \<sigma>) = c # cs \<Longrightarrow>
       - tolerance (fst \<sigma>) \<le> img_stamp i - pc_stamp c \<Longrightarrow> img_stamp i - pc_stamp c \<le> tolerance (fst \<sigma>) \<Longrightarrow>
       Q ops (matchFronts \<sigma>)"
    and lateI: "\<And>ops \<sigma> i is c cs. Q ops \<sigma> \<Longrightarrow> images (fst \<sigma>) = i # is \<Longrightarrow> clouds (fst \<sigma>) = c # cs \<Longrightarrow>
       img_stamp i - pc_stamp c < - tolerance (fst \<sigma>) \<Longrightarrow> img_stamp i < pc_stamp c \<Longrightarrow>
       Q ops (dropImage ''outside synchronization tolerance'' \<sigma>)"
    and lateC: "\<And>ops \<sigma> i is c cs. Q ops \<sigma> \<Longrightarrow> images (fst \<sigma>) = i # is \<Longrightarrow> clouds (fst \<sigma>) = c # cs \<Longrightarrow>
       tolerance (fst \<sigma>) < img_stamp i - pc_stamp c \<Longrightarrow> pc_stamp c \<le> img_stamp i \<Longrightarrow>
       Q ops (dropCloud ''outside synchronization tolerance'' \<sigma>)"
    and otherI: "\<And>ops \<sigma> i is why. Q ops \<sigma> \<Longrightarrow> images (fst \<sigma>) = i # is \<Longrightarrow>
       why = ''synchronizer queue full'' \<or> Flush why \<in> set ops \<Longrightarrow> Q ops (dropImage why \<sigma>)"
    and otherC: "\<And>ops \<sigma> c cs why. Q ops \<sigma> \<Longrightarrow> clouds (fst \<sigma>) = c # cs \<Longrightarrow>
       why = ''synchronizer queue full'' \<or> Flush why \<in> set ops \<Longrightarrow> Q ops (dropCloud why \<sigma>)"
  shows "Q ops (runSync s0 ops)"
proof (induction ops rule: rev_induct)
  case Nil
  then show ?case using init by simp
next
  case (snoc op ops)
  obtain s r where run: "runSync s0 ops = (s, r)" by fastforce
  with snoc have Q: "Q ops (s, r)" by simp
  have tryQ: "Q ops' (tryMatchLocked \<sigma>)" if "Q ops' \<sigma>" for ops' \<sigma>
    using that by (rule tryMatchLocked_rule) (fact match lateI lateC)+
  show ?case
  proof (cases op)
    case (AddImage i)
    let ?\<sigma> = "(s\<lparr>images := insertOrdered img_stamp (images s) i\<rparr>, r)"
    have "Q (ops @ [op]) (dropImagesWhileFull ?\<sigma>)"
    proof (rule dropImagesWhileFull_rule)
      show "Q (ops @ [op]) ?\<sigma>" using image [OF Q, of i] AddImage by simp
      fix \<sigma> j js assume "Q (ops @ [op]) \<sigma>" "images (fst \<sigma>) = j # js"
      then show "Q (ops @ [op]) (dropImage ''synchronizer queue full'' \<sigma>)" by (rule otherI) simp
    qed
    with tryQ have "Q (ops @ [op]) (tryMatchLocked (dropImagesWhileFull ?\<sigma>))" by blast
    moreover have "runSync s0 (ops @ [op]) = tryMatchLocked (dropImagesWhileFull ?\<sigma>)"
      by (simp add: runSync_snoc run AddImage addImage_def after_noResults flip: loops_after)
    ultimately show ?thesis by simp
  next
    case (AddCloud c)
    let ?\<sigma> = "(s\<lparr>clouds := insertOrdered pc_stamp (clouds s) c\<rparr>, r)"
    have "Q (ops @ [op]) (dropCloudsWhileFull ?\<sigma>)"
    proof (rule dropCloudsWhileFull_rule)
      show "Q (ops @ [op]) ?\<sigma>" using cloud [OF Q, of c] AddCloud by simp
      fix \<sigma> d ds assume "Q (ops @ [op]) \<sigma>" "clouds (fst \<sigma>) = d # ds"
      then show "Q (ops @ [op]) (dropCloud ''synchronizer queue full'' \<sigma>)" by (rule otherC) simp
    qed
    with tryQ have "Q (ops @ [op]) (tryMatchLocked (dropCloudsWhileFull ?\<sigma>))" by blast
    moreover have "runSync s0 (ops @ [op]) = tryMatchLocked (dropCloudsWhileFull ?\<sigma>)"
      by (simp add: runSync_snoc run AddCloud addPointCloud_def after_noResults flip: loops_after)
    ultimately show ?thesis by simp
  next
    case (Flush why)
    have "Q (ops @ [op]) (flushImages why (s, r))"
    proof (rule flushImages_rule)
      show "Q (ops @ [op]) (s, r)" using flush [OF Q, of why] Flush by simp
      fix \<sigma> j js assume "Q (ops @ [op]) \<sigma>" "images (fst \<sigma>) = j # js"
      then show "Q (ops @ [op]) (dropImage why \<sigma>)" by (rule otherI) (simp add: Flush)
    qed
    then have "Q (ops @ [op]) (flushClouds why (flushImages why (s, r)))"
    proof (rule flushClouds_rule)
      fix \<sigma> d ds assume "Q (ops @ [op]) \<sigma>" "clouds (fst \<sigma>) = d # ds"
      then show "Q (ops @ [op]) (dropCloud why \<sigma>)" by (rule otherC) (simp add: Flush)
    qed
    moreover have "runSync s0 (ops @ [op]) = flushClouds why (flushImages why (s, r))"
      by (simp add: runSync_snoc run Flush flushUnmatched_def after_noResults flip: loops_after)
    ultimately show ?thesis by simp
  qed
qed

section \<open>Accounting\<close>

definition imagesIn :: "sync_op list \<Rightarrow> Image list" where
  "imagesIn ops = List.map_filter (\<lambda>op. case op of AddImage i \<Rightarrow> Some i | _ \<Rightarrow> None) ops"

definition cloudsIn :: "sync_op list \<Rightarrow> PointCloud2 list" where
  "cloudsIn ops = List.map_filter (\<lambda>op. case op of AddCloud c \<Rightarrow> Some c | _ \<Rightarrow> None) ops"

definition cameraDrops :: "PendingResults \<Rightarrow> DropResult list" where
  "cameraDrops r = filter (\<lambda>d. d_sensor d = ''camera'') (drops r)"

definition lidarDrops :: "PendingResults \<Rightarrow> DropResult list" where
  "lidarDrops r = filter (\<lambda>d. d_sensor d = ''lidar'') (drops r)"

lemma arrivals_simps [simp]:
  "imagesIn [] = []" "cloudsIn [] = []"
  "imagesIn (ops @ [AddImage i]) = imagesIn ops @ [i]" "cloudsIn (ops @ [AddImage i]) = cloudsIn ops"
  "imagesIn (ops @ [AddCloud c]) = imagesIn ops" "cloudsIn (ops @ [AddCloud c]) = cloudsIn ops @ [c]"
  "imagesIn (ops @ [Flush why]) = imagesIn ops" "cloudsIn (ops @ [Flush why]) = cloudsIn ops"
  by (simp_all add: imagesIn_def cloudsIn_def map_filter_def)

lemma results_simps [simp]:
  "matches (snd (dropImage why \<sigma>)) = matches (snd \<sigma>)"
  "matches (snd (dropCloud why \<sigma>)) = matches (snd \<sigma>)"
  "cameraDrops (snd (dropImage why \<sigma>)) = cameraDrops (snd \<sigma>) @
     [\<lparr>d_sensor = ''camera'', d_timestamp = img_stamp (hd (images (fst \<sigma>))),
       d_count = droppedImages (fst \<sigma>) + 1, d_reason = why\<rparr>]"
  "lidarDrops (snd (dropImage why \<sigma>)) = lidarDrops (snd \<sigma>)"
  "lidarDrops (snd (dropCloud why \<sigma>)) = lidarDrops (snd \<sigma>) @
     [\<lparr>d_sensor = ''lidar'', d_timestamp = pc_stamp (hd (clouds (fst \<sigma>))),
       d_count = droppedClouds (fst \<sigma>) + 1, d_reason = why\<rparr>]"
  "cameraDrops (snd (dropCloud why \<sigma>)) = cameraDrops (snd \<sigma>)"
  "cameraDrops (snd (matchFronts \<sigma>)) = cameraDrops (snd \<sigma>)"
  "lidarDrops (snd (matchFronts \<sigma>)) = lidarDrops (snd \<sigma>)"
  "matches (snd (matchFronts \<sigma>)) = matches (snd \<sigma>) @
     [\<lparr>m_image = hd (images (fst \<sigma>)), m_cloud = hd (clouds (fst \<sigma>)),
       m_difference = \<bar>img_stamp (hd (images (fst \<sigma>))) - pc_stamp (hd (clouds (fst \<sigma>)))\<bar>\<rparr>]"
  by (simp_all add: dropImage_def dropCloud_def matchFronts_def recordDrop_def cameraDrops_def
      lidarDrops_def Let_def)

lemma counters_simps [simp]:
  "droppedImages (fst (dropImage why \<sigma>)) = droppedImages (fst \<sigma>) + 1"
  "droppedImages (fst (dropCloud why \<sigma>)) = droppedImages (fst \<sigma>)"
  "droppedImages (fst (matchFronts \<sigma>)) = droppedImages (fst \<sigma>)"
  "droppedClouds (fst (dropCloud why \<sigma>)) = droppedClouds (fst \<sigma>) + 1"
  "droppedClouds (fst (dropImage why \<sigma>)) = droppedClouds (fst \<sigma>)"
  "droppedClouds (fst (matchFronts \<sigma>)) = droppedClouds (fst \<sigma>)"
  by (simp_all add: dropImage_def dropCloud_def matchFronts_def recordDrop_def Let_def)

lemma noResults_simps [simp]:
  "matches noResults = []" "cameraDrops noResults = []" "lidarDrops noResults = []"
  by (simp_all add: noResults_def cameraDrops_def lidarDrops_def)

text \<open>Where every arrival is: queued, matched or dropped.\<close>

definition accounted :: "sync_op list \<Rightarrow> sync \<Rightarrow> bool" where
  "accounted ops \<sigma> \<longleftrightarrow>
     sorted (map img_stamp (images (fst \<sigma>))) \<and> sorted (map pc_stamp (clouds (fst \<sigma>))) \<and>
     mset (map img_stamp (imagesIn ops)) =
       mset (map img_stamp (images (fst \<sigma>))) + mset (map (\<lambda>m. img_stamp (m_image m)) (matches (snd \<sigma>))) +
       mset (map d_timestamp (cameraDrops (snd \<sigma>))) \<and>
     mset (map pc_stamp (cloudsIn ops)) =
       mset (map pc_stamp (clouds (fst \<sigma>))) + mset (map (\<lambda>m. pc_stamp (m_cloud m)) (matches (snd \<sigma>))) +
       mset (map d_timestamp (lidarDrops (snd \<sigma>)))"

lemma mset_insertOrdered: "sorted (map f q) \<Longrightarrow> image_mset f (mset (insertOrdered f q x)) = add_mset (f x) (image_mset f (mset q))"
  for f :: "'a \<Rightarrow> int"
  by (simp add: ordered.mset_ins)

lemma accounted_run: "images s0 = [] \<Longrightarrow> clouds s0 = [] \<Longrightarrow> accounted ops (runSync s0 ops)"
  by (rule runSync_rule [of accounted])
    (simp_all add: accounted_def mset_insertOrdered ordered.sorted_ins)

definition tolerance_kept :: "int \<Rightarrow> sync_op list \<Rightarrow> sync \<Rightarrow> bool" where
  "tolerance_kept tol ops \<sigma> \<longleftrightarrow> tolerance (fst \<sigma>) = tol \<and>
     (\<forall>m\<in>set (matches (snd \<sigma>)).
        m_difference m = \<bar>img_stamp (m_image m) - pc_stamp (m_cloud m)\<bar> \<and> m_difference m \<le> tol)"

lemma tolerance_kept_run: "tolerance_kept (tolerance s0) ops (runSync s0 ops)"
  by (rule runSync_rule [of "tolerance_kept (tolerance s0)"])
    (auto simp: tolerance_kept_def abs_le_iff)

definition drops_counted :: "sync_op list \<Rightarrow> sync \<Rightarrow> bool" where
  "drops_counted ops \<sigma> \<longleftrightarrow>
     droppedImages (fst \<sigma>) = word_of_nat (length (cameraDrops (snd \<sigma>))) \<and>
     droppedClouds (fst \<sigma>) = word_of_nat (length (lidarDrops (snd \<sigma>))) \<and>
     map d_count (cameraDrops (snd \<sigma>)) = map (\<lambda>i. word_of_nat (Suc i)) [0..<length (cameraDrops (snd \<sigma>))] \<and>
     map d_count (lidarDrops (snd \<sigma>)) = map (\<lambda>i. word_of_nat (Suc i)) [0..<length (lidarDrops (snd \<sigma>))]"

lemma drops_counted_run: "droppedImages s0 = 0 \<Longrightarrow> droppedClouds s0 = 0 \<Longrightarrow> drops_counted ops (runSync s0 ops)"
  by (rule runSync_rule [of drops_counted]) (simp_all add: drops_counted_def)

text \<open>Between operations a queue is within its bound, and one of them is empty.\<close>

definition sync_bounds :: "nat \<Rightarrow> Synchronizer \<Rightarrow> bool" where
  "sync_bounds n s \<longleftrightarrow> queueSize s = n \<and> length (images s) \<le> n \<and> length (clouds s) \<le> n \<and>
     (images s = [] \<or> clouds s = [])"

lemma tryMatchLocked_shrinks:
  "queueSize (fst (tryMatchLocked \<sigma>)) = queueSize (fst \<sigma>) \<and>
   length (images (fst (tryMatchLocked \<sigma>))) \<le> length (images (fst \<sigma>)) \<and>
   length (clouds (fst (tryMatchLocked \<sigma>))) \<le> length (clouds (fst \<sigma>))"
  by (rule tryMatchLocked_rule [where P = "\<lambda>\<tau>. queueSize (fst \<tau>) = queueSize (fst \<sigma>) \<and>
        length (images (fst \<tau>)) \<le> length (images (fst \<sigma>)) \<and>
        length (clouds (fst \<tau>)) \<le> length (clouds (fst \<sigma>))"]) auto

lemma drop_loops_frame:
  "queueSize (fst (dropImagesWhileFull \<sigma>)) = queueSize (fst \<sigma>) \<and>
   clouds (fst (dropImagesWhileFull \<sigma>)) = clouds (fst \<sigma>)"
  "queueSize (fst (dropCloudsWhileFull \<sigma>)) = queueSize (fst \<sigma>) \<and>
   images (fst (dropCloudsWhileFull \<sigma>)) = images (fst \<sigma>)"
  "queueSize (fst (flushImages why \<sigma>)) = queueSize (fst \<sigma>)"
  "queueSize (fst (flushClouds why \<sigma>)) = queueSize (fst \<sigma>) \<and>
   images (fst (flushClouds why \<sigma>)) = images (fst \<sigma>)"
  by (rule dropImagesWhileFull_rule [where P = "\<lambda>\<tau>. queueSize (fst \<tau>) = queueSize (fst \<sigma>) \<and> clouds (fst \<tau>) = clouds (fst \<sigma>)"], simp, simp)
     (rule dropCloudsWhileFull_rule [where P = "\<lambda>\<tau>. queueSize (fst \<tau>) = queueSize (fst \<sigma>) \<and> images (fst \<tau>) = images (fst \<sigma>)"], simp, simp,
      rule flushImages_rule [where P = "\<lambda>\<tau>. queueSize (fst \<tau>) = queueSize (fst \<sigma>)"], simp, simp,
      rule flushClouds_rule [where P = "\<lambda>\<tau>. queueSize (fst \<tau>) = queueSize (fst \<sigma>) \<and> images (fst \<tau>) = images (fst \<sigma>)"], simp, simp)

lemma syncStep_bounds:
  assumes "sync_bounds n s"
  shows "sync_bounds n (fst (syncStep s op))"
proof (cases op)
  case (AddImage i)
  let ?\<sigma> = "(s\<lparr>images := insertOrdered img_stamp (images s) i\<rparr>, noResults)"
  show ?thesis
    using assms tryMatchLocked_shrinks [of "dropImagesWhileFull ?\<sigma>"] dropImagesWhileFull_exit [of ?\<sigma>]
      drop_loops_frame(1) [of ?\<sigma>] tryMatchLocked_exit [of "dropImagesWhileFull ?\<sigma>"]
    by (auto simp: sync_bounds_def AddImage addImage_def)
next
  case (AddCloud c)
  let ?\<sigma> = "(s\<lparr>clouds := insertOrdered pc_stamp (clouds s) c\<rparr>, noResults)"
  show ?thesis
    using assms tryMatchLocked_shrinks [of "dropCloudsWhileFull ?\<sigma>"] dropCloudsWhileFull_exit [of ?\<sigma>]
      drop_loops_frame(2) [of ?\<sigma>] tryMatchLocked_exit [of "dropCloudsWhileFull ?\<sigma>"]
    by (auto simp: sync_bounds_def AddCloud addPointCloud_def)
next
  case (Flush why)
  then show ?thesis
    using assms by (simp add: sync_bounds_def flushUnmatched_def flushImages_exit flushClouds_exit drop_loops_frame)
qed

lemma sync_bounds_run: "sync_bounds n s0 \<Longrightarrow> sync_bounds n (fst (runSync s0 ops))"
  by (induction ops rule: rev_induct) (simp_all add: runSync_snoc syncStep_bounds)

section \<open>Greedy pairing is maximal for in-order streams\<close>

definition lateDrops :: "DropResult list \<Rightarrow> int set" where
  "lateDrops ds = set (map d_timestamp (filter (\<lambda>d. d_reason d = ''outside synchronization tolerance'') ds))"

lemma lateDrops_simps [simp]:
  "lateDrops [] = {}"
  "lateDrops (ds @ [d]) = (if d_reason d = ''outside synchronization tolerance''
     then insert (d_timestamp d) (lateDrops ds) else lateDrops ds)"
  by (auto simp: lateDrops_def)

definition in_order :: "sync_op list \<Rightarrow> bool" where
  "in_order ops \<longleftrightarrow> sorted (map img_stamp (imagesIn ops)) \<and> sorted (map pc_stamp (cloudsIn ops)) \<and>
     Flush ''outside synchronization tolerance'' \<notin> set ops"

lemma in_order_snoc:
  "in_order (ops @ [AddImage i]) \<longleftrightarrow> in_order ops \<and> (\<forall>j\<in>set (imagesIn ops). img_stamp j \<le> img_stamp i)"
  "in_order (ops @ [AddCloud c]) \<longleftrightarrow> in_order ops \<and> (\<forall>d\<in>set (cloudsIn ops). pc_stamp d \<le> pc_stamp c)"
  "in_order (ops @ [Flush why]) \<longleftrightarrow> in_order ops \<and> why \<noteq> ''outside synchronization tolerance''"
  by (auto simp: in_order_def sorted_append)

text \<open>
  A message dropped as out of tolerance trails, by more than the tolerance, some
  message of the other side and everything still queued there.
\<close>

definition maximal :: "sync_op list \<Rightarrow> sync \<Rightarrow> bool" where
  "maximal ops \<sigma> \<longleftrightarrow>
     sorted (map img_stamp (images (fst \<sigma>))) \<and> sorted (map pc_stamp (clouds (fst \<sigma>))) \<and>
     set (images (fst \<sigma>)) \<subseteq> set (imagesIn ops) \<and> set (clouds (fst \<sigma>)) \<subseteq> set (cloudsIn ops) \<and>
     (in_order ops \<longrightarrow>
       (\<forall>t\<in>lateDrops (cameraDrops (snd \<sigma>)).
          (\<exists>c\<in>set (cloudsIn ops). t + tolerance (fst \<sigma>) < pc_stamp c) \<and>
          (\<forall>c\<in>set (clouds (fst \<sigma>)). t + tolerance (fst \<sigma>) < pc_stamp c)) \<and>
       (\<forall>u\<in>lateDrops (lidarDrops (snd \<sigma>)).
          (\<exists>i\<in>set (imagesIn ops). u + tolerance (fst \<sigma>) < img_stamp i) \<and>
          (\<forall>i\<in>set (images (fst \<sigma>)). u + tolerance (fst \<sigma>) < img_stamp i)) \<and>
       (\<forall>t\<in>lateDrops (cameraDrops (snd \<sigma>)). \<forall>u\<in>lateDrops (lidarDrops (snd \<sigma>)).
          tolerance (fst \<sigma>) < \<bar>t - u\<bar>))"

lemma maximal_run: "images s0 = [] \<Longrightarrow> clouds s0 = [] \<Longrightarrow> maximal ops (runSync s0 ops)"
proof (rule runSync_rule [of maximal], goal_cases)
  case 1
  then show ?case by (simp add: maximal_def)
next
  case (2 ops s r i)
  then show ?case
    by (simp add: maximal_def ordered.sorted_ins ordered.set_ins in_order_snoc) (smt (verit) subset_insertI2)
next
  case (3 ops s r c)
  then show ?case
    by (simp add: maximal_def ordered.sorted_ins ordered.set_ins in_order_snoc) (smt (verit) subset_insertI2)
next
  case (4 ops \<sigma> why)
  then show ?case by (simp add: maximal_def in_order_snoc)
next
  case (5 ops \<sigma> i "is" c cs)
  then show ?case by (simp add: maximal_def)
next
  case (6 ops \<sigma> i "is" c cs)
  then show ?case by (simp add: maximal_def) (smt (verit))
next
  case (7 ops \<sigma> i "is" c cs)
  then show ?case by (simp add: maximal_def) (smt (verit))
next
  case (8 ops \<sigma> i "is" why)
  then show ?case by (auto simp: maximal_def in_order_def)
next
  case (9 ops \<sigma> c cs why)
  then show ?case by (auto simp: maximal_def in_order_def)
qed

section \<open>Properties\<close>

lemma runSync_config: "tolerance (fst (runSync (newSynchronizer n tol cb) ops)) = tol"
  using tolerance_kept_run [of "newSynchronizer n tol cb" ops]
  by (simp add: tolerance_kept_def newSynchronizer_def)

text \<open>
  C3. Nothing is lost and nothing is reported twice: after any sequence of
  arrivals and flushes, in any order of stamps, the stamps of the images that
  arrived are, with multiplicity, those still queued, those of the matched pairs
  and those of the reported camera drops; the same holds for the point clouds.
  The reported drop counts are 1, 2, 3 and so on (modulo 2 to the 64) per sensor.
\<close>

theorem sync_conservation:
  assumes "runSync (newSynchronizer n tol cb) ops = (s, r)"
  shows "mset (map img_stamp (imagesIn ops)) =
      mset (map img_stamp (images s)) + mset (map (\<lambda>m. img_stamp (m_image m)) (matches r)) +
      mset (map d_timestamp (cameraDrops r)) \<and>
    mset (map pc_stamp (cloudsIn ops)) =
      mset (map pc_stamp (clouds s)) + mset (map (\<lambda>m. pc_stamp (m_cloud m)) (matches r)) +
      mset (map d_timestamp (lidarDrops r)) \<and>
    map d_count (cameraDrops r) = map (\<lambda>i. word_of_nat (Suc i)) [0..<length (cameraDrops r)] \<and>
    map d_count (lidarDrops r) = map (\<lambda>i. word_of_nat (Suc i)) [0..<length (lidarDrops r)]"
  using assms accounted_run [of "newSynchronizer n tol cb" ops] drops_counted_run [of "newSynchronizer n tol cb" ops]
  by (simp_all add: accounted_def drops_counted_def newSynchronizer_def)


definition mkImage :: "int \<Rightarrow> Image" where
  "mkImage t = \<lparr>img_stamp = t, img_height = 1, img_width = 1, img_step = 1, img_encoding = ''mono8'', img_data = ''x''\<rparr>"

definition mkCloud :: "int \<Rightarrow> PointCloud2" where
  "mkCloud t = \<lparr>pc_stamp = t, pc_height = 1, pc_width = 1, pc_point_step = 1, pc_fields = [''x''], pc_data = ''x''\<rparr>"

lemmas sync_eval = runSync_def syncStep.simps addImage_def addPointCloud_def flushUnmatched_def
  newSynchronizer_def after_def insertOrdered_def upper_bound_def Let_def mkImage_def mkCloud_def noResults_def
  tryMatchLocked.simps dropImagesWhileFull.simps dropCloudsWhileFull.simps flushImages.simps
  flushClouds.simps dropImage_def dropCloud_def matchFronts_def recordDrop_def


theorem sync_conservation_witness:
  "\<exists>s r. runSync (newSynchronizer 2 20 True) [AddImage (mkImage 100), AddCloud (mkCloud 200)] = (s, r) \<and>
     {#100#} = mset (map d_timestamp (cameraDrops r)) \<and> images s = []"
proof -
  let ?ops = "[AddImage (mkImage 100), AddCloud (mkCloud 200)]"
  obtain s r where run: "runSync (newSynchronizer 2 20 True) ?ops = (s, r)" by fastforce
  moreover from run have "images s = []" "matches r = []"
    by (auto simp: sync_eval)
  moreover have "imagesIn ?ops = [mkImage 100]" by (simp add: imagesIn_def map_filter_def)
  ultimately show ?thesis using sync_conservation [OF run] by (auto simp: mkImage_def)
qed

text \<open>
  C5. When each stream arrives in timestamp order, greedy pairing is maximal: no
  camera message and lidar message that were both given up as out of tolerance
  lie within the tolerance of each other, and none that was given up lies within
  the tolerance of a message still queued on the other side.
\<close>

theorem sync_greedy_maximal:
  assumes "runSync (newSynchronizer n tol cb) ops = (s, r)" "in_order ops"
  shows "(\<forall>t\<in>lateDrops (cameraDrops r). \<forall>u\<in>lateDrops (lidarDrops r). tol < \<bar>t - u\<bar>) \<and>
     (\<forall>t\<in>lateDrops (cameraDrops r). \<forall>c\<in>set (clouds s). tol < \<bar>t - pc_stamp c\<bar>) \<and>
     (\<forall>u\<in>lateDrops (lidarDrops r). \<forall>i\<in>set (images s). tol < \<bar>u - img_stamp i\<bar>)"
  using assms maximal_run [of "newSynchronizer n tol cb" ops] runSync_config [of n tol cb ops]
  by (force simp: maximal_def newSynchronizer_def)

theorem sync_greedy_maximal_witness:
  "\<exists>s r. runSync (newSynchronizer 5 20 True) [AddImage (mkImage 100), AddCloud (mkCloud 200), AddImage (mkImage 400)] = (s, r) \<and>
     lateDrops (cameraDrops r) = {100} \<and> lateDrops (lidarDrops r) = {200} \<and> (20::int) < \<bar>100 - 200\<bar>"
proof -
  let ?ops = "[AddImage (mkImage 100), AddCloud (mkCloud 200), AddImage (mkImage 400)]"
  obtain s r where run: "runSync (newSynchronizer 5 20 True) ?ops = (s, r)" by fastforce
  from run have "lateDrops (cameraDrops r) = {100}" "lateDrops (lidarDrops r) = {200}"
    by (auto simp: sync_eval cameraDrops_def lidarDrops_def lateDrops_def simp del: set_filter)
  moreover have "in_order ?ops"
    by (simp add: in_order_def imagesIn_def cloudsIn_def map_filter_def mkImage_def mkCloud_def)
  ultimately show ?thesis using run sync_greedy_maximal [OF run] by auto
qed

text \<open>
  The order matters: with a tolerance of 20, an image at 100 is given up when
  a cloud at 200 arrives, and a cloud at 105 that arrives after it finds no
  partner, although it lies within the tolerance of the image.
\<close>

theorem sync_out_of_order_pair_missed:
  "matches (snd (runSync (newSynchronizer 5 20 True)
       [AddImage (mkImage 100), AddCloud (mkCloud 200), AddCloud (mkCloud 105)])) = [] \<and>
   lateDrops (cameraDrops (snd (runSync (newSynchronizer 5 20 True)
       [AddImage (mkImage 100), AddCloud (mkCloud 200), AddCloud (mkCloud 105)]))) = {100} \<and>
   \<bar>img_stamp (mkImage 100) - pc_stamp (mkCloud 105)\<bar> \<le> 20"
  by (simp add: sync_eval cameraDrops_def lateDrops_def del: set_filter)

end
