(* ===== verification/Pair_Index.thy ===== *)
theory Pair_Index
  imports Stamped_Queue Window_Store
begin

text \<open>
  \<open>PairIndex\<close> of include/pair\_index.hpp: the bounded ledger of matched pairs
  and single-sided messages.  Identifiers are 64-bit words that wrap; a default
  constructed \<open>rclcpp::Time\<close> is 0.
\<close>

section \<open>State and operations\<close>

record PairRecord =
  pairId :: "64 word"
  hasCamera :: bool
  hasLidar :: bool
  cameraTimestamp :: int
  lidarTimestamp :: int
  difference :: int
  status :: string
  reason :: string

record PairIndex =
  records :: "PairRecord list"
  nextId :: "64 word"

definition newPairIndex :: PairIndex where
  "newPairIndex = \<lparr>records = [], nextId = 1\<rparr>"

definition maxRecords :: nat where
  "maxRecords = 100000"

function trim :: "PairRecord list \<Rightarrow> PairRecord list" where
  "trim rs = (if length rs > maxRecords then trim (tl rs) else rs)"
  by pat_completeness auto
termination
  by (relation "measure length") auto

declare trim.simps [simp del]

definition addMatched :: "PairIndex \<Rightarrow> int \<Rightarrow> int \<Rightarrow> int \<Rightarrow> PairIndex" where
  "addMatched p camera lidar diff =
     \<lparr>records = trim (records p @ [\<lparr>pairId = nextId p, hasCamera = True, hasLidar = True,
        cameraTimestamp = camera, lidarTimestamp = lidar, difference = diff,
        status = ''matched'', reason = ''''\<rparr>]),
      nextId = nextId p + 1\<rparr>"

definition addSingle :: "PairIndex \<Rightarrow> string \<Rightarrow> int \<Rightarrow> string \<Rightarrow> PairIndex" where
  "addSingle p sensor timestamp why =
     (let camera = (sensor = ''camera'') in
      \<lparr>records = trim (records p @ [\<lparr>pairId = nextId p, hasCamera = camera, hasLidar = (\<not> camera),
         cameraTimestamp = (if camera then timestamp else 0),
         lidarTimestamp = (if camera then 0 else timestamp), difference = 0,
         status = (if camera then ''camera_only'' else ''lidar_only''), reason = why\<rparr>]),
       nextId = nextId p + 1\<rparr>)"

definition recordStamp :: "PairRecord \<Rightarrow> int" where
  "recordStamp record = (if hasCamera record then cameraTimestamp record else lidarTimestamp record)"

definition getPairsWithinTimeRange :: "PairIndex \<Rightarrow> int \<Rightarrow> int \<Rightarrow> PairRecord list" where
  "getPairsWithinTimeRange p start end_t =
     filter (\<lambda>record. recordStamp record \<ge> start \<and> recordStamp record \<le> end_t) (records p)"

interpretation pair_window: window_store records recordStamp getPairsWithinTimeRange
  by unfold_locales (simp add: getPairsWithinTimeRange_def)

section \<open>The ledger after a run\<close>

lemma trim_lastn: "trim rs = lastn maxRecords rs"
proof (induction rs rule: trim.induct)
  case (1 rs)
  show ?case
  proof (cases "length rs > maxRecords")
    case True
    then have "trim rs = trim (tl rs)" by (subst trim.simps) simp
    with 1 True show ?thesis by (cases rs) (auto simp: lastn_Cons)
  next
    case False
    then show ?thesis by (simp add: trim.simps [of rs] lastn_short)
  qed
qed

datatype pair_op = Matched int int int | Single string int string

fun applyPair :: "PairIndex \<Rightarrow> pair_op \<Rightarrow> PairIndex" where
  "applyPair p (Matched camera lidar diff) = addMatched p camera lidar diff"
| "applyPair p (Single sensor timestamp why) = addSingle p sensor timestamp why"

text \<open>The record an operation appends when the next identifier is \<open>i\<close>.\<close>

fun recordOf :: "64 word \<Rightarrow> pair_op \<Rightarrow> PairRecord" where
  "recordOf i (Matched camera lidar diff) =
     \<lparr>pairId = i, hasCamera = True, hasLidar = True, cameraTimestamp = camera,
      lidarTimestamp = lidar, difference = diff, status = ''matched'', reason = ''''\<rparr>"
| "recordOf i (Single sensor timestamp why) =
     (let camera = (sensor = ''camera'') in
      \<lparr>pairId = i, hasCamera = camera, hasLidar = (\<not> camera),
       cameraTimestamp = (if camera then timestamp else 0),
       lidarTimestamp = (if camera then 0 else timestamp), difference = 0,
       status = (if camera then ''camera_only'' else ''lidar_only''), reason = why\<rparr>)"

definition ledger :: "pair_op list \<Rightarrow> PairRecord list" where
  "ledger ops = map (\<lambda>(i, op). recordOf (word_of_nat (Suc i)) op) (enumerate 0 ops)"

lemma pairId_recordOf [simp]: "pairId (recordOf i op) = i"
  by (cases op) (simp_all add: Let_def)

lemma applyPair_recordOf:
  "applyPair p op = \<lparr>records = lastn maxRecords (records p @ [recordOf (nextId p) op]), nextId = nextId p + 1\<rparr>"
  by (cases op) (simp_all add: addMatched_def addSingle_def trim_lastn Let_def)

lemma ledger_snoc: "ledger (ops @ [op]) = ledger ops @ [recordOf (word_of_nat (Suc (length ops))) op]"
  by (simp add: ledger_def enumerate_append_eq)

lemma run_ledger:
  "foldl applyPair newPairIndex ops =
     \<lparr>records = lastn maxRecords (ledger ops), nextId = word_of_nat (Suc (length ops))\<rparr>"
proof (induction ops rule: rev_induct)
  case Nil
  then show ?case by (simp add: newPairIndex_def ledger_def lastn_def)
next
  case (snoc op ops)
  then show ?case by (simp add: ledger_snoc applyPair_recordOf lastn_snoc_lastn)
qed

lemma word_of_nat_window:
  assumes "(word_of_nat i :: 64 word) = word_of_nat j" "i \<le> j" "j - i < 2 ^ 64"
  shows "i = j"
proof -
  have "(2 :: nat) ^ 64 dvd j - i"
    using assms(1,2) by (simp add: word_of_nat_eq_iff take_bit_eq_mod mod_eq_dvd_iff_nat eq_commute [of "i mod _"])
  with assms(2,3) show ?thesis by (auto dest: nat_dvd_not_less)
qed

lemma ledger_ids: "map pairId (ledger ops) = map (\<lambda>i. word_of_nat (Suc i)) [0..<length ops]"
proof (induction ops rule: rev_induct)
  case (snoc op ops)
  then show ?case by (simp add: ledger_snoc)
qed (simp add: ledger_def)

section \<open>Properties\<close>

text \<open>
  After any sequence of \<open>addMatched\<close> and \<open>addSingle\<close> the index holds
  the newest \<open>maxRecords\<close> records in arrival order, each with the fields of
  its operation, and their identifiers are pairwise distinct, also after the
  64-bit counter has wrapped.
\<close>

theorem pair_index_ledger:
  "records (foldl applyPair newPairIndex ops) = lastn maxRecords (ledger ops) \<and>
   length (records (foldl applyPair newPairIndex ops)) = min maxRecords (length ops) \<and>
   distinct (map pairId (records (foldl applyPair newPairIndex ops)))"
proof -
  let ?k = "length ops - maxRecords"
  have "map pairId (lastn maxRecords (ledger ops)) = map (\<lambda>i. word_of_nat (Suc i)) [?k..<length ops]"
    by (simp only: lastn_map [symmetric] ledger_ids) (simp only: lastn_map lastn_upt)
  moreover have "inj_on (\<lambda>i. word_of_nat (Suc i) :: 64 word) {?k..<length ops}"
  proof (rule linorder_inj_onI)
    fix i j assume "i < j" "i \<in> {?k..<length ops}" "j \<in> {?k..<length ops}"
    then have "Suc j - Suc i < 2 ^ 64" by (auto simp: maxRecords_def)
    then show "(word_of_nat (Suc i) :: 64 word) \<noteq> word_of_nat (Suc j)"
      using word_of_nat_window [of "Suc i" "Suc j"] \<open>i < j\<close> by auto
  qed auto
  ultimately show ?thesis
    by (simp add: run_ledger distinct_map length_lastn ledger_def)
qed

end
