(* ===== verification/Cpp_Text.thy ===== *)
theory Cpp_Text
  imports DC_Prelude "HOL-Library.Char_ord"
begin

text \<open>
  The operations of \<open>std::string\<close>, \<open><cctype>\<close> and \<open>std::getline\<close> the
  program uses, on strings as lists of characters, and the decimal notation that
  \<open>std::to_string\<close> writes.  Searching returns \<open>None\<close> for
  \<open>npos\<close>; character classes are those of the "C" locale.
\<close>

named_theorems text_eval \<open>evaluation of the string operations\<close>

section \<open>Characters\<close>

definition code :: "char \<Rightarrow> nat" where
  "code c = of_char c"

definition isspace :: "char \<Rightarrow> bool" where
  "isspace c \<longleftrightarrow> code c = 32 \<or> (9 \<le> code c \<and> code c \<le> 13)"

definition isdigit :: "char \<Rightarrow> bool" where
  "isdigit c \<longleftrightarrow> 48 \<le> code c \<and> code c \<le> 57"

definition isalnum :: "char \<Rightarrow> bool" where
  "isalnum c \<longleftrightarrow> isdigit c \<or> (65 \<le> code c \<and> code c \<le> 90) \<or> (97 \<le> code c \<and> code c \<le> 122)"

lemmas char_class_defs [text_eval] = isspace_def isdigit_def isalnum_def code_def

lemma isalnum_not_space: "isalnum c \<Longrightarrow> \<not> isspace c"
  by (auto simp: char_class_defs)

section \<open>Searching and cutting\<close>

fun find_from :: "char \<Rightarrow> string \<Rightarrow> nat \<Rightarrow> nat option" where
  "find_from c s n =
     (let k = length (takeWhile (\<lambda>x. x \<noteq> c) (drop n s))
      in if n + k < length s then Some (n + k) else None)"

definition find_last_of :: "char \<Rightarrow> string \<Rightarrow> nat option" where
  "find_last_of c s = (if c \<in> set s then Some (length s - 1 - length (takeWhile (\<lambda>x. x \<noteq> c) (rev s))) else None)"

definition substr :: "string \<Rightarrow> nat \<Rightarrow> nat \<Rightarrow> string" where
  "substr s pos n = take n (drop pos s)"

definition starts_with :: "string \<Rightarrow> string \<Rightarrow> bool" where
  "starts_with prefix s \<longleftrightarrow> take (length prefix) s = prefix"

definition ends_with :: "string \<Rightarrow> string \<Rightarrow> bool" where
  "ends_with suffix s \<longleftrightarrow> length suffix \<le> length s \<and> drop (length s - length suffix) s = suffix"

declare find_from.simps [simp del]

lemma takeWhile_upto: "c \<notin> set u \<Longrightarrow> takeWhile (\<lambda>x. x \<noteq> c) (u @ c # v) = u"
  by (induction u) auto

lemma takeWhile_free: "c \<notin> set u \<Longrightarrow> takeWhile (\<lambda>x. x \<noteq> c) u = u"
  by (induction u) auto

lemma find_from_append: "c \<notin> set u \<Longrightarrow> find_from c (u @ c # v) 0 = Some (length u)"
  by (simp add: find_from.simps takeWhile_upto)

lemma find_from_none: "c \<notin> set u \<Longrightarrow> find_from c u 0 = None"
  by (simp add: find_from.simps takeWhile_free)

lemma find_from_bound: "find_from c s n = Some p \<Longrightarrow> n \<le> p \<and> p < length s"
  by (auto simp: find_from.simps Let_def split: if_splits)

lemma find_last_of_append: "c \<notin> set v \<Longrightarrow> find_last_of c (u @ c # v) = Some (length u)"
  by (simp add: find_last_of_def takeWhile_upto)

section \<open>Fields and lines\<close>

text \<open>The fields between the separators; the empty text has one empty field.\<close>

fun split_fields :: "char \<Rightarrow> string \<Rightarrow> string list" where
  "split_fields c [] = [[]]"
| "split_fields c (x # xs) =
     (if x = c then [] # split_fields c xs
      else (case split_fields c xs of [] \<Rightarrow> [[x]] | f # fs \<Rightarrow> (x # f) # fs))"

lemma split_fields_not_Nil [simp]: "split_fields c s \<noteq> []"
  by (cases s) (auto split: list.split)

lemma split_fields_free: "c \<notin> set u \<Longrightarrow> split_fields c u = [u]"
  by (induction u) auto

lemma split_fields_append: "c \<notin> set u \<Longrightarrow> split_fields c (u @ c # v) = u # split_fields c v"
  by (induction u) auto

primrec joined :: "char \<Rightarrow> string list \<Rightarrow> string" where
  "joined c [] = []"
| "joined c (f # fs) = (if fs = [] then f else f @ c # joined c fs)"

lemma split_fields_joined: "fs \<noteq> [] \<Longrightarrow> \<forall>f\<in>set fs. c \<notin> set f \<Longrightarrow> split_fields c (joined c fs) = fs"
  by (induction fs) (auto simp: split_fields_free split_fields_append)

text \<open>
  The lines \<open>std::getline\<close> delivers until it fails: a final line without a
  newline counts, the empty rest after the last newline does not.
\<close>

definition newline :: char where
  "newline = CHR 0x0A"

definition getlines :: "string \<Rightarrow> string list" where
  "getlines s = (let fs = split_fields newline s in if last fs = [] then butlast fs else fs)"

lemma split_fields_lines:
  "\<forall>l\<in>set ls. newline \<notin> set l \<Longrightarrow>
   split_fields newline (concat (map (\<lambda>l. l @ [newline]) ls) @ s) = ls @ split_fields newline s"
  by (induction ls) (auto simp: split_fields_append)

lemma getlines_concat:
  "\<forall>l\<in>set ls. newline \<notin> set l \<Longrightarrow> getlines (concat (map (\<lambda>l. l @ [newline]) ls)) = ls"
  using split_fields_lines [of ls "[]"] by (simp add: getlines_def)

lemma getlines_torn:
  "\<forall>l\<in>set ls. newline \<notin> set l \<Longrightarrow> newline \<notin> set t \<Longrightarrow> t \<noteq> [] \<Longrightarrow>
   getlines (concat (map (\<lambda>l. l @ [newline]) ls) @ t) = ls @ [t]"
  using split_fields_lines [of ls t] by (simp add: getlines_def split_fields_free)

section \<open>Decimal numbers\<close>

definition digit_char :: "nat \<Rightarrow> char" where
  "digit_char d = char_of (48 + d)"

fun nat_to_string :: "nat \<Rightarrow> string" where
  "nat_to_string n =
     (if n < 10 then [digit_char n] else nat_to_string (n div 10) @ [digit_char (n mod 10)])"

declare nat_to_string.simps [simp del, text_eval]

definition int_to_string :: "int \<Rightarrow> string" where
  "int_to_string i = (if i < 0 then CHR ''-'' # nat_to_string (nat (- i)) else nat_to_string (nat i))"

definition dec_value :: "string \<Rightarrow> nat" where
  "dec_value ds = foldl (\<lambda>v c. v * 10 + (code c - 48)) 0 ds"

lemma code_digit_char: "d < 10 \<Longrightarrow> code (digit_char d) = 48 + d"
  by (simp add: code_def digit_char_def)

lemma isdigit_digit_char: "d < 10 \<Longrightarrow> isdigit (digit_char d)"
  by (simp add: isdigit_def code_digit_char)

lemma dec_value_snoc: "dec_value (ds @ [c]) = dec_value ds * 10 + (code c - 48)"
  by (simp add: dec_value_def)

lemma dec_value_nat_to_string [simp]: "dec_value (nat_to_string n) = n"
proof (induction n rule: nat_to_string.induct)
  case (1 n)
  show ?case
  proof (cases "n < 10")
    case True
    then show ?thesis by (simp add: nat_to_string.simps [of n] dec_value_def code_digit_char)
  next
    case False
    with 1 show ?thesis
      by (simp add: nat_to_string.simps [of n] dec_value_snoc code_digit_char)
  qed
qed

lemma nat_to_string_digits: "\<forall>c\<in>set (nat_to_string n). isdigit c"
proof (induction n rule: nat_to_string.induct)
  case (1 n)
  then show ?case
    by (cases "n < 10") (auto simp: nat_to_string.simps [of n] isdigit_digit_char)
qed

lemma nat_to_string_not_Nil [simp]: "nat_to_string n \<noteq> []"
  by (simp add: nat_to_string.simps [of n])

lemma nat_to_string_inject [simp]: "nat_to_string m = nat_to_string n \<longleftrightarrow> m = n"
  by (metis dec_value_nat_to_string)

lemma isdigit_not: "isdigit c \<Longrightarrow> c \<noteq> CHR ''-'' \<and> c \<noteq> CHR ''+'' \<and> \<not> isspace c \<and> c \<noteq> CHR '','' \<and>
    c \<noteq> newline \<and> c \<noteq> CHR 0x0D \<and> c \<noteq> CHR ''_'' \<and> c \<noteq> CHR ''.''"
  by (auto simp: char_class_defs newline_def)

text \<open>
  The text scan of \<open>std::stoi\<close> and its relatives in base 10: leading white space,
  an optional sign, the longest run of digits; the value and the number of
  characters consumed.
\<close>

definition scan_int :: "string \<Rightarrow> (bool \<times> nat \<times> nat) option" where
  "scan_int s =
     (let space = length (takeWhile isspace s); r = drop space s;
          signed = (r \<noteq> [] \<and> (hd r = CHR ''-'' \<or> hd r = CHR ''+''));
          ds = takeWhile isdigit (if signed then tl r else r)
      in if ds = [] then None
         else Some (signed \<and> hd r = CHR ''-'', dec_value ds,
                    space + (if signed then 1 else 0) + length ds))"

text \<open>An exception (\<open>invalid_argument\<close> or \<open>out_of_range\<close>) is \<open>None\<close>.\<close>

definition sto_signed :: "nat \<Rightarrow> string \<Rightarrow> (int \<times> nat) option" where
  "sto_signed w s =
     (case scan_int s of None \<Rightarrow> None
      | Some (neg, m, consumed) \<Rightarrow>
          let v = (if neg then - int m else int m)
          in if - (2 ^ (w - 1)) \<le> v \<and> v < 2 ^ (w - 1) then Some (v, consumed) else None)"

definition stoi :: "string \<Rightarrow> (int \<times> nat) option" where
  "stoi s = sto_signed 32 s"

definition stoll :: "string \<Rightarrow> (int \<times> nat) option" where
  "stoll s = sto_signed 64 s"

text \<open>\<open>strtoull\<close> accepts a minus sign and negates in the unsigned type.\<close>

definition stoull :: "string \<Rightarrow> (64 word \<times> nat) option" where
  "stoull s =
     (case scan_int s of None \<Rightarrow> None
      | Some (neg, m, consumed) \<Rightarrow>
          if m < 2 ^ 64 then Some (if neg then - of_nat m else of_nat m, consumed) else None)"

lemma scan_digits:
  "\<forall>c\<in>set ds. isdigit c \<Longrightarrow> ds \<noteq> [] \<Longrightarrow> scan_int ds = Some (False, dec_value ds, length ds)"
proof -
  assume ds: "\<forall>c\<in>set ds. isdigit c" "ds \<noteq> []"
  then have "takeWhile isdigit ds = ds" by simp
  moreover from ds have "takeWhile isspace ds = []" "hd ds \<noteq> CHR ''-''" "hd ds \<noteq> CHR ''+''"
    by (cases ds; auto dest: isdigit_not)+
  ultimately show ?thesis using ds(2) by (simp add: scan_int_def del: takeWhile_eq_all_conv)
qed

lemma scan_minus:
  "\<forall>c\<in>set ds. isdigit c \<Longrightarrow> ds \<noteq> [] \<Longrightarrow>
   scan_int (CHR ''-'' # ds) = Some (True, dec_value ds, Suc (length ds))"
proof -
  assume ds: "\<forall>c\<in>set ds. isdigit c" "ds \<noteq> []"
  then have "takeWhile isdigit ds = ds" by simp
  moreover have "\<not> isspace CHR ''-''" by (simp add: text_eval)
  ultimately show ?thesis using ds(2) by (simp add: scan_int_def del: takeWhile_eq_all_conv)
qed

lemma scan_nat_to_string:
  "scan_int (nat_to_string n) = Some (False, n, length (nat_to_string n))"
  using nat_to_string_digits [of n] by (simp add: scan_digits)

lemma scan_int_to_string:
  "scan_int (int_to_string i) = Some (i < 0, nat \<bar>i\<bar>, length (int_to_string i))"
  using nat_to_string_digits [of "nat (- i)"]
  by (auto simp: int_to_string_def scan_nat_to_string scan_minus)

lemma stoll_int_to_string: "in_int64 i \<Longrightarrow> stoll (int_to_string i) = Some (i, length (int_to_string i))"
  by (auto simp: stoll_def sto_signed_def scan_int_to_string in_int64_def INT64_MIN_def INT64_MAX_def)

lemma stoi_int_to_string:
  "- (2 ^ 31) \<le> i \<Longrightarrow> i < 2 ^ 31 \<Longrightarrow> stoi (int_to_string i) = Some (i, length (int_to_string i))"
  by (auto simp: stoi_def sto_signed_def scan_int_to_string)

lemma stoull_nat_to_string:
  "n < 2 ^ 64 \<Longrightarrow> stoull (nat_to_string n) = Some (of_nat n, length (nat_to_string n))"
  by (simp add: stoull_def scan_nat_to_string)

lemma int_to_string_chars:
  "c \<in> set (int_to_string i) \<Longrightarrow> isdigit c \<or> c = CHR ''-''"
  using nat_to_string_digits [of "nat (- i)"] nat_to_string_digits [of "nat i"]
  by (auto simp: int_to_string_def split: if_splits)

lemma int_to_string_plain:
  "CHR '','' \<notin> set (int_to_string i) \<and> newline \<notin> set (int_to_string i) \<and>
   CHR 0x0D \<notin> set (int_to_string i) \<and> int_to_string i \<noteq> []"
  using int_to_string_chars [of "CHR '',''" i] int_to_string_chars [of newline i]
    int_to_string_chars [of "CHR 0x0D" i]
  by (auto simp: isdigit_def code_def newline_def int_to_string_def)

lemma nat_to_string_plain:
  "CHR '','' \<notin> set (nat_to_string n) \<and> newline \<notin> set (nat_to_string n) \<and>
   CHR 0x0D \<notin> set (nat_to_string n) \<and> CHR ''_'' \<notin> set (nat_to_string n)"
  using nat_to_string_digits [of n] isdigit_not by blast

lemma int_to_string_inject [simp]: "int_to_string i = int_to_string j \<longleftrightarrow> i = j"
proof
  assume eq: "int_to_string i = int_to_string j"
  then have "scan_int (int_to_string i) = scan_int (int_to_string j)" by simp
  then show "i = j" by (auto simp: scan_int_to_string)
qed simp

end
