(* ===== verification/Router_Policy.thy ===== *)
theory Router_Policy
  imports Cpp_Text
begin

text \<open>
  \<open>event_router_policy.hpp\<close>: which event signals the router forwards.  A trigger
  identifier is refused while it is remembered (the deduplication time), an event
  while its last acceptance lies less than the cooldown back.  An
  \<open>std::unordered_map\<close> is a partial function and the clock reading an argument.
\<close>

datatype Decision = Accept | Duplicate | CoolingDown

record EventRouterPolicy =
  dedupeTtl :: int
  cooldown :: int
  seenTriggers :: "string \<rightharpoonup> int"
  lastAccepted :: "string \<rightharpoonup> int"
  acceptedByTrigger :: "string \<rightharpoonup> string \<times> int"

definition newRouterPolicy :: "int \<Rightarrow> int \<Rightarrow> EventRouterPolicy" where
  "newRouterPolicy ttl cool =
     \<lparr>dedupeTtl = ttl, cooldown = cool, seenTriggers = Map.empty, lastAccepted = Map.empty,
      acceptedByTrigger = Map.empty\<rparr>"

definition triggerExpired :: "EventRouterPolicy \<Rightarrow> int \<Rightarrow> string \<Rightarrow> bool" where
  "triggerExpired p now k = (case seenTriggers p k of None \<Rightarrow> False | Some expiry \<Rightarrow> expiry \<le> now)"

definition prune :: "EventRouterPolicy \<Rightarrow> int \<Rightarrow> EventRouterPolicy" where
  "prune p now =
     p\<lparr>seenTriggers := (\<lambda>k. if triggerExpired p now k then None else seenTriggers p k),
       acceptedByTrigger := (\<lambda>k. if triggerExpired p now k then None else acceptedByTrigger p k)\<rparr>"

definition evaluate :: "EventRouterPolicy \<Rightarrow> string \<Rightarrow> string \<Rightarrow> int \<Rightarrow> Decision \<times> EventRouterPolicy" where
  "evaluate p0 eventName triggerId now =
     (let p = prune p0 now in
      if seenTriggers p triggerId \<noteq> None then (Duplicate, p)
      else
        let p = p\<lparr>seenTriggers := (seenTriggers p)(triggerId \<mapsto> now + dedupeTtl p)\<rparr>
        in case lastAccepted p eventName of
             Some previous \<Rightarrow>
               if now - previous < cooldown p
               then (CoolingDown, p\<lparr>seenTriggers := (seenTriggers p)(triggerId := None)\<rparr>)
               else (Accept, p\<lparr>lastAccepted := (lastAccepted p)(eventName \<mapsto> now),
                   acceptedByTrigger := (acceptedByTrigger p)(triggerId \<mapsto> (eventName, now))\<rparr>)
           | None \<Rightarrow>
               (Accept, p\<lparr>lastAccepted := (lastAccepted p)(eventName \<mapsto> now),
                   acceptedByTrigger := (acceptedByTrigger p)(triggerId \<mapsto> (eventName, now))\<rparr>))"

definition release :: "EventRouterPolicy \<Rightarrow> string \<Rightarrow> EventRouterPolicy" where
  "release p0 triggerId =
     (let p = p0\<lparr>seenTriggers := (seenTriggers p0)(triggerId := None)\<rparr> in
      case acceptedByTrigger p triggerId of None \<Rightarrow> p
      | Some (eventName, at) \<Rightarrow>
          let p' = (if lastAccepted p eventName = Some at
                    then p\<lparr>lastAccepted := (lastAccepted p)(eventName := None)\<rparr> else p)
          in p'\<lparr>acceptedByTrigger := (acceptedByTrigger p')(triggerId := None)\<rparr>)"

section \<open>Runs\<close>

datatype router_op = Evaluate string string int | Release string

fun routerStep :: "EventRouterPolicy \<Rightarrow> router_op \<Rightarrow> EventRouterPolicy" where
  "routerStep p (Evaluate e i t) = snd (evaluate p e i t)"
| "routerStep p (Release i) = release p i"

definition runRouter :: "EventRouterPolicy \<Rightarrow> router_op list \<Rightarrow> EventRouterPolicy" where
  "runRouter p ops = foldl routerStep p ops"

text \<open>The clock readings of a run, and that they never step back from \<open>c\<close> on.\<close>

fun clock_from :: "int \<Rightarrow> router_op list \<Rightarrow> bool" where
  "clock_from c [] = True"
| "clock_from c (Evaluate e i t # ops) = (c \<le> t \<and> clock_from t ops)"
| "clock_from c (Release i # ops) = clock_from c ops"

fun clock_after :: "int \<Rightarrow> router_op list \<Rightarrow> int" where
  "clock_after c [] = c"
| "clock_after c (Evaluate e i t # ops) = clock_after t ops"
| "clock_after c (Release i # ops) = clock_after c ops"

lemma clock_append:
  "clock_from c (xs @ ys) \<longleftrightarrow> clock_from c xs \<and> clock_from (clock_after c xs) ys"
  "clock_after c (xs @ ys) = clock_after (clock_after c xs) ys"
  by (induction c xs rule: clock_from.induct) auto

lemma clock_after_ge: "clock_from c ops \<Longrightarrow> c \<le> clock_after c ops"
  by (induction c ops rule: clock_from.induct) auto

text \<open>A property of policy and clock kept by every step holds along a run.\<close>

lemma router_rule:
  assumes "I c p" "clock_from c ops" "\<forall>op\<in>set ops. ok op"
    and evaluates: "\<And>c p e i t. I c p \<Longrightarrow> c \<le> t \<Longrightarrow> ok (Evaluate e i t) \<Longrightarrow> I t (snd (evaluate p e i t))"
    and releases: "\<And>c p i. I c p \<Longrightarrow> ok (Release i) \<Longrightarrow> I c (release p i)"
  shows "I (clock_after c ops) (runRouter p ops)"
  using assms(1-3)
proof (induction c ops arbitrary: p rule: clock_from.induct)
  case (1 c)
  then show ?case by (simp add: runRouter_def)
next
  case (2 c e i t ops)
  then show ?case using evaluates [of c p t e i] by (simp add: runRouter_def)
next
  case (3 c i ops)
  then show ?case using releases [of c p i] by (simp add: runRouter_def)
qed

lemma runRouter_append: "runRouter p (xs @ ys) = runRouter (runRouter p xs) ys"
  by (simp add: runRouter_def)

section \<open>The invariant\<close>

text \<open>
  Acceptances on record are not in the future, at most one trigger holds an event's
  acceptance at a time, and none is newer than the event's last acceptance.
\<close>

definition policy_ok :: "int \<Rightarrow> EventRouterPolicy \<Rightarrow> bool" where
  "policy_ok c p \<longleftrightarrow>
     (\<forall>i e t. acceptedByTrigger p i = Some (e, t) \<longrightarrow> seenTriggers p i = Some (t + dedupeTtl p) \<and> t \<le> c) \<and>
     (\<forall>i j e t. acceptedByTrigger p i = Some (e, t) \<longrightarrow> acceptedByTrigger p j = Some (e, t) \<longrightarrow> i = j) \<and>
     (\<forall>e u. lastAccepted p e = Some u \<longrightarrow> u \<le> c) \<and>
     (\<forall>i e t u. acceptedByTrigger p i = Some (e, t) \<longrightarrow> lastAccepted p e = Some u \<longrightarrow> t \<le> u) \<and>
     (\<forall>i e t. acceptedByTrigger p i = Some (e, t) \<longrightarrow> lastAccepted p e = None \<longrightarrow> t < c)"

lemma policy_okI:
  assumes "\<And>i e t. acceptedByTrigger p i = Some (e, t) \<Longrightarrow> seenTriggers p i = Some (t + dedupeTtl p) \<and> t \<le> c"
    and "\<And>i j e t. acceptedByTrigger p i = Some (e, t) \<Longrightarrow> acceptedByTrigger p j = Some (e, t) \<Longrightarrow> j = i"
    and "\<And>e u. lastAccepted p e = Some u \<Longrightarrow> u \<le> c"
    and "\<And>i e t u. acceptedByTrigger p i = Some (e, t) \<Longrightarrow> lastAccepted p e = Some u \<Longrightarrow> t \<le> u"
    and "\<And>i e t. acceptedByTrigger p i = Some (e, t) \<Longrightarrow> lastAccepted p e = None \<Longrightarrow> t < c"
  shows "policy_ok c p"
  unfolding policy_ok_def using assms by blast

lemma policy_ok_later: "policy_ok c p \<Longrightarrow> c \<le> d \<Longrightarrow> policy_ok d p"
  unfolding policy_ok_def by (meson le_less_trans less_le_trans order_trans)

lemma prune_sub:
  "acceptedByTrigger (prune p now) i = Some x \<Longrightarrow> acceptedByTrigger p i = Some x"
  "lastAccepted (prune p now) = lastAccepted p"
  "cooldown (prune p now) = cooldown p" "dedupeTtl (prune p now) = dedupeTtl p"
  by (auto simp: prune_def split: if_splits)

lemma policy_ok_prune: "policy_ok c p \<Longrightarrow> policy_ok c (prune p now)"
  unfolding policy_ok_def by (auto simp: prune_def split: if_splits)

lemma evaluate_config [simp]:
  "cooldown (snd (evaluate p e i t)) = cooldown p" "dedupeTtl (snd (evaluate p e i t)) = dedupeTtl p"
  by (auto simp: evaluate_def Let_def prune_sub split: option.split)

lemma release_config [simp]:
  "cooldown (release p i) = cooldown p" "dedupeTtl (release p i) = dedupeTtl p"
  by (auto simp: release_def Let_def split: option.split)

text \<open>What an evaluation does, by its decision.\<close>

lemma evaluate_cases:
  obtains (dup) "evaluate p e i t = (Duplicate, prune p t)" "seenTriggers (prune p t) i \<noteq> None"
  | (cool) u where "evaluate p e i t = (CoolingDown, prune p t)" "seenTriggers (prune p t) i = None"
      "lastAccepted p e = Some u" "t - u < cooldown p"
  | (acc) "evaluate p e i t = (Accept, (prune p t)\<lparr>
        seenTriggers := (seenTriggers (prune p t))(i \<mapsto> t + dedupeTtl p),
        lastAccepted := (lastAccepted p)(e \<mapsto> t),
        acceptedByTrigger := (acceptedByTrigger (prune p t))(i \<mapsto> (e, t))\<rparr>)"
      "seenTriggers (prune p t) i = None" "\<And>u. lastAccepted p e = Some u \<Longrightarrow> t - u \<ge> cooldown p"
proof -
  let ?p = "prune p t"
  consider "seenTriggers ?p i \<noteq> None" | (no) "seenTriggers ?p i = None" "lastAccepted p e = None"
    | (some) u where "seenTriggers ?p i = None" "lastAccepted p e = Some u" by fastforce
  then show thesis
  proof cases
    case 1
    then show ?thesis using dup by (simp add: evaluate_def Let_def)
  next
    case no
    then show ?thesis using acc by (simp add: evaluate_def Let_def prune_sub)
  next
    case some
    have erase: "?p\<lparr>seenTriggers := (seenTriggers ?p)(i := None)\<rparr> = ?p"
      using some(1) by (simp add: fun_upd_idem)
    show ?thesis
    proof (cases "t - u < cooldown p")
      case True
      with some erase show ?thesis using cool by (simp add: evaluate_def Let_def prune_sub)
    next
      case False
      with some show ?thesis using acc by (simp add: evaluate_def Let_def prune_sub)
    qed
  qed
qed

lemma policy_ok_evaluate:
  assumes "policy_ok c p" "0 < cooldown p" "c \<le> t"
  shows "policy_ok t (snd (evaluate p e i t))"
proof (cases rule: evaluate_cases [of p e i t])
  case acc
  let ?p = "prune p t"
  have ok: "policy_ok c ?p" using assms(1) by (rule policy_ok_prune)
  have free: "acceptedByTrigger ?p i = None"
    using ok acc(2) unfolding policy_ok_def by (metis option.distinct(1) option.exhaust surj_pair)
  have new: "t' < t" if "acceptedByTrigger ?p j = Some (e, t')" for j t'
  proof (cases "lastAccepted p e")
    case None
    then have "t' < c" using ok that unfolding policy_ok_def by (metis prune_sub(2))
    then show ?thesis using assms(3) by simp
  next
    case (Some u)
    then have "t' \<le> u" using ok that unfolding policy_ok_def by (metis prune_sub(2))
    then show ?thesis using acc(3) [OF Some] assms(2) by simp
  qed
  have "policy_ok t ?p" using ok assms(3) by (rule policy_ok_later)
  then have kept:
    "\<And>j x y. acceptedByTrigger ?p j = Some (x, y) \<Longrightarrow> seenTriggers ?p j = Some (y + dedupeTtl p) \<and> y \<le> t"
    "\<And>j k x y. acceptedByTrigger ?p j = Some (x, y) \<Longrightarrow> acceptedByTrigger ?p k = Some (x, y) \<Longrightarrow> j = k"
    "\<And>x u. lastAccepted p x = Some u \<Longrightarrow> u \<le> t"
    "\<And>j x y u. acceptedByTrigger ?p j = Some (x, y) \<Longrightarrow> lastAccepted p x = Some u \<Longrightarrow> y \<le> u"
    "\<And>j x y. acceptedByTrigger ?p j = Some (x, y) \<Longrightarrow> lastAccepted p x = None \<Longrightarrow> y < t"
    unfolding policy_ok_def prune_sub by blast+
  let ?q = "snd (evaluate p e i t)"
  have q: "acceptedByTrigger ?q j = (if j = i then Some (e, t) else acceptedByTrigger ?p j)"
    "seenTriggers ?q j = (if j = i then Some (t + dedupeTtl p) else seenTriggers ?p j)"
    "lastAccepted ?q x = (if x = e then Some t else lastAccepted p x)" for j x
    by (simp_all add: acc(1))
  show ?thesis
  proof (rule policy_okI)
    fix j x y
    assume j: "acceptedByTrigger ?q j = Some (x, y)"
    then show "seenTriggers ?q j = Some (y + dedupeTtl ?q) \<and> y \<le> t"
      using kept(1) [of j x y] by (simp add: q split: if_splits)
    show "k = j" if "acceptedByTrigger ?q k = Some (x, y)" for k
      using j that kept(2) [of j x y k] new [of j y] new [of k y] by (simp add: q split: if_splits)
    show "y \<le> u" if "lastAccepted ?q x = Some u" for u
      using j that kept(4) [of j x y u] new [of j y] by (simp add: q split: if_splits)
    show "y < t" if "lastAccepted ?q x = None"
      using j that kept(5) [of j x y] by (simp add: q split: if_splits)
  next
    fix x u
    assume "lastAccepted ?q x = Some u"
    then show "u \<le> t" using kept(3) [of x u] by (simp add: q split: if_splits)
  qed
qed (use assms policy_ok_prune policy_ok_later in auto)

lemma policy_ok_release: "policy_ok c p \<Longrightarrow> policy_ok c (release p i)"
proof (cases "acceptedByTrigger p i")
  case None
  assume "policy_ok c p"
  with None show ?thesis by (auto simp: release_def policy_ok_def)
next
  case (Some x)
  obtain e t where x: "x = (e, t)" by force
  assume ok: "policy_ok c p"
  have others: "t' < c" if "acceptedByTrigger p j = Some (e, t')" "j \<noteq> i" "lastAccepted p e = Some t" for j t'
  proof -
    have "t' \<le> t" "t' \<noteq> t" "t \<le> c" using ok that Some x unfolding policy_ok_def by blast+
    then show ?thesis by simp
  qed
  show ?thesis
    using ok Some x others unfolding policy_ok_def
    by (auto simp: release_def Let_def)
qed

lemma policy_ok_new: "policy_ok c (newRouterPolicy ttl cool)"
  by (simp add: policy_ok_def newRouterPolicy_def)

lemma policy_ok_run:
  assumes "policy_ok c p" "0 < cooldown p" "clock_from c ops"
  shows "policy_ok (clock_after c ops) (runRouter p ops) \<and> cooldown (runRouter p ops) = cooldown p \<and>
    dedupeTtl (runRouter p ops) = dedupeTtl p"
  by (rule router_rule [of "\<lambda>c q. policy_ok c q \<and> cooldown q = cooldown p \<and> dedupeTtl q = dedupeTtl p" c p ops "\<lambda>_. True"])
    (use assms policy_ok_evaluate policy_ok_release in auto)

section \<open>What an acceptance rules out\<close>

lemma accept_state:
  assumes "fst (evaluate p e i t) = Accept"
  shows "seenTriggers (snd (evaluate p e i t)) i = Some (t + dedupeTtl p) \<and>
    lastAccepted (snd (evaluate p e i t)) e = Some t \<and>
    acceptedByTrigger (snd (evaluate p e i t)) i = Some (e, t)"
  using assms by (cases rule: evaluate_cases [of p e i t]) auto

lemma remembered_evaluate:
  assumes "seenTriggers p i = Some x" "t < x"
  shows "seenTriggers (snd (evaluate p e j t)) i = Some x"
proof -
  have kept: "seenTriggers (prune p t) i = Some x"
    using assms by (simp add: prune_def triggerExpired_def)
  then show ?thesis by (cases rule: evaluate_cases [of p e j t]) auto
qed

lemma remembered_release: "i \<noteq> j \<Longrightarrow> seenTriggers (release p j) i = seenTriggers p i"
  by (auto simp: release_def Let_def split: option.split)

lemma remembered_run:
  assumes "seenTriggers p i = Some x" "clock_from c ops" "\<forall>op\<in>set ops. op \<noteq> Release i"
  shows "x \<le> clock_after c ops \<or> seenTriggers (runRouter p ops) i = Some x"
proof (rule router_rule [where ok = "\<lambda>op. op \<noteq> Release i" and I = "\<lambda>c q. x \<le> c \<or> seenTriggers q i = Some x", OF _ assms(2,3)])
  show "x \<le> c \<or> seenTriggers p i = Some x" using assms(1) by simp
  show "x \<le> t \<or> seenTriggers (snd (evaluate q e j t)) i = Some x"
    if "x \<le> c \<or> seenTriggers q i = Some x" "c \<le> t" for c q e j t
    using that remembered_evaluate [of q i x t e j] by fastforce
  show "x \<le> c \<or> seenTriggers (release q j) i = Some x"
    if "x \<le> c \<or> seenTriggers q i = Some x" "Release j \<noteq> Release i" for c q j
    using that remembered_release [of i j q] by auto
qed

lemma release_accept:
  assumes "fst (evaluate p e i t) = Accept"
  shows "fst (evaluate (release (snd (evaluate p e i t)) i) e i t') = Accept"
  using accept_state [OF assms]
  by (simp add: release_def evaluate_def [of _ _ _ t'] prune_def Let_def)

text \<open>The acceptance of event \<open>e\<close> at \<open>t\<close> by trigger \<open>i\<close> still counts, or its cooldown is over.\<close>

definition cooling_since :: "int \<Rightarrow> string \<Rightarrow> string \<Rightarrow> int \<Rightarrow> int \<Rightarrow> EventRouterPolicy \<Rightarrow> bool" where
  "cooling_since cool e i t c p \<longleftrightarrow>
     t + cool \<le> c \<or> (lastAccepted p e = Some t \<and> (\<forall>k. acceptedByTrigger p k = Some (e, t) \<longrightarrow> k = i))"

lemma cooling_evaluate:
  assumes "cooling_since (cooldown p) e i t c p" "c \<le> now"
  shows "cooling_since (cooldown p) e i t now (snd (evaluate p e' j now))"
proof (cases "t + cooldown p \<le> now")
  case True
  then show ?thesis by (simp add: cooling_since_def)
next
  case False
  with assms have last: "lastAccepted p e = Some t"
    and only: "acceptedByTrigger p k = Some (e, t) \<Longrightarrow> k = i" for k
    by (auto simp: cooling_since_def)
  have kept: "acceptedByTrigger (prune p now) k = Some (e, t) \<Longrightarrow> k = i" for k
    using only prune_sub(1) by blast
  show ?thesis
  proof (cases rule: evaluate_cases [of p e' j now])
    case dup
    with last kept show ?thesis by (simp add: cooling_since_def prune_sub(2))
  next
    case cool
    with last kept show ?thesis by (simp add: cooling_since_def prune_sub(2))
  next
    case acc
    then have "e' \<noteq> e" using last False by force
    with acc(1) last kept show ?thesis by (simp add: cooling_since_def)
  qed
qed

lemma cooling_release:
  assumes "cooling_since cool e i t c p" "j \<noteq> i"
  shows "cooling_since cool e i t c (release p j)"
  using assms by (auto simp: cooling_since_def release_def Let_def split: option.split)

lemma cooling_run:
  assumes "cooling_since (cooldown p) e i t c p" "clock_from c ops" "\<forall>op\<in>set ops. op \<noteq> Release i"
  shows "cooling_since (cooldown p) e i t (clock_after c ops) (runRouter p ops) \<and>
    cooldown (runRouter p ops) = cooldown p"
proof (rule router_rule [where ok = "\<lambda>op. op \<noteq> Release i" and
        I = "\<lambda>c q. cooling_since (cooldown p) e i t c q \<and> cooldown q = cooldown p", OF _ assms(2,3)])
  show "cooling_since (cooldown p) e i t c p \<and> cooldown p = cooldown p" using assms(1) by simp
  show "cooling_since (cooldown p) e i t now (snd (evaluate q e' j now)) \<and>
      cooldown (snd (evaluate q e' j now)) = cooldown p"
    if "cooling_since (cooldown p) e i t c q \<and> cooldown q = cooldown p" "c \<le> now" for c q e' j now
    using that cooling_evaluate [of q e i t c now e' j] by simp
  show "cooling_since (cooldown p) e i t c (release q j) \<and> cooldown (release q j) = cooldown p"
    if "cooling_since (cooldown p) e i t c q \<and> cooldown q = cooldown p" "Release j \<noteq> Release i" for c q j
    using that cooling_release [of "cooldown p" e i t c q j] by simp
qed

section \<open>Properties\<close>

text \<open>
  C22. No trigger is forwarded twice: once a trigger identifier was accepted, every
  later evaluation of it within the deduplication time answers \<open>Duplicate\<close>,
  whatever the router did in between, unless the identifier was released.
\<close>

theorem accepted_trigger_deduplicated:
  assumes "clock_from c (Evaluate e i t # mid @ [Evaluate e' i t'])"
    and "fst (evaluate p e i t) = Accept" "\<forall>op\<in>set mid. op \<noteq> Release i" "t' < t + dedupeTtl p"
  shows "fst (evaluate (runRouter p (Evaluate e i t # mid)) e' i t') = Duplicate"
proof -
  let ?p = "snd (evaluate p e i t)" and ?x = "t + dedupeTtl p"
  let ?q = "runRouter ?p mid"
  have "clock_from t mid" "clock_after t mid \<le> t'" using assms(1) by (auto simp: clock_append)
  moreover have "seenTriggers ?p i = Some ?x" using accept_state [OF assms(2)] by simp
  ultimately have "seenTriggers ?q i = Some ?x"
    using remembered_run [of ?p i ?x t mid] assms(3,4) by fastforce
  then have "seenTriggers (prune ?q t') i = Some ?x"
    using assms(4) by (simp add: prune_def triggerExpired_def)
  then show ?thesis by (simp add: evaluate_def Let_def runRouter_def)
qed

theorem accepted_trigger_deduplicated_witness:
  "fst (evaluate (runRouter (newRouterPolicy 60 10)
     [Evaluate ''collision'' ''a'' 0, Evaluate ''collision'' ''b'' 5, Release ''b''])
     ''hard_brake'' ''a'' 50) = Duplicate"
  using accepted_trigger_deduplicated
    [of 0 "''collision''" "''a''" 0 "[Evaluate ''collision'' ''b'' 5, Release ''b'']"
      "''hard_brake''" 50 "newRouterPolicy 60 10"]
  by (simp add: newRouterPolicy_def evaluate_def prune_def)

text \<open>
  C23. The cooldown holds: in any run of a fresh router with a positive cooldown and a
  clock that does not step back, two acceptances of the same event lie at least the
  cooldown apart, unless the trigger of the first was released between them.
\<close>

theorem acceptances_cooled_down:
  assumes "0 < cool" "clock_from c (before @ Evaluate e i t # mid @ [Evaluate e j t'])"
    and "fst (evaluate (runRouter (newRouterPolicy ttl cool) before) e i t) = Accept"
    and "fst (evaluate (runRouter (newRouterPolicy ttl cool) (before @ Evaluate e i t # mid)) e j t') = Accept"
    and "\<forall>op\<in>set mid. op \<noteq> Release i"
  shows "t' - t \<ge> cool"
proof -
  let ?p = "runRouter (newRouterPolicy ttl cool) before"
  let ?q = "snd (evaluate ?p e i t)"
  have clocks: "clock_from c before" "clock_after c before \<le> t" "clock_from t mid" "clock_after t mid \<le> t'"
    using assms(2) by (auto simp: clock_append)
  have ok: "policy_ok (clock_after c before) ?p \<and> cooldown ?p = cool"
    using policy_ok_run [of c "newRouterPolicy ttl cool" before] policy_ok_new clocks(1) assms(1)
    by (simp add: newRouterPolicy_def)
  then have "policy_ok t ?q" 
    using policy_ok_evaluate [of "clock_after c before" ?p t e i] clocks(2) assms(1) ok by simp
  then have "cooling_since (cooldown ?q) e i t t ?q"
    using accept_state [OF assms(3)] unfolding cooling_since_def policy_ok_def by metis
  then have "cooling_since cool e i t (clock_after t mid) (runRouter ?q mid) \<and> cooldown (runRouter ?q mid) = cool"
    using cooling_run [of ?q e i t t mid] clocks(3) assms(5) ok by simp
  moreover have "fst (evaluate (runRouter ?q mid) e j t') = Accept"
    using assms(4) by (simp add: runRouter_def)
  then have "lastAccepted (runRouter ?q mid) e = Some t \<Longrightarrow> t' - t \<ge> cooldown (runRouter ?q mid)"
    by (cases rule: evaluate_cases [of "runRouter ?q mid" e j t']) auto
  ultimately show ?thesis using clocks(4) by (auto simp: cooling_since_def)
qed

theorem acceptances_cooled_down_witness:
  "(10::int) - 0 \<ge> 10 \<and> fst (evaluate (runRouter (newRouterPolicy 60 10)
     [Evaluate ''collision'' ''a'' 0, Evaluate ''collision'' ''b'' 5]) ''collision'' ''c'' 10) = Accept"
  using acceptances_cooled_down [of 10 0 "[]" "''collision''" "''a''" 0
      "[Evaluate ''collision'' ''b'' 5]" "''c''" 10 60]
  by (simp add: newRouterPolicy_def evaluate_def prune_def runRouter_def triggerExpired_def)

end
