(* ===== verification/Trigger_Policy.thy ===== *)
theory Trigger_Policy
  imports Cpp_Text
begin

text \<open>
  \<open>event_trigger_policy.hpp\<close>: event names and their configuration syntax, the key
  bindings of the keyboard trigger, and the debouncer that turns the key repeats of
  a terminal into one trigger per key press.  The index loops are kept as written;
  \<open>trim_eq\<close> and \<open>parseEventNames_split\<close> give their list form.  A
  \<open>std::map\<close> is a partial function.
\<close>

section \<open>Trimming\<close>

function skipLeading :: "string \<Rightarrow> nat \<Rightarrow> nat" where
  "skipLeading v b = (if b < length v \<and> isspace (v ! b) then skipLeading v (Suc b) else b)"
  by pat_completeness auto
termination by (relation "measure (\<lambda>(v, b). length v - b)") auto

function skipTrailing :: "string \<Rightarrow> nat \<Rightarrow> nat \<Rightarrow> nat" where
  "skipTrailing v b e = (if e > b \<and> isspace (v ! (e - 1)) then skipTrailing v b (e - 1) else e)"
  by pat_completeness auto
termination by (relation "measure (\<lambda>(v, b, e). e)") auto

declare skipLeading.simps [simp del] skipTrailing.simps [simp del]

definition trim_name :: "string \<Rightarrow> string" where
  "trim_name v =
     (let b = skipLeading v 0; e = skipTrailing v b (length v) in substr v b (e - b))"

lemma skipLeading_eq: "b \<le> length v \<Longrightarrow> drop (skipLeading v b) v = dropWhile isspace (drop b v)"
proof (induction v b rule: skipLeading.induct)
  case (1 v b)
  show ?case
  proof (cases "b < length v")
    case True
    then have "drop b v = v ! b # drop (Suc b) v" by (rule Cons_nth_drop_Suc [symmetric])
    with 1 True show ?thesis by (simp add: skipLeading.simps [of v b])
  next
    case False
    then show ?thesis by (simp add: skipLeading.simps [of v b])
  qed
qed

lemma skipLeading_le: "b \<le> length v \<Longrightarrow> skipLeading v b \<le> length v"
proof (induction v b rule: skipLeading.induct)
  case (1 v b)
  then show ?case by (simp add: skipLeading.simps [of v b])
qed

lemma skipTrailing_eq:
  "b \<le> e \<Longrightarrow> e \<le> length v \<Longrightarrow>
   substr v b (skipTrailing v b e - b) = rev (dropWhile isspace (rev (substr v b (e - b))))"
proof (induction v b e rule: skipTrailing.induct)
  case (1 v b e)
  show ?case
  proof (cases "e > b")
    case True
    have "substr v b (e - b) = substr v b (e - 1 - b) @ [v ! (e - 1)]"
      using True 1(3) take_Suc_conv_app_nth [of "e - 1 - b" "drop b v"]
      by (simp add: substr_def Suc_diff_Suc)
    with 1 True show ?thesis by (simp add: skipTrailing.simps [of v b e])
  next
    case False
    with 1(2) have "b = e" by simp
    then show ?thesis by (simp add: skipTrailing.simps [of v e e] substr_def)
  qed
qed

lemma trim_eq: "trim_name v = rev (dropWhile isspace (rev (dropWhile isspace v)))"
  using skipTrailing_eq [of "skipLeading v 0" "length v" v] skipLeading_le [of 0 v]
    skipLeading_eq [of 0 v, symmetric]
  by (simp add: trim_name_def substr_def)

lemma trim_solid: "\<forall>c\<in>set s. \<not> isspace c \<Longrightarrow> trim_name s = s"
proof -
  assume solid: "\<forall>c\<in>set s. \<not> isspace c"
  then have "dropWhile isspace s = s" by (cases s) auto
  moreover from solid have "dropWhile isspace (rev s) = rev s" by (cases s rule: rev_cases) auto
  ultimately show ?thesis by (simp add: trim_eq)
qed

section \<open>Event names\<close>

definition validEventName :: "string \<Rightarrow> bool" where
  "validEventName name =
     (if name = [] \<or> length name > 96 \<or> \<not> isalnum (hd name) then False
      else list_all (\<lambda>c. isalnum c \<or> c = CHR ''_'' \<or> c = CHR ''-'' \<or> c = CHR ''.'') name)"

definition recordName :: "string \<Rightarrow> string list \<times> string set \<Rightarrow> string list \<times> string set" where
  "recordName name = (\<lambda>(events, seen).
     if validEventName name \<and> name \<notin> seen then (events @ [name], insert name seen) else (events, seen))"

function nameLoop :: "string \<Rightarrow> nat \<Rightarrow> string list \<times> string set \<Rightarrow> string list \<times> string set" where
  "nameLoop configured start acc =
     (if start > length configured then acc
      else
        let separator = find_from CHR '','' configured start;
            name = trim_name (case separator of None \<Rightarrow> drop start configured
                              | Some p \<Rightarrow> substr configured start (p - start));
            acc' = recordName name acc
        in case separator of None \<Rightarrow> acc' | Some p \<Rightarrow> nameLoop configured (Suc p) acc')"
  by pat_completeness auto
termination
  by (relation "measure (\<lambda>(s, start, acc). Suc (length s) - start)")
    (auto dest!: find_from_bound [OF sym])

declare nameLoop.simps [simp del]

definition parseEventNames :: "string \<Rightarrow> string list" where
  "parseEventNames configured = fst (nameLoop configured 0 ([], {}))"

lemma split_fields_find:
  "n \<le> length s \<Longrightarrow> split_fields c (drop n s) =
     (case find_from c s n of None \<Rightarrow> [drop n s]
      | Some p \<Rightarrow> substr s n (p - n) # split_fields c (drop (Suc p) s))"
proof -
  let ?t = "takeWhile (\<lambda>x. x \<noteq> c) (drop n s)"
  assume n: "n \<le> length s"
  have free: "c \<notin> set ?t" by (auto dest: set_takeWhileD)
  show ?thesis
  proof (cases "n + length ?t < length s")
    case True
    then have "length ?t < length (drop n s)" by simp
    then have nth: "drop n s ! length ?t = c"
      using nth_length_takeWhile by blast
    have "drop n s = ?t @ c # drop (Suc (length ?t)) (drop n s)"
      using \<open>length ?t < length (drop n s)\<close> nth
      by (metis Cons_nth_drop_Suc append_take_drop_id takeWhile_eq_take)
    then have "split_fields c (drop n s) = ?t # split_fields c (drop (Suc (length ?t)) (drop n s))"
      using free split_fields_append by metis
    with True show ?thesis
      by (simp add: find_from.simps substr_def Let_def takeWhile_eq_take [symmetric] add.commute)
  next
    case False
    moreover have "length ?t \<le> length (drop n s)" by (rule length_takeWhile_le)
    ultimately have "length ?t = length (drop n s)" using n by simp
    then have "?t = drop n s" by (metis takeWhile_eq_take take_all order_refl)
    with free have "c \<notin> set (drop n s)" by simp
    with False show ?thesis by (simp add: find_from.simps Let_def split_fields_free)
  qed
qed

lemma nameLoop_split:
  "start \<le> length s \<Longrightarrow>
   nameLoop s start acc = fold recordName (map trim_name (split_fields CHR '','' (drop start s))) acc"
proof (induction s start acc rule: nameLoop.induct)
  case (1 s start acc)
  show ?case
  proof (cases "find_from CHR '','' s start")
    case None
    with 1 show ?thesis by (simp add: nameLoop.simps [of s start] split_fields_find Let_def)
  next
    case (Some p)
    then have "Suc p \<le> length s" using find_from_bound by fastforce
    with 1 Some show ?thesis
      by (simp add: nameLoop.simps [of s start] split_fields_find [of start s] Let_def)
  qed
qed

text \<open>The first occurrences of a list's elements, in order.\<close>

definition firsts :: "'a list \<Rightarrow> 'a list" where
  "firsts xs = rev (remdups (rev xs))"

lemma firsts_snoc: "firsts (xs @ [x]) = (if x \<in> set xs then firsts xs else firsts xs @ [x])"
  by (simp add: firsts_def)

lemma set_firsts [simp]: "set (firsts xs) = set xs"
  by (simp add: firsts_def)

lemma distinct_firsts [simp]: "distinct (firsts xs)"
  by (simp add: firsts_def)

lemma firsts_distinct: "distinct xs \<Longrightarrow> firsts xs = xs"
  by (simp add: firsts_def distinct_remdups_id)

lemma fold_recordName:
  "fold recordName names ([], {}) =
   (firsts (filter validEventName names), set (filter validEventName names))"
  by (induction names rule: rev_induct) (auto simp: recordName_def firsts_snoc firsts_def [of "[]"])

lemma parseEventNames_split:
  "parseEventNames s = firsts (filter validEventName (map trim_name (split_fields CHR '','' s)))"
  by (simp add: parseEventNames_def nameLoop_split fold_recordName)

lemma valid_chars:
  "validEventName n \<Longrightarrow> c \<in> set n \<Longrightarrow> \<not> isspace c \<and> c \<noteq> CHR '','' \<and> c \<noteq> CHR ''/'' \<and> c \<noteq> newline"
  by (auto simp: validEventName_def list_all_iff char_class_defs newline_def split: if_splits dest!: bspec)

lemma valid_nonempty: "validEventName n \<Longrightarrow> n \<noteq> []"
  by (auto simp: validEventName_def)

lemma trim_valid: "validEventName n \<Longrightarrow> trim_name n = n"
  by (rule trim_solid) (auto dest: valid_chars)

section \<open>Key bindings\<close>

definition addBinding :: "string \<Rightarrow> (char \<rightharpoonup> string) \<Rightarrow> (char \<rightharpoonup> string)" where
  "addBinding entry bindings =
     (case find_from CHR ''='' entry 0 of None \<Rightarrow> bindings
      | Some separator \<Rightarrow>
          let key = trim_name (substr entry 0 separator);
              event = trim_name (drop (Suc separator) entry)
          in if length key = 1 \<and> validEventName event then bindings(hd key \<mapsto> event) else bindings)"

definition parseKeyBindings :: "string list \<Rightarrow> (char \<rightharpoonup> string)" where
  "parseKeyBindings configured = fold addBinding configured Map.empty"

lemma parseKeyBindings_snoc:
  "parseKeyBindings (es @ [e]) = addBinding e (parseKeyBindings es)"
  by (simp add: parseKeyBindings_def)

lemma bound_event_valid: "parseKeyBindings es k = Some event \<Longrightarrow> validEventName event"
proof (induction es arbitrary: event rule: rev_induct)
  case Nil
  then show ?case by (simp add: parseKeyBindings_def)
next
  case (snoc e es)
  then show ?case
    by (auto simp: parseKeyBindings_snoc addBinding_def Let_def split: option.splits if_splits)
qed

text \<open>An entry as the documentation writes it.\<close>

lemma addBinding_entry:
  "\<not> isspace k \<Longrightarrow> k \<noteq> CHR ''='' \<Longrightarrow> validEventName event \<Longrightarrow>
   addBinding (k # CHR ''='' # event) m = m(k \<mapsto> event)"
  using find_from_append [of "CHR ''=''" "[k]" event]
  by (simp add: addBinding_def substr_def trim_solid trim_valid)

section \<open>The debouncer\<close>

record QuietPeriodDebouncer =
  quietPeriod :: int
  lastInput :: "char \<rightharpoonup> int"

definition newDebouncer :: "int \<Rightarrow> QuietPeriodDebouncer" where
  "newDebouncer quiet = \<lparr>quietPeriod = quiet, lastInput = Map.empty\<rparr>"

definition accept :: "QuietPeriodDebouncer \<Rightarrow> char \<Rightarrow> int \<Rightarrow> bool \<times> QuietPeriodDebouncer" where
  "accept d key now =
     (let accepted = (case lastInput d key of None \<Rightarrow> True | Some t \<Rightarrow> now - t \<ge> quietPeriod d)
      in (accepted, d\<lparr>lastInput := (lastInput d)(key \<mapsto> now)\<rparr>))"

primrec debounce :: "QuietPeriodDebouncer \<Rightarrow> (char \<times> int) list \<Rightarrow> bool list" where
  "debounce d [] = []"
| "debounce d (input # inputs) =
     (let (accepted, d') = accept d (fst input) (snd input) in accepted # debounce d' inputs)"

text \<open>The last input of a key among those so far.\<close>

definition lastOf :: "(char \<times> int) list \<Rightarrow> (char \<rightharpoonup> int)" where
  "lastOf h = map_of (rev h)"

lemma lastOf_snoc: "lastOf (h @ [(k, t)]) = (lastOf h)(k \<mapsto> t)"
  by (auto simp: lastOf_def)

lemma lastOf_latest:
  assumes "sorted (map snd h)" "lastOf h k = Some t"
  shows "(k, t) \<in> set h \<and> (\<forall>u. (k, u) \<in> set h \<longrightarrow> u \<le> t)"
  using assms
proof (induction h arbitrary: t rule: rev_induct)
  case (snoc p h)
  show ?case
  proof (cases "fst p = k")
    case True
    with snoc.prems have "t = snd p" by (cases p) (simp add: lastOf_snoc)
    with snoc.prems True show ?thesis by (cases p) (auto simp: sorted_append)
  next
    case False
    with snoc show ?thesis by (cases p) (auto simp: lastOf_snoc sorted_append)
  qed
qed (simp add: lastOf_def)

lemma lastOf_None: "lastOf h k = None \<longleftrightarrow> (\<forall>t. (k, t) \<notin> set h)"
  by (auto simp: lastOf_def map_of_eq_None_iff image_iff)

lemma quiet_iff:
  assumes "sorted (map snd h)"
  shows "(case lastOf h k of None \<Rightarrow> True | Some t \<Rightarrow> now - t \<ge> q) \<longleftrightarrow>
     (\<forall>t. (k, t) \<in> set h \<longrightarrow> now - t \<ge> q)"
  using lastOf_latest [OF assms, of k] by (force simp: lastOf_None split: option.split)

lemma debounce_nth:
  assumes "sorted (map snd (h @ xs))" "i < length xs" "lastInput d = lastOf h"
  shows "debounce d xs ! i \<longleftrightarrow>
     (\<forall>t. (fst (xs ! i), t) \<in> set (h @ take i xs) \<longrightarrow> snd (xs ! i) - t \<ge> quietPeriod d)"
  using assms
proof (induction xs arbitrary: h i d)
  case (Cons x xs)
  show ?case
  proof (cases i)
    case 0
    with Cons.prems show ?thesis
      by (simp add: accept_def Let_def quiet_iff sorted_append)
  next
    case (Suc j)
    let ?d = "d\<lparr>lastInput := (lastInput d)(fst x \<mapsto> snd x)\<rparr>"
    have "lastInput ?d = lastOf (h @ [x])"
      using Cons.prems(3) lastOf_snoc [of h "fst x" "snd x"] by simp
    moreover have "sorted (map snd ((h @ [x]) @ xs))" using Cons.prems(1) by simp
    ultimately have "debounce ?d xs ! j \<longleftrightarrow>
        (\<forall>t. (fst (xs ! j), t) \<in> set ((h @ [x]) @ take j xs) \<longrightarrow> snd (xs ! j) - t \<ge> quietPeriod d)"
      using Cons.IH [of "h @ [x]" j ?d] Cons.prems(2) Suc by simp
    with Suc show ?thesis by (simp add: accept_def Let_def)
  qed
qed simp

section \<open>Properties\<close>

text \<open>
  The configured event list is exactly the first occurrences of the valid names
  among the trimmed, comma-separated fields, in order.
\<close>

theorem parseEventNames_spec:
  "parseEventNames s = firsts (filter validEventName (map trim_name (split_fields CHR '','' s)))"
  by (rule parseEventNames_split)

text \<open>
  Writing distinct valid names separated by commas, each behind any white space,
  and parsing the text gives the names back.
\<close>

theorem parseEventNames_roundtrip:
  assumes "ns \<noteq> []" "distinct ns" "\<forall>n\<in>set ns. validEventName n" "\<forall>c\<in>set pad. isspace c"
  shows "parseEventNames (joined CHR '','' (map (\<lambda>n. pad @ n) ns)) = ns"
proof -
  have clean: "CHR '','' \<notin> set (pad @ n)" if "n \<in> set ns" for n
    using assms(3,4) that valid_chars [of n] by (auto simp: char_class_defs)
  then have "split_fields CHR '','' (joined CHR '','' (map (\<lambda>n. pad @ n) ns)) = map (\<lambda>n. pad @ n) ns"
    using assms(1) by (intro split_fields_joined) auto
  moreover have "trim_name (pad @ n) = n" if "n \<in> set ns" for n
  proof -
    have "dropWhile isspace (pad @ n) = dropWhile isspace n"
      using assms(4) by (simp add: dropWhile_append)
    then show ?thesis using trim_valid [of n] assms(3) that by (simp add: trim_eq)
  qed
  ultimately have "map trim_name (split_fields CHR '','' (joined CHR '','' (map (\<lambda>n. pad @ n) ns))) = ns"
    by (simp add: map_idI)
  moreover have "filter validEventName ns = ns" using assms(3) by simp
  ultimately show ?thesis by (simp add: parseEventNames_split firsts_distinct assms(2))
qed

theorem parseEventNames_roundtrip_witness:
  "parseEventNames (joined CHR '','' [''  collision'', ''  hard_brake'']) = [''collision'', ''hard_brake'']"
  using parseEventNames_roundtrip [of "[''collision'', ''hard_brake'']" "''  ''"]
  by (simp add: validEventName_def text_eval)

text \<open>
  The debouncer accepts an input exactly when no earlier input of the same key,
  accepted or not, lies less than the quiet period before it: a held key, whose
  repeats come faster than that, triggers once.
\<close>

theorem debouncer_quiet_period:
  assumes "sorted (map snd inputs)" "i < length inputs"
  shows "debounce (newDebouncer q) inputs ! i \<longleftrightarrow>
     (\<forall>j<i. fst (inputs ! j) = fst (inputs ! i) \<longrightarrow> snd (inputs ! i) - snd (inputs ! j) \<ge> q)"
proof -
  have "debounce (newDebouncer q) inputs ! i \<longleftrightarrow>
      (\<forall>t. (fst (inputs ! i), t) \<in> set (take i inputs) \<longrightarrow> snd (inputs ! i) - t \<ge> q)"
    using debounce_nth [of "[]" inputs i "newDebouncer q"] assms
    by (simp add: newDebouncer_def lastOf_def)
  also have "\<dots> \<longleftrightarrow>
      (\<forall>j<i. fst (inputs ! j) = fst (inputs ! i) \<longrightarrow> snd (inputs ! i) - snd (inputs ! j) \<ge> q)"
  proof -
    have "x \<in> set (take i inputs) \<longleftrightarrow> (\<exists>j<i. inputs ! j = x)" for x
      using assms(2) by (auto simp: in_set_conv_nth)
    then show ?thesis by (metis prod.collapse fst_conv snd_conv)
  qed
  finally show ?thesis .
qed

theorem debouncer_quiet_period_witness:
  "debounce (newDebouncer 700) [(CHR ''c'', 0), (CHR ''c'', 500), (CHR ''c'', 1000)] ! 2 = False"
  using debouncer_quiet_period
    [of "[(CHR ''c'', 0), (CHR ''c'', 500), (CHR ''c'', 1000)]" 2 700]
  by (auto simp: less_Suc_eq numeral_2_eq_2)

end
