(* ===== verification/Event_Messages.thy ===== *)
theory Event_Messages
  imports Cpp_Text
begin

text \<open>
  The ROS messages and the service by which the trigger nodes, the router and the
  cache node talk: \<open>EventSignal.msg\<close>, \<open>EventStatus.msg\<close> and
  \<open>EventTrigger.srv\<close>.
\<close>

record EventSignal =
  event_name :: string
  trigger_id :: string
  source :: string
  occurred_at :: int

datatype StatusCode =
  RECEIVED | ACCEPTED | REJECTED | STORED | UPLOADED | RECORD_FAILED | UPLOAD_FAILED | UPLOAD_RETRYING

record EventStatus =
  st_status :: StatusCode
  st_event_name :: string
  st_trigger_id :: string
  st_source :: string
  st_capture_id :: string
  st_record_directory :: string
  st_message :: string
  st_updated_at :: int

record TriggerRequest =
  rq_event_name :: string
  rq_trigger_id :: string
  rq_source :: string

record TriggerResponse =
  rs_success :: bool
  rs_message :: string
  rs_capture_id :: string
  rs_record_directory :: string

text \<open>A default-constructed response.\<close>

definition emptyResponse :: TriggerResponse where
  "emptyResponse = \<lparr>rs_success = False, rs_message = '''', rs_capture_id = '''', rs_record_directory = ''''\<rparr>"

text \<open>
  How a call of the service ends for the caller: the server's answer or the
  exception \<open>future.get()\<close> throws.
\<close>

datatype RpcOutcome = Answered TriggerResponse | Raised string

text \<open>The identifier a node gives a trigger that has none: source, clock and counter.\<close>

definition generatedId :: "string \<Rightarrow> int \<Rightarrow> 64 word \<Rightarrow> string" where
  "generatedId src ns counter =
     src @ ''-'' @ int_to_string ns @ ''-'' @ nat_to_string (unat counter)"

lemma generatedId_counter:
  assumes "generatedId s ns m = generatedId s' ns' m'"
  shows "m = m'"
proof -
  have free: "CHR ''-'' \<notin> set (nat_to_string k)" for k
    using nat_to_string_digits isdigit_not by blast
  have last: "drop (Suc (the (find_last_of CHR ''-'' (generatedId s ns m)))) (generatedId s ns m) =
      nat_to_string (unat m)" for s ns and m :: "64 word"
    using find_last_of_append [OF free, of "s @ ''-'' @ int_to_string ns"]
    by (simp add: generatedId_def)
  have "nat_to_string (unat m) = nat_to_string (unat m')"
    using last [of s ns m] last [of s' ns' m'] assms by simp
  then show ?thesis by (simp add: word_unat_eq_iff)
qed

lemma generatedId_not_Nil [simp]: "generatedId s ns m \<noteq> []"
  by (simp add: generatedId_def)

end
