(* ===== verification/Router_Node.thy ===== *)
theory Router_Node
  imports Router_Policy Trigger_Policy Event_Messages
begin

text \<open>
  \<open>event_router_node.cc\<close>: the node that checks event signals, applies the policy and
  forwards accepted ones to the trigger service.  A callback returns what it
  publishes and sends, in order; the ROS clock and the steady clock are read once
  per callback.
\<close>

record EventRouterNode =
  policy :: EventRouterPolicy
  nextTriggerId :: "64 word"

datatype router_effect = PublishStatus EventStatus | SendRequest TriggerRequest EventSignal

definition newRouterNode :: "int \<Rightarrow> int \<Rightarrow> EventRouterNode" where
  "newRouterNode dedupe_ttl_ms cooldown_ms =
     \<lparr>policy = newRouterPolicy (max 1 dedupe_ttl_ms * 1000000) (max 0 cooldown_ms * 1000000),
      nextTriggerId = 0\<rparr>"

definition statusUpdate :: "EventSignal \<Rightarrow> StatusCode \<Rightarrow> string \<Rightarrow> int \<Rightarrow> router_effect" where
  "statusUpdate s st msg now = PublishStatus \<lparr>st_status = st, st_event_name = event_name s,
     st_trigger_id = trigger_id s, st_source = source s, st_capture_id = '''',
     st_record_directory = '''', st_message = msg, st_updated_at = now\<rparr>"

text \<open>The source and the identifier a signal without them gets.\<close>

definition completeSignal :: "EventRouterNode \<Rightarrow> EventSignal \<Rightarrow> int \<Rightarrow> EventSignal \<times> EventRouterNode" where
  "completeSignal n s0 rosNow =
     (let s = (if source s0 = [] then s0\<lparr>source := ''unknown''\<rparr> else s0)
      in if trigger_id s = []
         then (s\<lparr>trigger_id := generatedId (source s) rosNow (nextTriggerId n)\<rparr>,
               n\<lparr>nextTriggerId := nextTriggerId n + 1\<rparr>)
         else (s, n))"

definition route ::
  "EventRouterNode \<Rightarrow> EventSignal \<Rightarrow> bool \<Rightarrow> int \<Rightarrow> int \<Rightarrow> router_effect list \<times> EventRouterNode" where
  "route n0 s0 serviceReady rosNow steadyNow =
     (if \<not> validEventName (event_name s0)
      then ([statusUpdate s0 REJECTED ''invalid event name'' rosNow], n0)
      else
        let (s, n) = completeSignal n0 s0 rosNow;
            received = statusUpdate s RECEIVED ''event received'' rosNow
        in if \<not> serviceReady
           then ([received, statusUpdate s REJECTED ''trigger service unavailable'' rosNow], n)
           else
             let (decision, p) = evaluate (policy n) (event_name s) (trigger_id s) steadyNow;
                 n = n\<lparr>policy := p\<rparr>
             in case decision of
                  Duplicate \<Rightarrow> ([received, statusUpdate s REJECTED ''duplicate trigger_id'' rosNow], n)
                | CoolingDown \<Rightarrow> ([received, statusUpdate s REJECTED ''event is cooling down'' rosNow], n)
                | Accept \<Rightarrow> ([received, SendRequest \<lparr>rq_event_name = event_name s,
                     rq_trigger_id = trigger_id s, rq_source = source s\<rparr> s], n))"

definition onResponse ::
  "EventRouterNode \<Rightarrow> EventSignal \<Rightarrow> RpcOutcome \<Rightarrow> int \<Rightarrow> router_effect list \<times> EventRouterNode" where
  "onResponse n s result rosNow =
     (case result of
        Answered r \<Rightarrow>
          ([], if \<not> rs_success r then n\<lparr>policy := release (policy n) (trigger_id s)\<rparr> else n)
      | Raised what \<Rightarrow>
          ([statusUpdate s REJECTED (''trigger RPC failed: '' @ what) rosNow],
           n\<lparr>policy := release (policy n) (trigger_id s)\<rparr>))"

section \<open>What a routed signal leads to\<close>

definition rejections :: "router_effect list \<Rightarrow> EventStatus list" where
  "rejections es = List.map_filter (\<lambda>e. case e of PublishStatus st \<Rightarrow>
     (if st_status st = REJECTED then Some st else None) | SendRequest rq s \<Rightarrow> None) es"

definition requests :: "router_effect list \<Rightarrow> TriggerRequest list" where
  "requests es = List.map_filter (\<lambda>e. case e of PublishStatus st \<Rightarrow> None | SendRequest rq s \<Rightarrow> Some rq) es"

lemma effect_simps [simp]:
  "rejections [] = []" "requests [] = []"
  "rejections (PublishStatus st # es) = (if st_status st = REJECTED then [st] else []) @ rejections es"
  "rejections (SendRequest rq s # es) = rejections es"
  "requests (PublishStatus st # es) = requests es"
  "requests (SendRequest rq s # es) = rq # requests es"
  by (simp_all add: rejections_def requests_def map_filter_def)

lemma completeSignal_props:
  "event_name (fst (completeSignal n s t)) = event_name s"
  "trigger_id (fst (completeSignal n s t)) \<noteq> []" "source (fst (completeSignal n s t)) \<noteq> []"
  "policy (snd (completeSignal n s t)) = policy n"
  "nextTriggerId (snd (completeSignal n s t)) =
     (if trigger_id s = [] then nextTriggerId n + 1 else nextTriggerId n)"
  by (auto simp: completeSignal_def Let_def)

lemma completeSignal_complete:
  "trigger_id s \<noteq> [] \<Longrightarrow> source s \<noteq> [] \<Longrightarrow> completeSignal n s t = (s, n)"
  by (simp add: completeSignal_def)

text \<open>Completing a run of signals.\<close>

primrec completeAll :: "EventRouterNode \<Rightarrow> (EventSignal \<times> int) list \<Rightarrow> EventSignal list" where
  "completeAll n [] = []"
| "completeAll n (x # xs) =
     (let (s, n') = completeSignal n (fst x) (snd x) in s # completeAll n' xs)"

lemma generated_ids_fresh:
  assumes "\<forall>x\<in>set xs. trigger_id (fst x) = []" "j < length xs"
  shows "\<exists>src t. trigger_id (completeAll n xs ! j) = generatedId src t (nextTriggerId n + of_nat j)"
  using assms
proof (induction xs arbitrary: n j)
  case (Cons x xs)
  show ?case
  proof (cases j)
    case 0
    with Cons.prems show ?thesis
      by (auto simp: completeSignal_def Let_def)
  next
    case (Suc k)
    then obtain src t where "trigger_id (completeAll (snd (completeSignal n (fst x) (snd x))) xs ! k) =
        generatedId src t (nextTriggerId (snd (completeSignal n (fst x) (snd x))) + of_nat k)"
      using Cons.IH [of k] Cons.prems by fastforce
    with Suc Cons.prems(1) show ?thesis
      by (auto simp: case_prod_beta completeSignal_props add_ac)
  qed
qed simp

lemma completeAll_length [simp]: "length (completeAll n xs) = length xs"
  by (induction xs arbitrary: n) (auto simp: case_prod_beta Let_def)

section \<open>Properties\<close>

text \<open>
  C24. Every signal has one outcome: either exactly one rejection is published and
  nothing is sent, or exactly one request is sent and nothing is rejected; the
  request goes out exactly when the name is valid, the service ready and the policy
  accepts, and it carries the signal's valid name, an identifier and a source.
\<close>

theorem routed_once:
  "let (es, n') = route n s ready ros steady;
       c = fst (completeSignal n s ros)
   in length (requests es) + length (rejections es) = 1 \<and>
      (requests es \<noteq> [] \<longleftrightarrow> validEventName (event_name s) \<and> ready \<and>
         fst (evaluate (policy n) (event_name s) (trigger_id c) steady) = Accept) \<and>
      (\<forall>rq\<in>set (requests es). rq_event_name rq = event_name s \<and> rq_trigger_id rq = trigger_id c \<and>
         rq_trigger_id rq \<noteq> [] \<and> rq_source rq \<noteq> [])"
  by (auto simp: route_def statusUpdate_def Let_def case_prod_beta completeSignal_props
      split: Decision.split)

theorem routed_once_witness:
  "requests (fst (route (newRouterNode 60000 1000)
      \<lparr>event_name = ''collision'', trigger_id = ''a'', source = '''', occurred_at = 0\<rparr> True 5 5)) =
    [\<lparr>rq_event_name = ''collision'', rq_trigger_id = ''a'', rq_source = ''unknown''\<rparr>]"
  using routed_once [of "newRouterNode 60000 1000"
      "\<lparr>event_name = ''collision'', trigger_id = ''a'', source = '''', occurred_at = 0\<rparr>" True 5 5]
  by (simp add: route_def completeSignal_def statusUpdate_def newRouterNode_def newRouterPolicy_def
      evaluate_def prune_def validEventName_def text_eval)

text \<open>
  The identifiers the router generates are distinct: no two of up to
  \<open>2^64\<close> signals without an identifier get the same one, even with equal sources
  and clock readings.
\<close>

theorem generated_ids_distinct:
  assumes "\<forall>x\<in>set xs. trigger_id (fst x) = []" "length xs \<le> 2 ^ 64"
  shows "distinct (map trigger_id (completeAll n xs))"
proof (subst distinct_conv_nth, intro allI impI)
  fix i j
  assume ij: "i < length (map trigger_id (completeAll n xs))"
    "j < length (map trigger_id (completeAll n xs))" "i \<noteq> j"
  obtain s t s' t' where ids:
    "trigger_id (completeAll n xs ! i) = generatedId s t (nextTriggerId n + of_nat i)"
    "trigger_id (completeAll n xs ! j) = generatedId s' t' (nextTriggerId n + of_nat j)"
    using generated_ids_fresh [OF assms(1)] ij by fastforce
  have "(of_nat i :: 64 word) \<noteq> of_nat j"
    using ij assms(2) by (simp add: word_of_nat_eq_iff take_bit_nat_eq_self)
  then have "generatedId s t (nextTriggerId n + of_nat i) \<noteq> generatedId s' t' (nextTriggerId n + of_nat j)"
    by (auto dest: generatedId_counter)
  then show "map trigger_id (completeAll n xs) ! i \<noteq> map trigger_id (completeAll n xs) ! j"
    using ij ids by simp
qed

theorem generated_ids_distinct_witness:
  "distinct (map trigger_id (completeAll (newRouterNode 60000 1000)
     (replicate 3 (\<lparr>event_name = ''e'', trigger_id = '''', source = ''s'', occurred_at = 0\<rparr>, 7))))"
  by (rule generated_ids_distinct) simp_all

text \<open>
  A request the service refuses, or that fails, does not use the trigger up: after
  the failure is handled, the same signal is forwarded again whenever it arrives.
\<close>

theorem failed_request_can_be_retried:
  assumes "route n s True ros steady = (es, n1)" "SendRequest rq c \<in> set es"
    and "onResponse n1 c result ros' = (es', n2)" "\<And>r. result = Answered r \<Longrightarrow> \<not> rs_success r"
  shows "requests (fst (route n2 c True ros'' steady'')) = [rq]"
proof -
  let ?c = "fst (completeSignal n s ros)"
  have valid: "validEventName (event_name s)"
    using assms(1,2) by (auto simp: route_def statusUpdate_def split: if_splits)
  then have acc: "fst (evaluate (policy n) (event_name s) (trigger_id ?c) steady) = Accept"
    "c = ?c" "rq = \<lparr>rq_event_name = event_name s, rq_trigger_id = trigger_id ?c, rq_source = source ?c\<rparr>"
    "policy n1 = snd (evaluate (policy n) (event_name s) (trigger_id ?c) steady)"
    using assms(1,2) completeSignal_props [of n s ros]
    by (auto simp: route_def statusUpdate_def Let_def case_prod_beta split: Decision.splits if_splits)
  have "policy n2 = release (policy n1) (trigger_id c)"
    using assms(3,4) by (auto simp: onResponse_def split: RpcOutcome.splits)
  with acc have again: "fst (evaluate (policy n2) (event_name s) (trigger_id c) steady'') = Accept"
    using release_accept [OF acc(1)] by simp
  show ?thesis
    using acc(2,3) valid again completeSignal_props [of n s ros]
    by (simp add: route_def completeSignal_complete statusUpdate_def Let_def case_prod_beta)
qed

theorem failed_request_can_be_retried_witness:
  "\<exists>n2. requests (fst (route n2 \<lparr>event_name = ''e'', trigger_id = ''a'', source = ''s'', occurred_at = 0\<rparr> True 2 2)) =
     [\<lparr>rq_event_name = ''e'', rq_trigger_id = ''a'', rq_source = ''s''\<rparr>]"
proof -
  let ?s = "\<lparr>event_name = ''e'', trigger_id = ''a'', source = ''s'', occurred_at = 0\<rparr>"
  let ?rq = "\<lparr>rq_event_name = ''e'', rq_trigger_id = ''a'', rq_source = ''s''\<rparr>"
  obtain es n1 where r: "route (newRouterNode 60000 1000) ?s True 1 1 = (es, n1)" by fastforce
  then have "SendRequest ?rq ?s \<in> set es"
    by (auto simp: route_def completeSignal_def statusUpdate_def newRouterNode_def newRouterPolicy_def
        evaluate_def prune_def triggerExpired_def validEventName_def text_eval Let_def)
  moreover obtain es' n2 where "onResponse n1 ?s (Raised ''timeout'') 2 = (es', n2)" by fastforce
  ultimately show ?thesis
    using failed_request_can_be_retried [OF r, of ?rq ?s "Raised ''timeout''" 2 es' n2 2 2] by blast
qed

end
