(* ===== verification/Keyboard_Node.thy ===== *)
theory Keyboard_Node
  imports Router_Node
begin

text \<open>
  \<open>keyboard_trigger_node.cc\<close>: key presses become event signals, and the statuses of
  the triggers it published settle its table of pending ones.  The terminal is a
  list of what \<open>select\<close> and \<open>read\<close> deliver; the clocks are read once per chunk.
\<close>

record PendingEntry =
  pe_key :: char
  pe_eventName :: string
  createdAt :: int

record KeyboardTriggerNode =
  bindings :: "char \<rightharpoonup> string"
  debouncer :: QuietPeriodDebouncer
  quitKey :: char
  pending :: "string \<rightharpoonup> PendingEntry"
  waitForUpload :: bool
  pendingTimeout :: int
  kb_nextTriggerId :: "64 word"
  rclcpp_ok :: bool

definition newKeyboardNode ::
  "string list \<Rightarrow> int \<Rightarrow> string \<Rightarrow> bool \<Rightarrow> int \<Rightarrow> string + KeyboardTriggerNode" where
  "newKeyboardNode key_bindings release_quiet_ms quit_key wait_for_upload pending_timeout_ms =
     (let bound = parseKeyBindings key_bindings in
      if bound = Map.empty then Inl ''keyboard key_bindings contains no valid key=event entries''
      else Inr \<lparr>bindings = bound,
        debouncer = newDebouncer (max 1 release_quiet_ms * 1000000),
        quitKey = (if quit_key = [] then CHR 0x00 else hd quit_key),
        pending = Map.empty, waitForUpload = wait_for_upload,
        pendingTimeout = max 1000 pending_timeout_ms * 1000000,
        kb_nextTriggerId = 0, rclcpp_ok = True\<rparr>)"

definition sendTrigger ::
  "KeyboardTriggerNode \<Rightarrow> char \<Rightarrow> string \<Rightarrow> int \<Rightarrow> int \<Rightarrow> EventSignal \<times> KeyboardTriggerNode" where
  "sendTrigger n key eventName rosNow steadyNow =
     (let signal = \<lparr>event_name = eventName,
            trigger_id = generatedId ''keyboard'' rosNow (kb_nextTriggerId n),
            source = ''keyboard'', occurred_at = rosNow\<rparr>
      in (signal, n\<lparr>kb_nextTriggerId := kb_nextTriggerId n + 1,
            pending := (pending n)(trigger_id signal \<mapsto>
              \<lparr>pe_key = key, pe_eventName = eventName, createdAt = steadyNow\<rparr>)\<rparr>))"

definition handleKey ::
  "KeyboardTriggerNode \<Rightarrow> char \<Rightarrow> int \<Rightarrow> int \<Rightarrow> EventSignal list \<times> KeyboardTriggerNode" where
  "handleKey n key rosNow steadyNow =
     (if quitKey n \<noteq> CHR 0x00 \<and> key = quitKey n then ([], n\<lparr>rclcpp_ok := False\<rparr>)
      else case bindings n key of
          None \<Rightarrow> ([], n)
        | Some eventName \<Rightarrow>
            let (accepted, d) = accept (debouncer n) key steadyNow; n = n\<lparr>debouncer := d\<rparr>
            in if \<not> accepted then ([], n)
               else let (signal, n') = sendTrigger n key eventName rosNow steadyNow in ([signal], n'))"

primrec handleKeys ::
  "KeyboardTriggerNode \<Rightarrow> string \<Rightarrow> int \<Rightarrow> int \<Rightarrow> EventSignal list \<times> KeyboardTriggerNode" where
  "handleKeys n [] rosNow steadyNow = ([], n)"
| "handleKeys n (key # keys) rosNow steadyNow =
     (let (ss, n1) = handleKey n key rosNow steadyNow; (ss', n2) = handleKeys n1 keys rosNow steadyNow
      in (ss @ ss', n2))"

text \<open>
  One turn of the input loop: \<open>select\<close> fails (and may be interrupted) or times out,
  \<open>read\<close> fails (and may be retried) or delivers bytes, none at the end of input.
\<close>

datatype input_turn =
    SelectFailed bool | NotReady | ReadFailed bool | ReadBytes string int int

fun readInput :: "KeyboardTriggerNode \<Rightarrow> input_turn list \<Rightarrow> EventSignal list \<times> KeyboardTriggerNode" where
  "readInput n [] = ([], n)"
| "readInput n (turn # turns) =
     (if \<not> rclcpp_ok n then ([], n)
      else case turn of
          SelectFailed interrupted \<Rightarrow> if interrupted then readInput n turns else ([], n)
        | NotReady \<Rightarrow> readInput n turns
        | ReadFailed retry \<Rightarrow> if \<not> retry then ([], n) else readInput n turns
        | ReadBytes input rosNow steadyNow \<Rightarrow>
            if input = [] then ([], n)
            else let (ss, n1) = handleKeys n input rosNow steadyNow; (ss', n2) = readInput n1 turns
                 in (ss @ ss', n2))"

definition handleStatus :: "KeyboardTriggerNode \<Rightarrow> EventStatus \<Rightarrow> KeyboardTriggerNode" where
  "handleStatus n st =
     (case pending n (st_trigger_id st) of None \<Rightarrow> n
      | Some entry \<Rightarrow>
          let erased = n\<lparr>pending := (pending n)(st_trigger_id st := None)\<rparr>
          in case st_status st of
               ACCEPTED \<Rightarrow> n
             | STORED \<Rightarrow> if \<not> waitForUpload n then erased else n
             | UPLOADED \<Rightarrow> erased
             | UPLOAD_RETRYING \<Rightarrow> n
             | REJECTED \<Rightarrow> erased | RECORD_FAILED \<Rightarrow> erased | UPLOAD_FAILED \<Rightarrow> erased
             | RECEIVED \<Rightarrow> n)"

definition prunePending :: "KeyboardTriggerNode \<Rightarrow> int \<Rightarrow> KeyboardTriggerNode" where
  "prunePending n now =
     n\<lparr>pending := (\<lambda>k. case pending n k of None \<Rightarrow> None
         | Some entry \<Rightarrow> if createdAt entry < now - pendingTimeout n then None else Some entry)\<rparr>"

section \<open>The mode of the terminal\<close>

text \<open>
  The attributes of the terminal that are changed, with the flags of \<open>termios.h\<close>.  The results of
  \<open>isatty\<close>, \<open>tcgetattr\<close> and \<open>tcsetattr\<close> are arguments; a call that fails changes nothing.
\<close>

record Termios =
  c_lflag :: "32 word"
  c_cc_VMIN :: nat
  c_cc_VTIME :: nat

definition ICANON :: "32 word" where "ICANON = 0x2"
definition ECHO :: "32 word" where "ECHO = 0x8"

record TerminalMode =
  original :: Termios
  active :: bool

definition enterTerminal :: "bool \<Rightarrow> bool \<Rightarrow> bool \<Rightarrow> Termios \<Rightarrow> TerminalMode option \<times> Termios" where
  "enterTerminal isTty got changed terminal =
     (if \<not> isTty \<or> \<not> got then (None, terminal)
      else
        let raw = terminal\<lparr>c_lflag := and (c_lflag terminal) (not (or ICANON ECHO)), c_cc_VMIN := 0, c_cc_VTIME := 0\<rparr>
        in (Some \<lparr>original = terminal, active = changed\<rparr>, if changed then raw else terminal))"

definition leaveTerminal :: "bool \<Rightarrow> TerminalMode option \<Rightarrow> Termios \<Rightarrow> Termios" where
  "leaveTerminal changed mode terminal =
     (case mode of None \<Rightarrow> terminal | Some m \<Rightarrow> if active m \<and> changed then original m else terminal)"

text \<open>The thread leaves the terminal as it found it, and in between its keys come one by one and unseen.\<close>

lemma terminal_restored:
  "enterTerminal isTty got changed terminal = (mode, terminal') \<Longrightarrow> leaveTerminal True mode terminal' = terminal"
  by (auto simp: enterTerminal_def leaveTerminal_def Let_def split: if_splits)

lemma terminal_raw:
  "enterTerminal True True True terminal = (mode, terminal') \<Longrightarrow>
     and (c_lflag terminal') ICANON = 0 \<and> and (c_lflag terminal') ECHO = 0 \<and> c_cc_VMIN terminal' = 0"
  by (auto simp: enterTerminal_def Let_def ICANON_def ECHO_def and.assoc)

section \<open>Signals of bound keys\<close>

lemma handleKey_bindings [simp]: "bindings (snd (handleKey n key r s)) = bindings n"
  by (auto simp: handleKey_def sendTrigger_def Let_def case_prod_beta split: option.split)

lemma handleKeys_bindings [simp]: "bindings (snd (handleKeys n keys r s)) = bindings n"
  by (induction keys arbitrary: n) (auto simp: case_prod_beta Let_def)

definition bound_signal :: "(char \<rightharpoonup> string) \<Rightarrow> EventSignal \<Rightarrow> bool" where
  "bound_signal bs s \<longleftrightarrow> event_name s \<in> ran bs \<and> source s = ''keyboard'' \<and> trigger_id s \<noteq> []"

lemma handleKey_signals: "s \<in> set (fst (handleKey n key r t)) \<Longrightarrow> bound_signal (bindings n) s"
  by (auto simp: handleKey_def sendTrigger_def bound_signal_def Let_def case_prod_beta ran_def
      split: option.splits if_splits)

lemma handleKeys_signals: "s \<in> set (fst (handleKeys n keys r t)) \<Longrightarrow> bound_signal (bindings n) s"
proof (induction keys arbitrary: n)
  case (Cons key keys)
  then show ?case
    using handleKey_signals [of s n key r t] Cons.IH [of "snd (handleKey n key r t)"]
    by (auto simp: case_prod_beta Let_def)
qed simp

lemma readInput_signals: "s \<in> set (fst (readInput n turns)) \<Longrightarrow> bound_signal (bindings n) s"
proof (induction turns arbitrary: n)
  case (Cons turn turns)
  show ?case
  proof (cases turn)
    case (ReadBytes input r t)
    obtain ss n1 where keys: "handleKeys n input r t = (ss, n1)" by fastforce
    then have "bindings n1 = bindings n" using handleKeys_bindings [of n input r t] by simp
    moreover have "s \<in> set ss \<or> s \<in> set (fst (readInput n1 turns))"
      using Cons.prems ReadBytes keys by (simp add: case_prod_beta split: if_splits)
    ultimately show ?thesis
      using Cons.IH [of n1] handleKeys_signals [of s n input r t] keys by auto
  qed (use Cons in \<open>simp_all split: if_splits\<close>)
qed simp

section \<open>Properties\<close>

text \<open>
  The router never refuses a keyboard signal as malformed: whatever is typed,
  every signal the node publishes names a valid event, keeps its source and
  identifier at the router, and is forwarded when the service is ready and the
  policy accepts it.
\<close>

theorem keyboard_signals_routable:
  assumes "newKeyboardNode bs quiet quit wait timeout = Inr n" "s \<in> set (fst (readInput n turns))"
  shows "validEventName (event_name s) \<and> completeSignal rn s ros = (s, rn) \<and>
    (fst (evaluate (policy rn) (event_name s) (trigger_id s) steady) = Accept \<longrightarrow>
       requests (fst (route rn s True ros steady)) =
         [\<lparr>rq_event_name = event_name s, rq_trigger_id = trigger_id s, rq_source = ''keyboard''\<rparr>])"
proof -
  have "bindings n = parseKeyBindings bs"
    using assms(1) by (auto simp: newKeyboardNode_def Let_def split: if_splits)
  then have "bound_signal (parseKeyBindings bs) s"
    using readInput_signals [OF assms(2)] by simp
  then have s: "validEventName (event_name s)" "source s = ''keyboard''" "trigger_id s \<noteq> []"
    using bound_event_valid [of bs] by (auto simp: bound_signal_def ran_def)
  then have "completeSignal rn s ros = (s, rn)" by (simp add: completeSignal_complete)
  with s show ?thesis
    by (simp add: route_def statusUpdate_def Let_def case_prod_beta)
qed

theorem keyboard_signals_routable_witness:
  "\<exists>n s. newKeyboardNode [''c=collision''] 700 ''q'' False 600000 = Inr n \<and>
     fst (readInput n [NotReady, ReadBytes ''xccq'' 5 5]) = [s] \<and> validEventName (event_name s)"
proof -
  have bound: "parseKeyBindings [''c=collision''] = [CHR ''c'' \<mapsto> ''collision'']"
    using addBinding_entry [of "CHR ''c''" "''collision''" Map.empty]
    by (simp add: parseKeyBindings_def validEventName_def text_eval)
  then obtain n where n: "newKeyboardNode [''c=collision''] 700 ''q'' False 600000 = Inr n"
    by (simp add: newKeyboardNode_def)
  moreover from n bound obtain s where "fst (readInput n [NotReady, ReadBytes ''xccq'' 5 5]) = [s]"
    by (auto simp: newKeyboardNode_def handleKey_def sendTrigger_def accept_def newDebouncer_def)
  ultimately show ?thesis
    using keyboard_signals_routable [OF n, of s "[NotReady, ReadBytes ''xccq'' 5 5]"] by auto
qed

end
