(* ===== verification/Trigger_Node.thy ===== *)
theory Trigger_Node
  imports Event_Messages
begin

text \<open>
  \<open>event_trigger_node.cc\<close>: the strong proxy \<open>/request_trigger\<close>, which answers with
  the real result of the cache node, and the periodic trigger.  What the wait for
  the service and for the answer delivers is an argument.
\<close>

record EventTriggerNode =
  tn_eventName :: string

text \<open>
  The constructor: the parameters, of which \<open>interval\<close> is narrowed to \<open>int\<close>; the result has the
  period of the timer in nanoseconds, if there is one.
\<close>

definition newTriggerNode :: "int \<Rightarrow> string \<Rightarrow> EventTriggerNode \<times> int option" where
  "newTriggerNode interval eventParameter =
     (let seconds = sint (word_of_int interval :: 32 word)
      in (\<lparr>tn_eventName = eventParameter\<rparr>, if seconds > 0 then Some (seconds * 1000000000) else None))"

datatype wait_result = TimedOut | Ready RpcOutcome

definition forwardTrigger ::
  "EventTriggerNode \<Rightarrow> TriggerRequest \<Rightarrow> bool \<Rightarrow> wait_result \<Rightarrow> TriggerRequest option \<times> TriggerResponse" where
  "forwardTrigger n incoming serviceAvailable answer =
     (if \<not> serviceAvailable
      then (None, emptyResponse\<lparr>rs_success := False, rs_message := ''Failed to reach datacache_node''\<rparr>)
      else
        let request = \<lparr>
              rq_event_name = (if rq_event_name incoming = [] then tn_eventName n else rq_event_name incoming),
              rq_trigger_id = rq_trigger_id incoming,
              rq_source = (if rq_source incoming = [] then ''request_trigger'' else rq_source incoming)\<rparr>
        in (Some request,
            case answer of
              TimedOut \<Rightarrow> emptyResponse\<lparr>rs_success := False, rs_message := ''Timed out waiting for datacache_node''\<rparr>
            | Ready (Answered response) \<Rightarrow> response
            | Ready (Raised what) \<Rightarrow> emptyResponse\<lparr>rs_success := False, rs_message := ''Trigger RPC failed: '' @ what\<rparr>))"

definition sendTriggerAsync :: "string \<Rightarrow> bool \<Rightarrow> TriggerRequest option" where
  "sendTriggerAsync eventName serviceReady =
     (if \<not> serviceReady then None
      else Some \<lparr>rq_event_name = eventName, rq_trigger_id = '''', rq_source = ''event_trigger_timer''\<rparr>)"

text \<open>The timer's turns, each with whether the service is there.\<close>

definition timerTurns :: "EventTriggerNode \<Rightarrow> bool list \<Rightarrow> TriggerRequest list" where
  "timerTurns n ready = List.map_filter (sendTriggerAsync (tn_eventName n)) ready"

lemma timerTurns_requests:
  "timerTurns n ready = replicate (length (filter id ready)) \<lparr>rq_event_name = tn_eventName n, rq_trigger_id = '''', rq_source = ''event_trigger_timer''\<rparr>"
  by (induction ready) (simp_all add: timerTurns_def sendTriggerAsync_def map_filter_def)

lemma timer_period:
  assumes "snd (newTriggerNode interval name) = Some period"
  shows "1000000000 \<le> period \<and> period < 2 ^ 31 * 1000000000"
proof -
  have "sint (word_of_int interval :: 32 word) < 2 ^ 31" using sint_lt [of "word_of_int interval :: 32 word"] by simp
  with assms show ?thesis by (auto simp: newTriggerNode_def Let_def split: if_splits)
qed

text \<open>
  The proxy never invents a success: it answers success exactly when it sent the
  request and the cache node answered it successfully in time, then with that very
  answer; every failure of its own carries a message.
\<close>

theorem proxy_success_is_real:
  "rs_success (snd (forwardTrigger n incoming available answer)) \<longleftrightarrow>
     (\<exists>r. available \<and> answer = Ready (Answered r) \<and> rs_success r \<and>
        snd (forwardTrigger n incoming available answer) = r)"
  by (auto simp: forwardTrigger_def emptyResponse_def Let_def split: wait_result.splits RpcOutcome.splits)

end
