(* ===== verification/Watchdog.thy ===== *)
theory Watchdog
  imports Cpp_Text "HOL-Library.List_Lexorder"
begin

text \<open>
  \<open>sensor_watchdog.hpp\<close>: which sensors stopped delivering.  The \<open>std::map\<close> of
  sensors is an association list kept in the order of its keys, the steady clock
  (nanoseconds) an argument; the callback calls of a poll are its result, in order.
\<close>

record SensorState =
  staleTimeout :: int
  lastReceive :: int
  staleSince :: int
  stale :: bool

record Transition =
  tr_sensor :: string
  tr_stale :: bool
  tr_elapsed :: int

type_synonym SensorWatchdog = "(string \<times> SensorState) list"

definition newWatchdog :: SensorWatchdog where
  "newWatchdog = []"

definition registerSensor :: "SensorWatchdog \<Rightarrow> string \<Rightarrow> int \<Rightarrow> int \<Rightarrow> SensorWatchdog" where
  "registerSensor w name staleTimeoutMs now =
     (if name \<in> fst ` set w then w
      else insort_key fst (name, \<lparr>staleTimeout = staleTimeoutMs * 1000000, lastReceive = now,
             staleSince = 0, stale = False\<rparr>) w)"

definition noteData :: "SensorWatchdog \<Rightarrow> string \<Rightarrow> int \<Rightarrow> SensorWatchdog" where
  "noteData w name now =
     map (\<lambda>(k, st). if k = name then (k, st\<lparr>lastReceive := now\<rparr>) else (k, st)) w"

text \<open>\<open>duration_cast<milliseconds>\<close> truncates towards zero.\<close>

definition toMilliseconds :: "int \<Rightarrow> int" where
  "toMilliseconds ns = (if ns \<ge> 0 then ns div 1000000 else - ((- ns) div 1000000))"

definition checkSensor :: "int \<Rightarrow> string \<Rightarrow> SensorState \<Rightarrow> Transition list \<times> SensorState" where
  "checkSensor now name st =
     (let isStaleNow = (now - lastReceive st > staleTimeout st) in
      if isStaleNow = stale st then ([], st)
      else
        let st' = st\<lparr>stale := isStaleNow\<rparr>;
            elapsed = (if isStaleNow then now - lastReceive st' else now - staleSince st')
        in ([\<lparr>tr_sensor = name, tr_stale = isStaleNow, tr_elapsed = toMilliseconds elapsed\<rparr>],
            if isStaleNow then st'\<lparr>staleSince := now\<rparr> else st'))"

primrec poll :: "SensorWatchdog \<Rightarrow> int \<Rightarrow> Transition list \<times> SensorWatchdog" where
  "poll [] now = ([], [])"
| "poll (entry # rest) now =
     (let (ts, st) = checkSensor now (fst entry) (snd entry); (ts', rest') = poll rest now
      in (ts @ ts', (fst entry, st) # rest'))"

definition isStale :: "SensorWatchdog \<Rightarrow> string \<Rightarrow> bool" where
  "isStale w name = (case map_of w name of None \<Rightarrow> False | Some st \<Rightarrow> stale st)"

definition formatSeconds :: "int \<Rightarrow> string" where
  "formatSeconds ms =
     (let tenths = (if ms \<ge> 0 then ms div 100 else - ((- ms) div 100));
          whole = (if tenths \<ge> 0 then tenths div 10 else - ((- tenths) div 10))
      in int_to_string whole @ ''.'' @ int_to_string (tenths - whole * 10) @ ''s'')"

primrec describeFrom :: "string \<Rightarrow> SensorWatchdog \<Rightarrow> int \<Rightarrow> string" where
  "describeFrom description [] now = description"
| "describeFrom description (entry # rest) now =
     describeFrom
       ((if description \<noteq> [] then description @ '', '' else description) @ fst entry @ '': '' @
        (if \<not> stale (snd entry) then ''ok''
         else ''STALE '' @ formatSeconds (toMilliseconds (now - lastReceive (snd entry)))))
       rest now"

definition describeStatus :: "SensorWatchdog \<Rightarrow> int \<Rightarrow> string" where
  "describeStatus w now = describeFrom [] w now"

section \<open>The operations on the entry of one sensor\<close>

lemma keys_insort: "fst ` set (insort_key fst x w) = insert (fst x) (fst ` set w)"
  by (simp add: set_insort_key)

lemma map_of_insort:
  "fst x \<notin> fst ` set w \<Longrightarrow> map_of (insort_key fst x w) k = (if k = fst x then Some (snd x) else map_of w k)"
  by (induction w) (auto split: if_splits)

lemma distinct_insort: "fst x \<notin> fst ` set w \<Longrightarrow> distinct (map fst w) \<Longrightarrow> distinct (map fst (insort_key fst x w))"
  by (induction w) (auto simp: set_insort_key)

lemma map_of_note:
  "map_of (noteData w name now) k =
     map_option (\<lambda>st. if k = name then st\<lparr>lastReceive := now\<rparr> else st) (map_of w k)"
  by (induction w) (auto simp: noteData_def)

lemma keys_note [simp]: "map fst (noteData w name now) = map fst w"
  by (induction w) (auto simp: noteData_def)

lemma keys_poll [simp]: "map fst (snd (poll w now)) = map fst w"
  by (induction w) (auto simp: case_prod_beta Let_def)

lemma map_of_poll: "map_of (snd (poll w now)) k = map_option (\<lambda>st. snd (checkSensor now k st)) (map_of w k)"
  by (induction w) (auto simp: case_prod_beta Let_def)

lemma check_name: "t \<in> set (fst (checkSensor now k st)) \<Longrightarrow> tr_sensor t = k"
  by (auto simp: checkSensor_def Let_def split: if_splits)

lemma poll_names: "t \<in> set (fst (poll w now)) \<Longrightarrow> tr_sensor t \<in> fst ` set w"
  by (induction w) (auto simp: case_prod_beta Let_def dest: check_name)

text \<open>A poll reports a sensor's own transition and nothing else under its name.\<close>

lemma poll_transitions:
  "distinct (map fst w) \<Longrightarrow> filter (\<lambda>t. tr_sensor t = k) (fst (poll w now)) =
     (case map_of w k of None \<Rightarrow> [] | Some st \<Rightarrow> fst (checkSensor now k st))"
proof (induction w)
  case (Cons e w)
  have own: "filter (\<lambda>t. tr_sensor t = k) (fst (checkSensor now (fst e) (snd e))) =
      (if fst e = k then fst (checkSensor now k (snd e)) else [])"
    by (auto simp: checkSensor_def Let_def)
  show ?case
  proof (cases "fst e = k")
    case True
    then have "\<forall>t\<in>set (fst (poll w now)). tr_sensor t \<noteq> k"
      using Cons.prems poll_names by (metis distinct.simps(2) list.map(2) list.set_map)
    then have "filter (\<lambda>t. tr_sensor t = k) (fst (poll w now)) = []" by (simp add: filter_empty_conv)
    with True own show ?thesis by (simp add: case_prod_beta Let_def)
  next
    case False
    with Cons own show ?thesis by (simp add: case_prod_beta Let_def)
  qed
qed simp

section \<open>Runs\<close>

datatype watchdog_op = Register string int int | Note string int | Poll int

fun watchdogStep :: "SensorWatchdog \<Rightarrow> watchdog_op \<Rightarrow> Transition list \<times> SensorWatchdog" where
  "watchdogStep w (Register name ms now) = ([], registerSensor w name ms now)"
| "watchdogStep w (Note name now) = ([], noteData w name now)"
| "watchdogStep w (Poll now) = poll w now"

primrec runWatchdog :: "SensorWatchdog \<Rightarrow> watchdog_op list \<Rightarrow> Transition list \<times> SensorWatchdog" where
  "runWatchdog w [] = ([], w)"
| "runWatchdog w (op # ops) =
     (let (ts, w') = watchdogStep w op; (ts', w'') = runWatchdog w' ops in (ts @ ts', w''))"

lemma runWatchdog_snoc:
  "runWatchdog w (ops @ [op]) =
     (let (ts, w') = runWatchdog w ops; (ts', w'') = watchdogStep w' op in (ts @ ts', w''))"
  by (induction ops arbitrary: w) (auto simp: case_prod_beta Let_def)

lemma distinct_step: "distinct (map fst w) \<Longrightarrow> distinct (map fst (snd (watchdogStep w op)))"
  by (cases op) (auto simp: registerSensor_def distinct_insort)

lemma distinct_run: "distinct (map fst (snd (runWatchdog newWatchdog ops)))"
  by (induction ops rule: rev_induct)
    (auto simp: newWatchdog_def runWatchdog_snoc case_prod_beta Let_def distinct_step)

text \<open>The transitions of one sensor.\<close>

definition flips :: "string \<Rightarrow> Transition list \<Rightarrow> bool list" where
  "flips k ts = map tr_stale (filter (\<lambda>t. tr_sensor t = k) ts)"

primrec alternates :: "bool \<Rightarrow> bool list \<Rightarrow> bool" where
  "alternates b [] = True"
| "alternates b (x # xs) = (x \<noteq> b \<and> alternates x xs)"

definition lastFlag :: "bool list \<Rightarrow> bool" where
  "lastFlag bs = (if bs = [] then False else last bs)"

lemma alternates_append:
  "alternates b (xs @ ys) \<longleftrightarrow> alternates b xs \<and> alternates (if xs = [] then b else last xs) ys"
  by (induction xs arbitrary: b) auto

lemma alternates_snoc: "alternates False (xs @ [x]) \<longleftrightarrow> alternates False xs \<and> x \<noteq> lastFlag xs"
  by (simp add: alternates_append lastFlag_def)

text \<open>The timeout of a sensor, and when it last delivered, read off the history.\<close>

fun lastDataFrom :: "string \<Rightarrow> (int \<times> int) option \<Rightarrow> watchdog_op list \<Rightarrow> (int \<times> int) option" where
  "lastDataFrom k x [] = x"
| "lastDataFrom k x (Register name ms now # ops) =
     lastDataFrom k (if name = k \<and> x = None then Some (ms * 1000000, now) else x) ops"
| "lastDataFrom k x (Note name now # ops) =
     lastDataFrom k (if name = k then map_option (\<lambda>(timeout, _). (timeout, now)) x else x) ops"
| "lastDataFrom k x (Poll now # ops) = lastDataFrom k x ops"

definition lastData :: "string \<Rightarrow> watchdog_op list \<Rightarrow> (int \<times> int) option" where
  "lastData k ops = lastDataFrom k None ops"

lemma lastDataFrom_append: "lastDataFrom k x (xs @ ys) = lastDataFrom k (lastDataFrom k x xs) ys"
  by (induction k x xs rule: lastDataFrom.induct) auto

definition tracked :: "watchdog_op list \<Rightarrow> Transition list \<times> SensorWatchdog \<Rightarrow> bool" where
  "tracked ops r \<longleftrightarrow> (\<forall>k. alternates False (flips k (fst r)) \<and>
     (case map_of (snd r) k of None \<Rightarrow> lastData k ops = None \<and> flips k (fst r) = []
      | Some st \<Rightarrow> lastData k ops = Some (staleTimeout st, lastReceive st) \<and>
          stale st = lastFlag (flips k (fst r))))"

lemma trackedD:
  "tracked ops r \<Longrightarrow> alternates False (flips k (fst r)) \<and>
     (case map_of (snd r) k of None \<Rightarrow> lastData k ops = None \<and> flips k (fst r) = []
      | Some st \<Rightarrow> lastData k ops = Some (staleTimeout st, lastReceive st) \<and>
          stale st = lastFlag (flips k (fst r)))"
  unfolding tracked_def by (erule spec)

lemma checkSensor_kept:
  "staleTimeout (snd (checkSensor now k st)) = staleTimeout st \<and>
   lastReceive (snd (checkSensor now k st)) = lastReceive st"
  by (simp add: checkSensor_def Let_def)

lemma flips_append: "flips k (xs @ ys) = flips k xs @ flips k ys"
  by (simp add: flips_def)

lemma flips_poll:
  "distinct (map fst w) \<Longrightarrow> flips k (fst (poll w now)) =
     (case map_of w k of None \<Rightarrow> [] | Some st \<Rightarrow> map tr_stale (fst (checkSensor now k st)))"
  by (simp add: flips_def poll_transitions split: option.split)

lemma tracked_step:
  assumes "tracked ops (ts, w)" "distinct (map fst w)" "watchdogStep w op = (ts', w')"
  shows "tracked (ops @ [op]) (ts @ ts', w')"
  unfolding tracked_def
proof (intro allI)
  fix k
  have old: "alternates False (flips k ts)"
    "case map_of w k of None \<Rightarrow> lastData k ops = None \<and> flips k ts = []
     | Some st \<Rightarrow> lastData k ops = Some (staleTimeout st, lastReceive st) \<and> stale st = lastFlag (flips k ts)"
    using trackedD [OF assms(1), of k] unfolding fst_conv snd_conv by blast+
  show "alternates False (flips k (fst (ts @ ts', w'))) \<and>
     (case map_of (snd (ts @ ts', w')) k of None \<Rightarrow> lastData k (ops @ [op]) = None \<and> flips k (fst (ts @ ts', w')) = []
      | Some st \<Rightarrow> lastData k (ops @ [op]) = Some (staleTimeout st, lastReceive st) \<and>
          stale st = lastFlag (flips k (fst (ts @ ts', w'))))"
  proof (cases op)
    case (Register name ms now)
    show ?thesis
    proof (cases "name \<in> fst ` set w")
      case True
      then have "map_of w name \<noteq> None" by (simp add: map_of_eq_None_iff)
      with True old assms(3) Register show ?thesis
        by (auto simp: registerSensor_def lastData_def lastDataFrom_append split: option.splits)
    next
      case False
      then have none: "map_of w name = None" by (simp add: map_of_eq_None_iff)
      let ?new = "\<lparr>staleTimeout = ms * 1000000, lastReceive = now, staleSince = 0, stale = False\<rparr>"
      have w': "ts' = []" "map_of w' k = (if k = name then Some ?new else map_of w k)"
        using False assms(3) Register map_of_insort [of "(name, ?new)" w k]
        by (auto simp: registerSensor_def)
      show ?thesis
      proof (cases "k = name")
        case True
        with none old w' Register show ?thesis
          by (simp add: lastData_def lastDataFrom_append lastFlag_def)
      next
        case False
        with old w' Register show ?thesis
          by (auto simp: lastData_def lastDataFrom_append split: option.splits)
      qed
    qed
  next
    case (Note name now)
    with old assms(3) show ?thesis
      by (auto simp: map_of_note lastData_def lastDataFrom_append split: option.splits)
  next
    case (Poll now)
    have fl: "flips k ts' = (case map_of w k of None \<Rightarrow> [] | Some st \<Rightarrow> map tr_stale (fst (checkSensor now k st)))"
      and st: "map_of w' k = map_option (\<lambda>st. snd (checkSensor now k st)) (map_of w k)"
      using Poll assms(3) flips_poll [OF assms(2), of k now] map_of_poll [of w now k] by auto
    have data: "lastData k (ops @ [op]) = lastData k ops"
      using Poll by (simp add: lastData_def lastDataFrom_append)
    show ?thesis
    proof (cases "map_of w k")
      case None
      with old fl st data show ?thesis by (simp add: flips_append)
    next
      case (Some s)
      with old fl st data checkSensor_kept [of now k s] show ?thesis
        by (auto simp: flips_append checkSensor_def Let_def alternates_snoc lastFlag_def)
    qed
  qed
qed

lemma tracked_run: "tracked ops (runWatchdog newWatchdog ops)"
proof (induction ops rule: rev_induct)
  case Nil
  then show ?case by (simp add: tracked_def newWatchdog_def flips_def lastData_def)
next
  case (snoc op ops)
  obtain ts w where r: "runWatchdog newWatchdog ops = (ts, w)" by fastforce
  obtain ts' w' where s: "watchdogStep w op = (ts', w')" by fastforce
  show ?case using tracked_step [OF _ _ s] snoc r distinct_run [of ops] by (simp add: runWatchdog_snoc s)
qed

section \<open>Properties\<close>

text \<open>
  C25. One callback per flip: whatever the watchdog sees, the transitions it reports
  for a sensor alternate, beginning with an outage, and \<open>isStale\<close> answers the last
  one reported.
\<close>

theorem transitions_alternate:
  "alternates False (flips k (fst (runWatchdog newWatchdog ops))) \<and>
   isStale (snd (runWatchdog newWatchdog ops)) k = lastFlag (flips k (fst (runWatchdog newWatchdog ops)))"
  using trackedD [OF tracked_run, of k ops]
  by (auto simp: isStale_def lastFlag_def split: option.splits)

text \<open>
  Right after a poll a sensor counts as stale exactly when it is registered and its
  last data, or its registration if it never delivered, is older than its timeout.
\<close>

theorem stale_iff_timeout:
  "isStale (snd (runWatchdog newWatchdog (ops @ [Poll now]))) k \<longleftrightarrow>
     (\<exists>timeout last_data. lastData k ops = Some (timeout, last_data) \<and> now - last_data > timeout)"
proof -
  obtain ts w where r: "runWatchdog newWatchdog ops = (ts, w)" by fastforce
  then have "case map_of w k of None \<Rightarrow> lastData k ops = None
     | Some st \<Rightarrow> lastData k ops = Some (staleTimeout st, lastReceive st)"
    using trackedD [OF tracked_run, of k ops] by (simp split: option.splits)
  moreover have "snd (runWatchdog newWatchdog (ops @ [Poll now])) = snd (poll w now)"
    by (simp add: runWatchdog_snoc r case_prod_beta)
  ultimately show ?thesis
    by (auto simp: isStale_def map_of_poll checkSensor_def Let_def split: option.splits)
qed

end
