(* ===== verification/Config.thy ===== *)
theory Config
  imports Cpp_Text "HOL-Library.AList"
begin

text \<open>
  \<open>config_keys.hpp\<close> and \<open>config_manager.cpp\<close>: the registered configuration
  keys and the loader that validates a file against them.  The
  \<open>std::unordered_map\<close> is an association list with distinct keys; nothing stated
  here depends on the order in which the validation visits it.
\<close>

section \<open>Registered keys\<close>

datatype KeyType = TString | TInt | TBool

definition exactKeys :: "(string \<times> KeyType) list" where
  "exactKeys = [
     (''buffer_size'', TInt), (''buffer_duration_seconds'', TInt), (''buffer_max_mb'', TInt),
     (''sync_enabled'', TBool), (''sync_queue_size'', TInt), (''sync_tolerance_ms'', TInt),
     (''sync_required_for_recording'', TBool), (''trigger_dedupe_ttl_ms'', TInt),
     (''max_pending_storage_jobs'', TInt), (''max_active_event_captures'', TInt),
     (''event_scheduler_period_ms'', TInt), (''sensor_stall_grace_ms'', TInt),
     (''watchdog_enabled'', TBool), (''watchdog_check_period_ms'', TInt),
     (''watchdog_stale_timeout_ms'', TInt), (''compression_enabled'', TBool),
     (''compression_level'', TInt), (''keep_raw_after_compression'', TBool),
     (''conversion_enabled'', TBool), (''image_format'', TString), (''image_quality'', TInt),
     (''pointcloud_format'', TString), (''disk_min_free_mb'', TInt), (''retention_days'', TInt),
     (''retention_max_capacity_mb'', TInt), (''disk_cleanup_interval_seconds'', TInt),
     (''upload_enabled'', TBool), (''upload_service_name'', TString),
     (''upload_scan_period_ms'', TInt), (''upload_timeout_s'', TInt),
     (''upload_max_retries'', TInt), (''upload_retry_backoff_ms'', TInt),
     (''upload_lease_timeout_s'', TInt), (''upload_failed_rescan_period_ms'', TInt),
     (''event_names'', TString), (''event_pre_time'', TInt), (''event_post_time'', TInt),
     (''record_camera'', TBool), (''record_lidar'', TBool), (''record_directory'', TString),
     (''config_strict'', TBool)]"

definition hasAffixes :: "string \<Rightarrow> string \<Rightarrow> string \<Rightarrow> bool" where
  "hasAffixes key prefix suffix \<longleftrightarrow>
     length key > length prefix + length suffix \<and> substr key 0 (length prefix) = prefix \<and>
     substr key (length key - length suffix) (length suffix) = suffix"

definition matchesPatternKey :: "string \<Rightarrow> KeyType option" where
  "matchesPatternKey key =
     (if hasAffixes key ''enable_'' ''_event'' then Some TBool
      else if hasAffixes key ''event_'' ''_pre_time'' \<or> hasAffixes key ''event_'' ''_post_time'' then Some TInt
      else if hasAffixes key ''event_'' ''_record_camera'' \<or> hasAffixes key ''event_'' ''_record_lidar''
      then Some TBool
      else if hasAffixes key ''watchdog_'' ''_stale_timeout_ms'' then Some TInt
      else None)"

definition lookupType :: "string \<Rightarrow> KeyType option" where
  "lookupType key =
     (case map_of exactKeys key of Some keyType \<Rightarrow> Some keyType | None \<Rightarrow> matchesPatternKey key)"

section \<open>The loader\<close>

record ConfigManager =
  config :: "(string \<times> string) list"
  validationProblems :: "string list"

definition newConfigManager :: ConfigManager where
  "newConfigManager = \<lparr>config = [], validationProblems = []\<rparr>"

definition blanks :: "char set" where
  "blanks = {CHR '' '', CHR 0x09, CHR 0x0D, CHR 0x0A}"

definition find_first_not_of :: "char set \<Rightarrow> string \<Rightarrow> nat option" where
  "find_first_not_of cs s =
     (let k = length (takeWhile (\<lambda>c. c \<in> cs) s) in if k < length s then Some k else None)"

definition find_last_not_of :: "char set \<Rightarrow> string \<Rightarrow> nat option" where
  "find_last_not_of cs s =
     (let k = length (takeWhile (\<lambda>c. c \<in> cs) (rev s)) in if k < length s then Some (length s - 1 - k) else None)"

definition trim_value :: "string \<Rightarrow> string" where
  "trim_value v =
     (case find_first_not_of blanks v of None \<Rightarrow> []
      | Some first \<Rightarrow> (case find_last_not_of blanks v of None \<Rightarrow> []
          | Some last_pos \<Rightarrow> substr v first (last_pos - first + 1)))"

definition stripComment :: "string \<Rightarrow> string" where
  "stripComment line =
     (case find_from CHR ''#'' line 0 of None \<Rightarrow> line | Some p \<Rightarrow> take p line)"

text \<open>The two \<open>std::getline\<close> calls on the line: both must extract something.\<close>

definition parseLine :: "string \<Rightarrow> (string \<times> string) option" where
  "parseLine line0 =
     (let line = stripComment line0 in
      if line = [] then None
      else
        let key = takeWhile (\<lambda>c. c \<noteq> CHR ''='') line; rest = drop (Suc (length key)) line
        in if rest = [] then None else Some (trim_value key, trim_value rest))"

definition storeLine :: "string \<Rightarrow> (string \<times> string) list \<Rightarrow> (string \<times> string) list" where
  "storeLine line c = (case parseLine line of None \<Rightarrow> c | Some (key, value) \<Rightarrow> AList.update key value c)"

definition getConfig :: "ConfigManager \<Rightarrow> string \<Rightarrow> string" where
  "getConfig m key = (case map_of (config m) key of None \<Rightarrow> [] | Some value \<Rightarrow> value)"

definition getIntConfig :: "ConfigManager \<Rightarrow> string \<Rightarrow> int \<Rightarrow> int" where
  "getIntConfig m key defaultValue =
     (case map_of (config m) key of None \<Rightarrow> defaultValue
      | Some text \<Rightarrow> (case stoi text of None \<Rightarrow> defaultValue | Some (i, consumed) \<Rightarrow> i))"

definition getBoolConfig :: "ConfigManager \<Rightarrow> string \<Rightarrow> bool \<Rightarrow> bool" where
  "getBoolConfig m key defaultValue =
     (case map_of (config m) key of None \<Rightarrow> defaultValue
      | Some text \<Rightarrow>
          if text = ''true'' \<or> text = ''1'' then True
          else if text = ''false'' \<or> text = ''0'' then False
          else defaultValue)"

definition parseInt :: "string \<Rightarrow> bool" where
  "parseInt text = (case stoi text of None \<Rightarrow> False | Some (i, consumed) \<Rightarrow> consumed = length text)"

definition entryProblem :: "string \<times> string \<Rightarrow> string option" where
  "entryProblem = (\<lambda>(key, value).
     case lookupType key of
       None \<Rightarrow> Some (''unknown config key '' @ [CHR 0x27] @ key @ [CHR 0x27])
     | Some type \<Rightarrow>
         let expected =
           (if type = TInt \<and> \<not> parseInt value then Some ''int''
            else if type = TBool \<and> value \<noteq> ''true'' \<and> value \<noteq> ''false'' \<and> value \<noteq> ''1'' \<and> value \<noteq> ''0''
            then Some ''bool (true/false/1/0)''
            else None)
         in map_option (\<lambda>e. ''invalid '' @ e @ '' value for '' @ [CHR 0x27] @ key @ [CHR 0x27] @ '': '' @
              [CHR 0x27] @ value @ [CHR 0x27]) expected)"

definition validate :: "ConfigManager \<Rightarrow> bool \<times> ConfigManager" where
  "validate m =
     (let strict = getBoolConfig m ''config_strict'' False;
          m' = m\<lparr>validationProblems := validationProblems m @ List.map_filter entryProblem (config m)\<rparr>
      in (\<not> (strict \<and> validationProblems m' \<noteq> []), m'))"

text \<open>The content of the file, or \<open>None\<close> where it cannot be opened.\<close>

definition loadConfig :: "ConfigManager \<Rightarrow> string option \<Rightarrow> bool \<times> ConfigManager" where
  "loadConfig m file =
     (case file of None \<Rightarrow> (False, m)
      | Some content \<Rightarrow>
          validate \<lparr>config = fold storeLine (getlines content) [], validationProblems = []\<rparr>)"

section \<open>Trimming and lines\<close>

definition unblank :: "string \<Rightarrow> bool" where
  "unblank s \<longleftrightarrow> s \<noteq> [] \<and> hd s \<notin> blanks \<and> last s \<notin> blanks"

lemma takeWhile_head: "s \<noteq> [] \<Longrightarrow> \<not> P (hd s) \<Longrightarrow> takeWhile P s = []"
  by (cases s) auto

lemma trim_unblank: "unblank s \<Longrightarrow> trim_value s = s"
  by (simp add: unblank_def trim_value_def find_first_not_of_def find_last_not_of_def
      takeWhile_head hd_rev substr_def)

lemma parseLine_entry:
  assumes "unblank k" "unblank v" "CHR ''='' \<notin> set k" "CHR ''#'' \<notin> set (k @ v)"
  shows "parseLine (k @ CHR ''='' # v) = Some (k, v)"
proof -
  have "stripComment (k @ CHR ''='' # v) = k @ CHR ''='' # v"
    using assms(4) by (simp add: stripComment_def find_from_none)
  moreover have "takeWhile (\<lambda>c. c \<noteq> CHR ''='') (k @ CHR ''='' # v) = k"
    using assms(3) by (rule takeWhile_upto)
  moreover have "v \<noteq> []" using assms(2) by (simp add: unblank_def)
  ultimately show ?thesis
    using assms(1,2) trim_unblank by (simp add: parseLine_def)
qed

lemma distinct_store: "distinct (map fst c) \<Longrightarrow> distinct (map fst (storeLine l c))"
  by (auto simp: storeLine_def distinct_update split: option.split)

lemma distinct_store_all: "distinct (map fst c) \<Longrightarrow> distinct (map fst (fold storeLine ls c))"
  by (induction ls arbitrary: c) (auto simp: distinct_store)

text \<open>A line of a file as \<open>key=value\<close>.\<close>

definition entryLine :: "string \<times> string \<Rightarrow> string" where
  "entryLine kv = fst kv @ CHR ''='' # snd kv"

definition writable :: "string \<times> string \<Rightarrow> bool" where
  "writable kv \<longleftrightarrow> unblank (fst kv) \<and> unblank (snd kv) \<and> CHR ''='' \<notin> set (fst kv) \<and>
     CHR ''#'' \<notin> set (fst kv @ snd kv) \<and> newline \<notin> set (fst kv @ snd kv)"

lemma map_of_store_entries:
  "\<forall>kv\<in>set kvs. writable kv \<Longrightarrow>
   map_of (fold storeLine (map entryLine kvs) c) = map_of c ++ map_of (rev kvs)"
proof (induction kvs arbitrary: c)
  case (Cons kv kvs)
  then have "storeLine (entryLine kv) c = AList.update (fst kv) (snd kv) c"
    using parseLine_entry [of "fst kv" "snd kv"]
    by (simp add: storeLine_def entryLine_def writable_def case_prod_beta)
  with Cons show ?case
    by (cases kv) (simp add: update_conv' map_add_assoc)
qed simp

section \<open>Validation\<close>

lemma entryProblem_None:
  "entryProblem (key, value) = None \<longleftrightarrow>
     (\<exists>type. lookupType key = Some type \<and> (type = TInt \<longrightarrow> parseInt value) \<and>
        (type = TBool \<longrightarrow> value \<in> {''true'', ''false'', ''1'', ''0''}))"
  by (auto simp: entryProblem_def Let_def split: option.split)

lemma map_filter_empty: "List.map_filter f xs = [] \<longleftrightarrow> (\<forall>x\<in>set xs. f x = None)"
  by (induction xs) (auto simp: map_filter_def)

lemma parseInt_get: "parseInt text \<Longrightarrow> \<exists>i. stoi text = Some (i, length text)"
  by (auto simp: parseInt_def split: option.splits)

lemma hasAffixes_built: "e \<noteq> [] \<Longrightarrow> hasAffixes (p @ e @ s) p s"
  by (auto simp: hasAffixes_def substr_def)

lemma lookup_built:
  assumes "e \<noteq> []" "list_all (\<lambda>kt. \<not> hasAffixes (fst kt) p s) exactKeys"
  shows "lookupType (p @ e @ s) = matchesPatternKey (p @ e @ s)"
proof -
  have "map_of exactKeys (p @ e @ s) = None"
    using assms(2) hasAffixes_built [OF assms(1), of p s]
    by (force simp: list_all_iff map_of_eq_None_iff)
  then show ?thesis by (simp add: lookupType_def)
qed

lemma other_prefix: "take (length q) p \<noteq> q \<Longrightarrow> length q \<le> length p \<Longrightarrow> \<not> hasAffixes (p @ e @ s) q r"
  by (simp add: hasAffixes_def substr_def)

text \<open>The keys the cache node derives from an event or sensor name.\<close>

definition derivedKeys :: "string \<Rightarrow> (string \<times> KeyType) list" where
  "derivedKeys e = [
     (''enable_'' @ e @ ''_event'', TBool),
     (''event_'' @ e @ ''_pre_time'', TInt), (''event_'' @ e @ ''_post_time'', TInt),
     (''event_'' @ e @ ''_record_camera'', TBool), (''event_'' @ e @ ''_record_lidar'', TBool),
     (''watchdog_'' @ e @ ''_stale_timeout_ms'', TInt)]"

lemma exact_keys_unmatched:
  "list_all (\<lambda>kt. \<not> hasAffixes (fst kt) ''enable_'' ''_event'') exactKeys"
  "list_all (\<lambda>kt. \<not> hasAffixes (fst kt) ''event_'' ''_pre_time'') exactKeys"
  "list_all (\<lambda>kt. \<not> hasAffixes (fst kt) ''event_'' ''_post_time'') exactKeys"
  "list_all (\<lambda>kt. \<not> hasAffixes (fst kt) ''event_'' ''_record_camera'') exactKeys"
  "list_all (\<lambda>kt. \<not> hasAffixes (fst kt) ''event_'' ''_record_lidar'') exactKeys"
  "list_all (\<lambda>kt. \<not> hasAffixes (fst kt) ''watchdog_'' ''_stale_timeout_ms'') exactKeys"
  by (simp_all add: exactKeys_def hasAffixes_def substr_def)

lemma other_suffix:
  "drop (length r - length s) r \<noteq> s \<Longrightarrow> length s \<le> length r \<Longrightarrow> \<not> hasAffixes (p @ e @ r) q s"
  by (simp add: hasAffixes_def substr_def)

section \<open>Properties\<close>

text \<open>
  Every per-event and per-sensor key the cache node asks for is a registered key
  of the right type, for any non-empty name: no exact key and no other pattern
  captures it.
\<close>

theorem derived_keys_registered:
  assumes "e \<noteq> []" "(key, type) \<in> set (derivedKeys e)"
  shows "lookupType key = Some type"
proof -
  note built = lookup_built [OF assms(1)] hasAffixes_built [OF assms(1)]
  have "lookupType (''enable_'' @ e @ ''_event'') = Some TBool"
    by (simp only: built(1) [OF exact_keys_unmatched(1)] matchesPatternKey_def built(2) if_True)
  moreover have "lookupType (''event_'' @ e @ ''_pre_time'') = Some TInt"
    "lookupType (''event_'' @ e @ ''_post_time'') = Some TInt"
    using built(1) [OF exact_keys_unmatched(2)] built(1) [OF exact_keys_unmatched(3)]
      built(2) [of "''event_''" "''_pre_time''"] built(2) [of "''event_''" "''_post_time''"]
      other_prefix [of "''enable_''" "''event_''"]
    by (auto simp: matchesPatternKey_def hasAffixes_def [of _ "''enable_''"] substr_def)
  moreover have "lookupType (''event_'' @ e @ ''_record_camera'') = Some TBool"
    "lookupType (''event_'' @ e @ ''_record_lidar'') = Some TBool"
    using built(1) [OF exact_keys_unmatched(4)] built(1) [OF exact_keys_unmatched(5)]
      built(2) [of "''event_''" "''_record_camera''"] built(2) [of "''event_''" "''_record_lidar''"]
      other_suffix [of "''_record_camera''" "''_pre_time''" "''event_''" e "''event_''"]
      other_suffix [of "''_record_camera''" "''_post_time''" "''event_''" e "''event_''"]
      other_suffix [of "''_record_lidar''" "''_pre_time''" "''event_''" e "''event_''"]
      other_suffix [of "''_record_lidar''" "''_post_time''" "''event_''" e "''event_''"]
    by (simp_all add: matchesPatternKey_def)
  moreover have "lookupType (''watchdog_'' @ e @ ''_stale_timeout_ms'') = Some TInt"
    using built(1) [OF exact_keys_unmatched(6)] built(2) [of "''watchdog_''" "''_stale_timeout_ms''"]
      other_prefix [of "''enable_''" "''watchdog_''"] other_prefix [of "''event_''" "''watchdog_''"]
    by (simp add: matchesPatternKey_def)
  ultimately show ?thesis using assms(2) by (auto simp: derivedKeys_def)
qed

theorem derived_keys_registered_witness:
  "lookupType ''event_hard_brake_pre_time'' = Some TInt"
  using derived_keys_registered [of "''hard_brake''" "''event_hard_brake_pre_time''" TInt]
  by (simp add: derivedKeys_def)

text \<open>
  C26. What a strict load guarantees: if the file is accepted and sets
  \<open>config_strict\<close>, every stored key is registered, every integer setting is read
  as one integer that the whole text spells, whatever default the caller passes, and
  every boolean setting has a value that no default overrides.
\<close>

theorem strict_load_typed:
  assumes "loadConfig m0 file = (True, m)" "getBoolConfig m ''config_strict'' False"
    and "map_of (config m) key = Some value"
  shows "\<exists>type. lookupType key = Some type \<and>
     (type = TInt \<longrightarrow> (\<exists>i. stoi value = Some (i, length value) \<and> (\<forall>d. getIntConfig m key d = i))) \<and>
     (type = TBool \<longrightarrow> getBoolConfig m key True = getBoolConfig m key False)"
proof -
  obtain content where content: "file = Some content"
    using assms(1) by (cases "file") (auto simp: loadConfig_def)
  let ?c = "\<lparr>config = fold storeLine (getlines content) [], validationProblems = []\<rparr>"
  have m: "config m = config ?c" "validationProblems m = List.map_filter entryProblem (config m)"
    "\<not> (getBoolConfig ?c ''config_strict'' False \<and> validationProblems m \<noteq> [])"
    using assms(1) content by (auto simp: loadConfig_def validate_def Let_def)
  then have "validationProblems m = []"
    using assms(2) by (simp add: getBoolConfig_def)
  then have "entryProblem (key, value) = None"
    using m(2) map_of_SomeD [OF assms(3)] by (metis map_filter_empty)
  then obtain type where t: "lookupType key = Some type" "type = TInt \<longrightarrow> parseInt value"
    "type = TBool \<longrightarrow> value \<in> {''true'', ''false'', ''1'', ''0''}"
    by (auto simp: entryProblem_None)
  moreover have "type = TInt \<longrightarrow> (\<exists>i. stoi value = Some (i, length value) \<and> (\<forall>d. getIntConfig m key d = i))"
    using t(2) parseInt_get [of "value"] assms(3) by (auto simp: getIntConfig_def)
  moreover have "type = TBool \<longrightarrow> getBoolConfig m key True = getBoolConfig m key False"
    using t(3) assms(3) by (auto simp: getBoolConfig_def)
  ultimately show ?thesis by blast
qed

theorem strict_load_typed_witness:
  "\<exists>m type. loadConfig newConfigManager (Some (''config_strict=1'' @ [newline] @ ''buffer_size = 12'')) = (True, m) \<and>
     lookupType ''buffer_size'' = Some type"
proof -
  let ?f = "''config_strict=1'' @ [newline] @ ''buffer_size = 12''"
  have lines: "getlines ?f = [''config_strict=1'', ''buffer_size = 12'']"
    by (simp add: getlines_def newline_def)
  have p: "parseLine ''config_strict=1'' = Some (''config_strict'', ''1'')"
    "parseLine ''buffer_size = 12'' = Some (''buffer_size'', ''12'')"
    by (simp_all add: parseLine_def stripComment_def find_from.simps trim_value_def
        find_first_not_of_def find_last_not_of_def blanks_def substr_def)
  have stored: "fold storeLine [''config_strict=1'', ''buffer_size = 12''] [] =
      [(''config_strict'', ''1''), (''buffer_size'', ''12'')]"
    by (simp add: storeLine_def p)
  have loaded: "loadConfig newConfigManager (Some ?f) =
      validate \<lparr>config = [(''config_strict'', ''1''), (''buffer_size'', ''12'')], validationProblems = []\<rparr>"
    by (simp only: loadConfig_def option.case lines stored)
  have keys: "lookupType ''config_strict'' = Some TBool" "lookupType ''buffer_size'' = Some TInt"
    by (simp_all add: lookupType_def exactKeys_def)
  have "entryProblem (''config_strict'', ''1'') = None" "entryProblem (''buffer_size'', ''12'') = None"
    by (simp_all add: entryProblem_None keys parseInt_def stoi_def sto_signed_def scan_int_def
        text_eval dec_value_def)
  then obtain m where m: "loadConfig newConfigManager (Some ?f) = (True, m)"
    "config m = [(''config_strict'', ''1''), (''buffer_size'', ''12'')]"
    unfolding loaded by (simp add: validate_def map_filter_def)
  have "getBoolConfig m ''config_strict'' False" by (simp add: getBoolConfig_def m(2))
  from strict_load_typed [OF m(1) this, of "''buffer_size''" "''12''"] m show ?thesis by auto
qed

text \<open>
  The loader reads back what is written: a file of well-formed \<open>key=value\<close>
  lines yields, for every key, the value of its last line, and nothing else.
\<close>

theorem config_roundtrip:
  assumes "\<forall>kv\<in>set kvs. writable kv"
  shows "getConfig (snd (loadConfig m (Some (concat (map (\<lambda>kv. entryLine kv @ [newline]) kvs))))) k =
     (case map_of (rev kvs) k of None \<Rightarrow> [] | Some v \<Rightarrow> v)"
proof -
  have "getlines (concat (map (\<lambda>l. l @ [newline]) (map entryLine kvs))) = map entryLine kvs"
    by (rule getlines_concat) (use assms in \<open>auto simp: entryLine_def writable_def newline_def\<close>)
  then show ?thesis
    using map_of_store_entries [OF assms, of "[]"]
    by (simp add: loadConfig_def validate_def Let_def getConfig_def comp_def)
qed

theorem config_roundtrip_witness:
  "getConfig (snd (loadConfig newConfigManager (Some (concat (map (\<lambda>kv. entryLine kv @ [newline])
     [(''a'', ''1''), (''b'', ''x y''), (''a'', ''2'')]))))) ''a'' = ''2''"
  using config_roundtrip [of "[(''a'', ''1''), (''b'', ''x y''), (''a'', ''2'')]" newConfigManager "''a''"]
  by (simp add: writable_def unblank_def blanks_def newline_def)

text \<open>
  A key with nothing after its equals sign never reaches the validation: the
  file is loaded, even strictly, as if the line were not there.
\<close>

theorem empty_value_ignored:
  assumes "CHR ''='' \<notin> set k" "CHR ''#'' \<notin> set k" "newline \<notin> set k"
  shows "loadConfig m (Some (k @ CHR ''='' # newline # content)) = loadConfig m (Some content)"
proof -
  have "parseLine (k @ [CHR ''='']) = None"
    using assms(1,2) by (simp add: parseLine_def stripComment_def find_from_none takeWhile_upto)
  moreover have "split_fields newline ((k @ [CHR ''='']) @ newline # content) =
      (k @ [CHR ''='']) # split_fields newline content"
    by (rule split_fields_append) (use assms(3) in \<open>simp add: newline_def\<close>)
  then have "getlines (k @ CHR ''='' # newline # content) = (k @ [CHR ''='']) # getlines content"
    by (simp add: getlines_def Let_def)
  ultimately show ?thesis by (simp add: loadConfig_def storeLine_def)
qed

theorem empty_value_ignored_witness:
  "loadConfig newConfigManager (Some (''bufer_size'' @ CHR ''='' # newline # ''config_strict=1'')) =
   loadConfig newConfigManager (Some ''config_strict=1'')"
  by (rule empty_value_ignored) (simp_all add: newline_def)

end
