(* ===== verification/Disk.thy ===== *)
theory Disk
  imports Cpp_Text "HOL-Library.AList" "HOL-Library.Sublist"
begin

text \<open>
  The part of the file system the program uses, as \<open>std::filesystem\<close> and the
  file streams present it: a table from absolute paths to directories and files.
  Queries answer from the table.  Every operation that changes it can fail, with a
  partial effect where the real one has one, and the process can die before it: the
  script of a world says what happens to the operations to come, so that a theorem
  about all scripts is a theorem about all failures and all crash points.
  \<open>fsync\<close> has no effect here: a crash is that of the process, and what was
  renamed into place stays.
\<close>

type_synonym path = "string list"

datatype node = Dir | File string

type_synonym disk = "(path \<times> node) list"

datatype outcome = Done | Failed nat | Crashed

record World =
  disk :: disk
  script :: "outcome list"

section \<open>Queries\<close>

definition lookup :: "disk \<Rightarrow> path \<Rightarrow> node option" where
  "lookup d p = map_of d p"

definition isDirectory :: "disk \<Rightarrow> path \<Rightarrow> bool" where
  "isDirectory d p \<longleftrightarrow> p = [] \<or> lookup d p = Some Dir"

definition pathExists :: "disk \<Rightarrow> path \<Rightarrow> bool" where
  "pathExists d p \<longleftrightarrow> p = [] \<or> lookup d p \<noteq> None"

definition readFile :: "disk \<Rightarrow> path \<Rightarrow> string option" where
  "readFile d p = (case lookup d p of Some (File c) \<Rightarrow> Some c | _ \<Rightarrow> None)"

text \<open>The entries of a directory, and everything below it, each path once.\<close>

definition childOf :: "path \<Rightarrow> path \<Rightarrow> bool" where
  "childOf p q \<longleftrightarrow> q \<noteq> [] \<and> butlast q = p"

definition entries :: "disk \<Rightarrow> path \<Rightarrow> path list" where
  "entries d p = remdups (filter (childOf p) (map fst d))"

definition below :: "disk \<Rightarrow> path \<Rightarrow> path list" where
  "below d p = remdups (filter (\<lambda>q. strict_prefix p q) (map fst d))"

definition parentPath :: "path \<Rightarrow> path" where
  "parentPath p = butlast p"

text \<open>\<open>target.string() + ".tmp"\<close>.\<close>

definition temporaryOf :: "path \<Rightarrow> path" where
  "temporaryOf p = butlast p @ [last p @ ''.tmp'']"

section \<open>Operations\<close>

text \<open>
  An operation is given by what it does to the table, \<open>None\<close> where it is an error,
  and by what a failure after \<open>n\<close> of its parts leaves behind.
\<close>

definition perform :: "(disk \<Rightarrow> disk option) \<Rightarrow> (nat \<Rightarrow> disk \<Rightarrow> disk) \<Rightarrow> World \<Rightarrow> bool \<times> World" where
  "perform effect broken w =
     (let apply_effect = (\<lambda>w. case effect (disk w) of None \<Rightarrow> (False, w) | Some d \<Rightarrow> (True, w\<lparr>disk := d\<rparr>))
      in case script w of
           [] \<Rightarrow> apply_effect w
         | Done # rest \<Rightarrow> apply_effect (w\<lparr>script := rest\<rparr>)
         | Failed n # rest \<Rightarrow> (False, w\<lparr>disk := broken n (disk w), script := rest\<rparr>)
         | Crashed # rest \<Rightarrow> (False, w))"

fun makeDirs :: "path list \<Rightarrow> disk \<Rightarrow> disk" where
  "makeDirs [] d = d"
| "makeDirs (p # ps) d = makeDirs ps (if lookup d p = None then AList.update p Dir d else d)"

definition ancestors :: "path \<Rightarrow> path list" where
  "ancestors p = map (\<lambda>n. take (Suc n) p) [0..<length p]"

definition createDirectories :: "path \<Rightarrow> World \<Rightarrow> bool \<times> World" where
  "createDirectories p =
     perform (\<lambda>d. if \<exists>q\<in>set (ancestors p). readFile d q \<noteq> None then None else Some (makeDirs (ancestors p) d))
       (\<lambda>n d. makeDirs (takeWhile (\<lambda>q. readFile d q = None) (take n (ancestors p))) d)"

text \<open>Opening a stream with \<open>trunc\<close>, and writing and closing it.\<close>

definition openTrunc :: "path \<Rightarrow> World \<Rightarrow> bool \<times> World" where
  "openTrunc p =
     perform (\<lambda>d. if isDirectory d (parentPath p) \<and> \<not> isDirectory d p then Some (AList.update p (File []) d) else None)
       (\<lambda>n d. d)"

definition writeContent :: "path \<Rightarrow> string \<Rightarrow> World \<Rightarrow> bool \<times> World" where
  "writeContent p content =
     perform (\<lambda>d. if readFile d p \<noteq> None then Some (AList.update p (File content) d) else None)
       (\<lambda>n d. if readFile d p \<noteq> None then AList.update p (File (take n content)) d else d)"

text \<open>\<open>rename\<close> replaces an existing file; these are the cases of files only.\<close>

definition renameFile :: "path \<Rightarrow> path \<Rightarrow> World \<Rightarrow> bool \<times> World" where
  "renameFile p q =
     perform (\<lambda>d. case lookup d p of
          Some (File c) \<Rightarrow> if isDirectory d q \<or> \<not> isDirectory d (parentPath q) then None
                           else Some (AList.update q (File c) (AList.delete p d))
        | _ \<Rightarrow> None)
       (\<lambda>n d. d)"

text \<open>\<open>remove\<close>: a missing path is no error, a directory with entries is.\<close>

definition removePath :: "path \<Rightarrow> World \<Rightarrow> bool \<times> World" where
  "removePath p =
     perform (\<lambda>d. if lookup d p = Some Dir \<and> entries d p \<noteq> [] then None else Some (AList.delete p d))
       (\<lambda>n d. d)"

text \<open>\<open>remove_all\<close> deletes the entries one by one; a failure leaves the rest.\<close>

definition deleteAll :: "path list \<Rightarrow> disk \<Rightarrow> disk" where
  "deleteAll ps d = filter (\<lambda>(q, x). q \<notin> set ps) d"

definition removeAll_tree :: "path \<Rightarrow> World \<Rightarrow> bool \<times> World" where
  "removeAll_tree p =
     perform (\<lambda>d. Some (deleteAll (p # below d p) d)) (\<lambda>n d. deleteAll (take n (below d p)) d)"

section \<open>Lookup after an operation\<close>

lemma lookup_update: "lookup (AList.update p x d) q = (if q = p then Some x else lookup d q)"
  by (simp add: lookup_def update_conv')

lemma lookup_delete: "lookup (AList.delete p d) q = (if q = p then None else lookup d q)"
  by (simp add: lookup_def delete_conv')

lemma lookup_deleteAll: "lookup (deleteAll ps d) q = (if q \<in> set ps then None else lookup d q)"
  unfolding lookup_def deleteAll_def by (induction d) auto

lemma lookup_makeDirs:
  "lookup (makeDirs ps d) q = (if q \<in> set ps \<and> lookup d q = None then Some Dir else lookup d q)"
  by (induction ps d rule: makeDirs.induct) (auto simp: lookup_update)

lemmas disk_lookup = lookup_update lookup_delete lookup_deleteAll lookup_makeDirs

lemma perform_cases:
  assumes "perform effect broken w = (ok, w')"
  obtains (effect) "ok" "Some (disk w') = effect (disk w)"
  | (refused) "\<not> ok" "disk w' = disk w"
  | (broken) n where "\<not> ok" "disk w' = broken n (disk w)"
  using assms
  by (fastforce simp: perform_def Let_def split: list.splits outcome.splits option.splits)

text \<open>Without a script an operation does what it should.\<close>

lemma perform_healthy:
  "script w = [] \<Longrightarrow> perform effect broken w =
     (case effect (disk w) of None \<Rightarrow> (False, w) | Some d \<Rightarrow> (True, w\<lparr>disk := d\<rparr>))"
  by (simp add: perform_def)

lemma ancestors_prefix: "q \<in> set (ancestors p) \<longleftrightarrow> q \<noteq> [] \<and> prefix q p"
proof
  show "q \<in> set (ancestors p) \<Longrightarrow> q \<noteq> [] \<and> prefix q p"
    by (auto simp: ancestors_def take_is_prefix)
next
  assume q: "q \<noteq> [] \<and> prefix q p"
  then have "q = take (Suc (length q - 1)) p" "length q - 1 < length p"
    by (cases q; auto simp: prefix_def)+
  then show "q \<in> set (ancestors p)" unfolding ancestors_def by fastforce
qed

text \<open>Every operation leaves the paths it is not about alone.\<close>

lemma createDirectories_lookup:
  assumes "createDirectories p w = (ok, w')" "\<not> prefix q p \<or> lookup (disk w) q \<noteq> None"
  shows "lookup (disk w') q = lookup (disk w) q"
  using assms(1) unfolding createDirectories_def
  by (cases rule: perform_cases)
    (use assms(2) in \<open>auto simp: lookup_makeDirs ancestors_prefix dest!: in_set_takeD set_takeWhileD split: if_splits\<close>)

lemma createDirectories_made:
  assumes "createDirectories p w = (True, w')" "q \<noteq> []" "prefix q p"
  shows "lookup (disk w') q = Some Dir"
  using assms(1) unfolding createDirectories_def
proof (cases rule: perform_cases)
  case effect
  then have free: "\<forall>q\<in>set (ancestors p). readFile (disk w) q = None"
    and made: "disk w' = makeDirs (ancestors p) (disk w)"
    by (auto split: if_splits)
  have q: "q \<in> set (ancestors p)" using assms(2,3) by (simp add: ancestors_prefix)
  then have "lookup (disk w) q = None \<or> lookup (disk w) q = Some Dir"
    using free by (cases "lookup (disk w) q") (auto simp: readFile_def split: node.splits)
  with q show ?thesis by (auto simp: made lookup_makeDirs)
qed auto

text \<open>Making directories changes no file.\<close>

lemma createDirectories_reads:
  "createDirectories p w = (ok, w') \<Longrightarrow> readFile (disk w') q = readFile (disk w) q"
  unfolding createDirectories_def
  by (erule perform_cases)
    (auto simp: readFile_def lookup_makeDirs dest!: in_set_takeD set_takeWhileD split: if_splits option.splits node.splits)

lemma openTrunc_lookup:
  "openTrunc p w = (ok, w') \<Longrightarrow> q \<noteq> p \<Longrightarrow> lookup (disk w') q = lookup (disk w) q"
  unfolding openTrunc_def by (erule perform_cases) (auto simp: lookup_update split: if_splits)

lemma openTrunc_file: "openTrunc p w = (True, w') \<Longrightarrow> lookup (disk w') p = Some (File [])"
  unfolding openTrunc_def by (erule perform_cases) (auto simp: lookup_update split: if_splits)

lemma writeContent_lookup:
  "writeContent p c w = (ok, w') \<Longrightarrow> q \<noteq> p \<Longrightarrow> lookup (disk w') q = lookup (disk w) q"
  unfolding writeContent_def by (erule perform_cases) (auto simp: lookup_update split: if_splits)

lemma writeContent_file: "writeContent p c w = (True, w') \<Longrightarrow> lookup (disk w') p = Some (File c)"
  unfolding writeContent_def by (erule perform_cases) (auto simp: lookup_update split: if_splits)

lemma renameFile_lookup:
  "renameFile p q w = (ok, w') \<Longrightarrow> r \<noteq> p \<Longrightarrow> r \<noteq> q \<Longrightarrow> lookup (disk w') r = lookup (disk w) r"
  unfolding renameFile_def
  by (erule perform_cases) (auto simp: disk_lookup split: if_splits option.splits node.splits)

lemma renameFile_target:
  "renameFile p q w = (True, w') \<Longrightarrow> \<exists>c. lookup (disk w) p = Some (File c) \<and> lookup (disk w') q = Some (File c)"
  unfolding renameFile_def
  by (erule perform_cases) (auto simp: disk_lookup split: if_splits option.splits node.splits)

lemma renameFile_failed: "renameFile p q w = (False, w') \<Longrightarrow> disk w' = disk w"
  unfolding renameFile_def by (erule perform_cases) auto

lemma removePath_lookup:
  "removePath p w = (ok, w') \<Longrightarrow> q \<noteq> p \<Longrightarrow> lookup (disk w') q = lookup (disk w) q"
  unfolding removePath_def by (erule perform_cases) (auto simp: lookup_delete split: if_splits)

lemma removePath_target:
  "removePath p w = (ok, w') \<Longrightarrow> lookup (disk w') p \<in> {lookup (disk w) p, None}"
  unfolding removePath_def by (erule perform_cases) (auto simp: lookup_delete split: if_splits)

lemma removePath_healthy:
  "script w = [] \<Longrightarrow> lookup (disk w) p \<noteq> Some Dir \<Longrightarrow>
   removePath p w = (True, w\<lparr>disk := AList.delete p (disk w)\<rparr>)"
  by (simp add: removePath_def perform_healthy)

lemma removeAll_lookup:
  "removeAll_tree p w = (ok, w') \<Longrightarrow> \<not> prefix p q \<Longrightarrow> lookup (disk w') q = lookup (disk w) q"
  unfolding removeAll_tree_def
  by (erule perform_cases) (auto simp: lookup_deleteAll below_def dest!: in_set_takeD)

lemma lookup_below: "strict_prefix p q \<Longrightarrow> lookup d q = Some x \<Longrightarrow> q \<in> set (below d p)"
  by (auto simp: below_def lookup_def dest: map_of_SomeD intro: rev_image_eqI)

lemma removeAll_gone:
  "removeAll_tree p w = (True, w') \<Longrightarrow> prefix p q \<Longrightarrow> lookup (disk w') q = None"
  unfolding removeAll_tree_def
proof (erule perform_cases)
  assume "prefix p q" "Some (disk w') = Some (deleteAll (p # below (disk w) p) (disk w))"
  then show ?thesis
    using lookup_below [of p q "disk w"]
    by (cases "lookup (disk w) q") (auto simp: lookup_deleteAll strict_prefix_def)
qed auto

lemmas disk_frames = createDirectories_lookup openTrunc_lookup writeContent_lookup renameFile_lookup
  removePath_lookup removeAll_lookup

section \<open>Trees\<close>

text \<open>Whatever exists, its ancestors are directories: every operation keeps this.\<close>

definition tree :: "disk \<Rightarrow> bool" where
  "tree d \<longleftrightarrow> (\<forall>p x. lookup d p = Some x \<longrightarrow> p \<noteq> [] \<longrightarrow> isDirectory d (butlast p))"

lemma tree_parent: "tree d \<Longrightarrow> lookup d p = Some x \<Longrightarrow> p \<noteq> [] \<Longrightarrow> isDirectory d (butlast p)"
  by (simp add: tree_def)

lemma tree_ancestors:
  assumes "tree d" "lookup d p = Some x" "strict_prefix q p" "q \<noteq> []"
  shows "lookup d q = Some Dir"
  using assms(2,3)
proof (induction p arbitrary: x rule: rev_induct)
  case (snoc a p)
  then have "prefix q p" by (auto simp: strict_prefix_def)
  moreover have "isDirectory d p" using tree_parent [OF assms(1) snoc.prems(1)] by simp
  ultimately show ?case
    using snoc.IH assms(4) by (cases "q = p") (auto simp: isDirectory_def strict_prefix_def)
qed simp

lemma tree_update:
  assumes "tree d" "isDirectory d (butlast p)" "lookup d p = Some Dir \<Longrightarrow> x = Dir"
  shows "tree (AList.update p x d)"
  unfolding tree_def
proof (intro allI impI)
  fix q y
  assume q: "lookup (AList.update p x d) q = Some y" "q \<noteq> []"
  then have "isDirectory d (butlast q)"
    using assms(1,2) by (cases "q = p") (auto simp: lookup_update tree_def)
  then show "isDirectory (AList.update p x d) (butlast q)"
    using assms(3) by (auto simp: isDirectory_def lookup_update)
qed

lemma tree_delete:
  assumes "tree d" "lookup d p = Some Dir \<Longrightarrow> entries d p = []"
  shows "tree (AList.delete p d)"
  unfolding tree_def
proof (intro allI impI)
  fix q y
  assume q: "lookup (AList.delete p d) q = Some y" "q \<noteq> []"
  then have found: "lookup d q = Some y" by (simp add: lookup_delete split: if_splits)
  then have "isDirectory d (butlast q)" using assms(1) q(2) by (simp add: tree_def)
  moreover have "butlast q = p \<Longrightarrow> lookup d p \<noteq> Some Dir"
  proof
    assume "butlast q = p" "lookup d p = Some Dir"
    moreover have "q \<in> fst ` set d" using found by (auto simp: lookup_def dest: map_of_SomeD intro: rev_image_eqI)
    ultimately show False using assms(2) q(2) by (auto simp: entries_def childOf_def filter_empty_conv)
  qed
  ultimately show "isDirectory (AList.delete p d) (butlast q)"
    by (auto simp: isDirectory_def lookup_delete)
qed

lemma tree_makeDirs:
  "tree d \<Longrightarrow> \<forall>q\<in>set (take n (ancestors p)). readFile d q = None \<Longrightarrow> tree (makeDirs (take n (ancestors p)) d)"
proof (induction n)
  case (Suc n)
  show ?case
  proof (cases "n < length (ancestors p)")
    case True
    let ?q = "ancestors p ! n" and ?d = "makeDirs (take n (ancestors p)) d"
    have split: "take (Suc n) (ancestors p) = take n (ancestors p) @ [?q]"
      using True by (rule take_Suc_conv_app_nth)
    have append: "makeDirs (xs @ ys) d' = makeDirs ys (makeDirs xs d')" for xs ys d'
      by (induction xs d' rule: makeDirs.induct) auto
    have q: "?q = take (Suc n) p" using True by (simp add: ancestors_def)
    have "isDirectory ?d (butlast ?q)"
    proof (cases n)
      case (Suc m)
      then have "butlast ?q = ancestors p ! m" "m < n" using True q by (auto simp: ancestors_def butlast_take)
      moreover have "ancestors p ! m \<in> set (take n (ancestors p))"
        using True \<open>m < n\<close> by (auto simp: in_set_conv_nth)
      moreover have "readFile d (ancestors p ! m) = None"
        using Suc.prems(2) calculation(3) by (simp add: split)
      ultimately show ?thesis
        by (cases "lookup d (ancestors p ! m)")
          (auto simp: isDirectory_def lookup_makeDirs readFile_def split: node.splits)
    qed (use True q in \<open>simp add: isDirectory_def take_Suc ancestors_def neq_Nil_conv split: list.split\<close>)
    moreover have "tree ?d" using Suc by (simp add: split)
    ultimately have "tree (AList.update ?q Dir ?d)" by (intro tree_update) auto
    with \<open>tree ?d\<close> show ?thesis by (simp add: split append)
  qed (use Suc in simp)
qed simp

lemma perform_tree:
  assumes "perform effect broken w = (ok, w')" "tree (disk w)"
    and "\<And>d. effect (disk w) = Some d \<Longrightarrow> tree d" "\<And>n. tree (broken n (disk w))"
  shows "tree (disk w')"
  using assms(1) by (rule perform_cases) (use assms(2-4) in auto)

lemma createDirectories_tree: "createDirectories p w = (ok, w') \<Longrightarrow> tree (disk w) \<Longrightarrow> tree (disk w')"
  unfolding createDirectories_def
proof (erule perform_tree)
  fix n
  assume t: "tree (disk w)"
  let ?P = "\<lambda>q. readFile (disk w) q = None"
  obtain k where k: "takeWhile ?P (take n (ancestors p)) = take k (ancestors p)"
    by (metis takeWhile_eq_take take_take)
  have "\<forall>q\<in>set (take k (ancestors p)). ?P q" by (auto simp: k [symmetric] dest: set_takeWhileD)
  with t show "tree (makeDirs (takeWhile ?P (take n (ancestors p))) (disk w))"
    unfolding k by (intro tree_makeDirs) auto
next
  fix d
  assume "tree (disk w)" "(if \<exists>q\<in>set (ancestors p). readFile (disk w) q \<noteq> None then None
       else Some (makeDirs (ancestors p) (disk w))) = Some d"
  then show "tree d"
    using tree_makeDirs [of "disk w" "length (ancestors p)" p] by (auto split: if_splits)
qed auto

lemma openTrunc_tree: "openTrunc p w = (ok, w') \<Longrightarrow> tree (disk w) \<Longrightarrow> tree (disk w')"
  unfolding openTrunc_def
  by (erule perform_tree) (auto simp: parentPath_def isDirectory_def [of _ p] intro!: tree_update split: if_splits)

lemma writeContent_tree: "writeContent p c w = (ok, w') \<Longrightarrow> tree (disk w) \<Longrightarrow> tree (disk w')"
proof -
  assume t: "tree (disk w)" and w': "writeContent p c w = (ok, w')"
  have "tree (AList.update p (File x) (disk w))" if "readFile (disk w) p \<noteq> None" for x
  proof (rule tree_update [OF t])
    show "isDirectory (disk w) (butlast p)"
      using that tree_parent [OF t, of p] by (cases p) (auto simp: isDirectory_def readFile_def split: option.splits)
  qed (use that in \<open>simp add: readFile_def\<close>)
  then show ?thesis
    using w' t unfolding writeContent_def by (elim perform_tree) (auto split: if_splits)
qed

lemma renameFile_tree: "renameFile p q w = (ok, w') \<Longrightarrow> tree (disk w) \<Longrightarrow> tree (disk w')"
  unfolding renameFile_def
proof (erule perform_tree)
  fix d
  assume t: "tree (disk w)" and d: "(case lookup (disk w) p of
      Some (File c) \<Rightarrow> if isDirectory (disk w) q \<or> \<not> isDirectory (disk w) (parentPath q) then None
                       else Some (AList.update q (File c) (AList.delete p (disk w)))
    | _ \<Rightarrow> None) = Some d"
  then obtain c where c: "lookup (disk w) p = Some (File c)" "\<not> isDirectory (disk w) q"
    "isDirectory (disk w) (butlast q)" "d = AList.update q (File c) (AList.delete p (disk w))"
    by (auto simp: parentPath_def split: option.splits node.splits if_splits)
  then have "tree (AList.delete p (disk w))" using t by (intro tree_delete) auto
  with c show "tree d" by (auto simp: isDirectory_def lookup_delete intro!: tree_update split: if_splits)
qed auto

lemma removePath_tree: "removePath p w = (ok, w') \<Longrightarrow> tree (disk w) \<Longrightarrow> tree (disk w')"
  unfolding removePath_def by (erule perform_tree) (auto intro!: tree_delete split: if_splits)

lemmas tree_steps = createDirectories_tree openTrunc_tree writeContent_tree renameFile_tree removePath_tree

section \<open>Scripts and directories\<close>

lemma perform_script: "perform effect broken w = (ok, w') \<Longrightarrow> script w = [] \<Longrightarrow> script w' = []"
  by (auto simp: perform_def Let_def split: option.splits)

lemma createDirectories_script: "createDirectories p w = (ok, w') \<Longrightarrow> script w = [] \<Longrightarrow> script w' = []"
  unfolding createDirectories_def by (rule perform_script)

lemma openTrunc_script: "openTrunc p w = (ok, w') \<Longrightarrow> script w = [] \<Longrightarrow> script w' = []"
  unfolding openTrunc_def by (rule perform_script)

lemma writeContent_script: "writeContent p c w = (ok, w') \<Longrightarrow> script w = [] \<Longrightarrow> script w' = []"
  unfolding writeContent_def by (rule perform_script)

lemma renameFile_script: "renameFile p q w = (ok, w') \<Longrightarrow> script w = [] \<Longrightarrow> script w' = []"
  unfolding renameFile_def by (rule perform_script)

lemma removePath_script: "removePath p w = (ok, w') \<Longrightarrow> script w = [] \<Longrightarrow> script w' = []"
  unfolding removePath_def by (rule perform_script)

text \<open>Only \<open>create_directories\<close> makes directories, and only on the way to its path.\<close>

lemma createDirectories_dirs:
  "createDirectories p w = (ok, w') \<Longrightarrow> lookup (disk w') q = Some Dir \<Longrightarrow> lookup (disk w) q = Some Dir \<or> prefix q p"
  using createDirectories_lookup by metis

lemma openTrunc_dirs: "openTrunc p w = (ok, w') \<Longrightarrow> lookup (disk w') q = Some Dir \<Longrightarrow> lookup (disk w) q = Some Dir"
  unfolding openTrunc_def by (erule perform_cases) (auto simp: lookup_update split: if_splits)

lemma writeContent_dirs: "writeContent p c w = (ok, w') \<Longrightarrow> lookup (disk w') q = Some Dir \<Longrightarrow> lookup (disk w) q = Some Dir"
  unfolding writeContent_def by (erule perform_cases) (auto simp: lookup_update split: if_splits)

lemma renameFile_dirs: "renameFile p r w = (ok, w') \<Longrightarrow> lookup (disk w') q = Some Dir \<Longrightarrow> lookup (disk w) q = Some Dir"
  unfolding renameFile_def
  by (erule perform_cases) (auto simp: disk_lookup split: if_splits option.splits node.splits)

lemma removePath_dirs: "removePath p w = (ok, w') \<Longrightarrow> lookup (disk w') q = Some Dir \<Longrightarrow> lookup (disk w) q = Some Dir"
  unfolding removePath_def by (erule perform_cases) (auto simp: lookup_delete split: if_splits)

end
