(* ===== verification/Event_State.thy ===== *)
theory Event_State
  imports Disk
begin

text \<open>
  \<open>event_state.hpp\<close>: the marker files of an event directory.  \<open>.pending\<close> is
  written when a capture is accepted and replaced by \<open>.complete\<close> or
  \<open>.failed\<close>; at the next start \<open>reconcile\<close> settles what a crash left
  pending.  The locale states what any writer of whole files promises; the writer of
  this file and the one of the storage worker both implement it.
\<close>

section \<open>Writers of whole files\<close>

locale marker_writer =
  fixes put :: "path \<Rightarrow> string \<Rightarrow> World \<Rightarrow> bool \<times> World"
  assumes put_done: "p \<noteq> [] \<Longrightarrow> put p c w = (True, w') \<Longrightarrow> lookup (disk w') p = Some (File c)"
    and put_failed: "p \<noteq> [] \<Longrightarrow> put p c w = (False, w') \<Longrightarrow> lookup (disk w') p \<in> {lookup (disk w) p, None}"
    and put_frame: "p \<noteq> [] \<Longrightarrow> put p c w = (ok, w') \<Longrightarrow> q \<noteq> p \<Longrightarrow> q \<noteq> temporaryOf p \<Longrightarrow>
      \<not> prefix q p \<or> lookup (disk w) q \<noteq> None \<Longrightarrow> lookup (disk w') q = lookup (disk w) q"
    and put_tree: "p \<noteq> [] \<Longrightarrow> put p c w = (ok, w') \<Longrightarrow> tree (disk w) \<Longrightarrow> tree (disk w')"
begin

text \<open>A file that was not there is afterwards absent or whole, never torn.\<close>

lemma put_fresh:
  assumes "p \<noteq> []" "put p c w = (ok, w')" "lookup (disk w) p = None"
  shows "lookup (disk w') p = (if ok then Some (File c) else None)"
  using assms put_done [of p c w w'] put_failed [of p c w w'] by (cases ok) auto

lemma put_present: "p \<noteq> [] \<Longrightarrow> put p c w = (ok, w') \<Longrightarrow> lookup (disk w) p = None \<Longrightarrow>
    lookup (disk w') p \<noteq> None \<longleftrightarrow> ok"
  using put_fresh by simp

end

text \<open>A stricter contract: a failure leaves the old file.\<close>

locale atomic_writer = marker_writer +
  assumes put_old: "p \<noteq> [] \<Longrightarrow> put p c w = (False, w') \<Longrightarrow> lookup (disk w') p = lookup (disk w) p"
begin

lemma put_keeps: "p \<noteq> [] \<Longrightarrow> put p c w = (ok, w') \<Longrightarrow> lookup (disk w) p \<noteq> None \<Longrightarrow> lookup (disk w') p \<noteq> None"
  using put_done [of p c w w'] put_old [of p c w w'] by (cases ok) auto

end

section \<open>Operations\<close>

definition writeAtomically :: "path \<Rightarrow> string \<Rightarrow> World \<Rightarrow> bool \<times> World" where
  "writeAtomically target content w0 =
     (let (created, w1) = createDirectories (parentPath target) w0 in
      if \<not> created then (False, w1)
      else
        let temporary = temporaryOf target;
            (opened, w2) = openTrunc temporary w1
        in if \<not> opened then (False, w2)
           else
             let (written, w3) = writeContent temporary content w2
             in if \<not> written then (False, snd (removePath temporary w3))
                else
                  let (renamed, w4) = renameFile temporary target w3;
                      (renamed, w5) = (if renamed then (True, w4)
                        else renameFile temporary target (snd (removePath target w4)))
                  in if \<not> renamed then (False, snd (removePath temporary w5)) else (True, w5))"

definition event_begin :: "path \<Rightarrow> string \<Rightarrow> int \<Rightarrow> World \<Rightarrow> bool \<times> World" where
  "event_begin directory eventName acceptedAtNs =
     writeAtomically (directory @ [''.pending''])
       (''event='' @ eventName @ [newline] @ ''accepted_at_ns='' @ int_to_string acceptedAtNs @ [newline])"

definition event_fail :: "path \<Rightarrow> string \<Rightarrow> int \<Rightarrow> World \<Rightarrow> bool \<times> World" where
  "event_fail directory why nowNs w =
     (let (written, w1) = writeAtomically (directory @ [''.failed''])
            (''reason='' @ why @ [newline] @ ''failed_at_ns='' @ int_to_string nowNs @ [newline]) w
      in if written
         then (True, snd (removePath (directory @ [''.complete''])
                            (snd (removePath (directory @ [''.pending'']) w1))))
         else (False, w1))"

definition event_complete :: "path \<Rightarrow> nat \<Rightarrow> World \<Rightarrow> bool \<times> World" where
  "event_complete directory recordCount w =
     (let (written, w1) = writeAtomically (directory @ [''.complete''])
            (''records='' @ nat_to_string recordCount @ [newline]) w
      in if written
         then (True, snd (removePath (directory @ [''.failed''])
                            (snd (removePath (directory @ [''.pending'']) w1))))
         else (False, w1))"

record ReconcileResult =
  recoveredFailures :: nat
  clearedPending :: nat

definition reconcileEntry :: "int \<Rightarrow> path \<Rightarrow> ReconcileResult \<times> World \<Rightarrow> ReconcileResult \<times> World" where
  "reconcileEntry nowNs directory = (\<lambda>(result, w).
     if \<not> isDirectory (disk w) directory \<or> \<not> pathExists (disk w) (directory @ [''.pending'']) then (result, w)
     else if pathExists (disk w) (directory @ [''.complete'']) \<or> pathExists (disk w) (directory @ [''.failed''])
     then (result\<lparr>clearedPending := Suc (clearedPending result)\<rparr>,
           snd (removePath (directory @ [''.pending'']) w))
     else
       let (failed, w') = event_fail directory ''crash_recovery'' nowNs w
       in (if failed then result\<lparr>recoveredFailures := Suc (recoveredFailures result)\<rparr> else result, w'))"

definition reconcile :: "path \<Rightarrow> int \<Rightarrow> World \<Rightarrow> ReconcileResult \<times> World" where
  "reconcile root nowNs w =
     fold (reconcileEntry nowNs) (entries (disk w) root)
       (\<lparr>recoveredFailures = 0, clearedPending = 0\<rparr>, w)"

section \<open>The writer keeps its contract\<close>

lemma temporaryOf_distinct [simp]: "p \<noteq> [] \<Longrightarrow> temporaryOf p \<noteq> p"
  by (cases p rule: rev_cases) (auto simp: temporaryOf_def)

lemma not_prefix_parent: "p \<noteq> [] \<Longrightarrow> \<not> prefix p (parentPath p)"
  by (metis append_butlast_last_id append_Nil2 parentPath_def prefix_order.antisym prefixI
      same_append_eq list.distinct(1))

lemma prefix_parent: "prefix q (parentPath p) \<Longrightarrow> prefix q p"
  by (metis parentPath_def prefix_order.trans prefixeq_butlast)

lemma temporaryOf_length: "p \<noteq> [] \<Longrightarrow> length (temporaryOf p) = length p"
  by (simp add: temporaryOf_def)

lemma temporary_not_parent: "p \<noteq> [] \<Longrightarrow> \<not> prefix (temporaryOf p) (parentPath p)"
  by (auto dest!: prefix_length_le simp: temporaryOf_length parentPath_def)
     (metis Suc_n_not_le_n Suc_pred length_greater_0_conv)

text \<open>The ways a call of \<open>writeAtomically\<close> can go, as the steps it makes.\<close>

lemma writeAtomically_steps:
  assumes "writeAtomically p c w = (ok, w')"
  obtains (early) "\<not> ok" "createDirectories (parentPath p) w = (False, w')"
  | (unopened) w1 where "\<not> ok" "createDirectories (parentPath p) w = (True, w1)"
      "openTrunc (temporaryOf p) w1 = (False, w')"
  | (unwritten) w1 w2 w3 b where "\<not> ok" "createDirectories (parentPath p) w = (True, w1)"
      "openTrunc (temporaryOf p) w1 = (True, w2)" "writeContent (temporaryOf p) c w2 = (False, w3)"
      "removePath (temporaryOf p) w3 = (b, w')"
  | (renamed) w1 w2 w3 where "ok" "createDirectories (parentPath p) w = (True, w1)"
      "openTrunc (temporaryOf p) w1 = (True, w2)" "writeContent (temporaryOf p) c w2 = (True, w3)"
      "renameFile (temporaryOf p) p w3 = (True, w')"
  | (retried) w1 w2 w3 w4 w5 w6 b where "createDirectories (parentPath p) w = (True, w1)"
      "openTrunc (temporaryOf p) w1 = (True, w2)" "writeContent (temporaryOf p) c w2 = (True, w3)"
      "renameFile (temporaryOf p) p w3 = (False, w4)" "removePath p w4 = (b, w5)"
      "renameFile (temporaryOf p) p w5 = (ok, w6)"
      "if ok then w' = w6 else w' = snd (removePath (temporaryOf p) w6)"
proof -
  obtain b1 w1 where s1: "createDirectories (parentPath p) w = (b1, w1)" by fastforce
  obtain b2 w2 where s2: "openTrunc (temporaryOf p) w1 = (b2, w2)" by fastforce
  obtain b3 w3 where s3: "writeContent (temporaryOf p) c w2 = (b3, w3)" by fastforce
  obtain b4 w4 where s4: "renameFile (temporaryOf p) p w3 = (b4, w4)" by fastforce
  obtain b5 w5 where s5: "removePath p w4 = (b5, w5)" by fastforce
  obtain b6 w6 where s6: "renameFile (temporaryOf p) p w5 = (b6, w6)" by fastforce
  obtain b7 w7 where s7: "removePath (temporaryOf p) w3 = (b7, w7)" by fastforce
  note run = assms [unfolded writeAtomically_def s1 Let_def prod.case s2 s3 s4]
  show thesis
  proof (cases "b1 \<and> b2 \<and> b3 \<and> \<not> b4")
    case True
    then have b6: "b6 = ok" "if ok then w' = w6 else w' = snd (removePath (temporaryOf p) w6)"
      using run s5 s6 by (auto split: if_splits)
    show ?thesis
    proof (rule retried)
      show "createDirectories (parentPath p) w = (True, w1)" using s1 True by simp
      show "openTrunc (temporaryOf p) w1 = (True, w2)" using s2 True by simp
      show "writeContent (temporaryOf p) c w2 = (True, w3)" using s3 True by simp
      show "renameFile (temporaryOf p) p w3 = (False, w4)" using s4 True by simp
      show "removePath p w4 = (b5, w5)" by (rule s5)
      show "renameFile (temporaryOf p) p w5 = (ok, w6)" using s6 b6(1) by simp
    qed (rule b6(2))
  next
    case False
    then consider "\<not> b1" | "b1" "\<not> b2" | "b1" "b2" "\<not> b3" | "b1" "b2" "b3" "b4" by blast
    then show ?thesis
    proof cases
      case 1
      with run have "\<not> ok" "w' = w1" by auto
      with s1 1 show ?thesis by (intro early) simp_all
    next
      case 2
      with run have "\<not> ok" "w' = w2" by auto
      with s1 s2 2 show ?thesis by (intro unopened [of w1]) simp_all
    next
      case 3
      with run s7 have "\<not> ok" "w' = w7" by auto
      with s1 s2 s3 s7 3 show ?thesis by (intro unwritten [of w1 w2 w3 b7]) simp_all
    next
      case 4
      with run have "ok" "w' = w4" by auto
      with s1 s2 s3 s4 4 show ?thesis by (intro renamed [of w1 w2 w3]) simp_all
    qed
  qed
qed

lemma removePath_other: "q \<noteq> p \<Longrightarrow> lookup (disk (snd (removePath p w))) q = lookup (disk w) q"
  using removePath_lookup [of p w "fst (removePath p w)" "snd (removePath p w)" q] by simp

lemma write_frame:
  assumes "p \<noteq> []" "writeAtomically p c w = (ok, w')" "q \<noteq> p" "q \<noteq> temporaryOf p"
    and "\<not> prefix q p \<or> lookup (disk w) q \<noteq> None"
  shows "lookup (disk w') q = lookup (disk w) q"
proof -
  have made: "lookup (disk w1) q = lookup (disk w) q" if "createDirectories (parentPath p) w = (b, w1)" for b w1
    using createDirectories_lookup [OF that] assms(5) prefix_parent by blast
  from assms(2) show ?thesis
  proof (cases rule: writeAtomically_steps)
    case (retried w1 w2 w3 w4 w5 w6 b)
    have "lookup (disk w6) q = lookup (disk w) q"
      using made [OF retried(1)] openTrunc_lookup [OF retried(2)] writeContent_lookup [OF retried(3)]
        renameFile_lookup [OF retried(4)] removePath_lookup [OF retried(5)]
        renameFile_lookup [OF retried(6)] assms(3,4) by simp
    moreover have "lookup (disk w') q = lookup (disk w6) q"
      using retried(7) assms(4) by (auto simp: removePath_other split: if_splits)
    ultimately show ?thesis by simp
  qed (use made openTrunc_lookup writeContent_lookup renameFile_lookup removePath_lookup assms(3,4) in metis)+
qed

lemma write_tree:
  assumes "writeAtomically p c w = (ok, w')" "tree (disk w)"
  shows "tree (disk w')"
  using assms(1)
proof (cases rule: writeAtomically_steps)
  case (retried w1 w2 w3 w4 w5 w6 b)
  have "tree (disk w6)"
    using createDirectories_tree [OF retried(1) assms(2)] openTrunc_tree [OF retried(2)]
      writeContent_tree [OF retried(3)] renameFile_tree [OF retried(4)] removePath_tree [OF retried(5)]
      renameFile_tree [OF retried(6)] by simp
  then show ?thesis using retried(7) removePath_tree [of "temporaryOf p" w6]
    by (metis surjective_pairing)
qed (use assms(2) tree_steps in metis)+

text \<open>The target after a run of \<open>writeAtomically\<close>.\<close>

lemma write_target_before:
  assumes "p \<noteq> []" "createDirectories (parentPath p) w = (b, w1)" "openTrunc (temporaryOf p) w1 = (b', w2)"
  shows "lookup (disk w2) p = lookup (disk w) p"
  using createDirectories_lookup [OF assms(2), of p] openTrunc_lookup [OF assms(3), of p]
    not_prefix_parent [OF assms(1)] temporaryOf_distinct [OF assms(1)] by metis

lemma write_done:
  assumes "p \<noteq> []" "writeAtomically p c w = (True, w')"
  shows "lookup (disk w') p = Some (File c)"
proof -
  note tmp = temporaryOf_distinct [OF assms(1)]
  from assms(2) show ?thesis
  proof (cases rule: writeAtomically_steps)
    case (renamed w1 w2 w3)
    then show ?thesis using writeContent_file [OF renamed(4)] renameFile_target [OF renamed(5)] by auto
  next
    case (retried w1 w2 w3 w4 w5 w6 b)
    have "lookup (disk w5) (temporaryOf p) = Some (File c)"
      using writeContent_file [OF retried(3)] renameFile_failed [OF retried(4)]
        removePath_lookup [OF retried(5)] tmp by metis
    with retried(6,7) renameFile_target [OF retried(6) [simplified]] show ?thesis by auto
  qed auto
qed

lemma write_failed:
  assumes "p \<noteq> []" "writeAtomically p c w = (False, w')"
  shows "lookup (disk w') p \<in> {lookup (disk w) p, None}"
proof -
  note tmp = temporaryOf_distinct [OF assms(1)]
  from assms(2) show ?thesis
  proof (cases rule: writeAtomically_steps)
    case early
    then show ?thesis using createDirectories_lookup not_prefix_parent [OF assms(1)] by auto
  next
    case (unopened w1)
    then show ?thesis using write_target_before [OF assms(1) unopened(2,3)] by simp
  next
    case (unwritten w1 w2 w3 b)
    have "lookup (disk w3) p = lookup (disk w2) p" "lookup (disk w') p = lookup (disk w3) p"
      using writeContent_lookup [OF unwritten(4), of p] removePath_lookup [OF unwritten(5), of p] tmp
      by auto
    then show ?thesis using write_target_before [OF assms(1) unwritten(2,3)] by simp
  next
    case (retried w1 w2 w3 w4 w5 w6 b)
    have "lookup (disk w4) p = lookup (disk w) p"
      using write_target_before [OF assms(1) retried(1,2)] writeContent_lookup [OF retried(3), of p]
        renameFile_failed [OF retried(4)] tmp by metis
    moreover have "lookup (disk w5) p \<in> {lookup (disk w4) p, None}"
      by (rule removePath_target [OF retried(5)])
    moreover have "lookup (disk w') p = lookup (disk w5) p"
      using retried(7) renameFile_failed [OF retried(6)] removePath_other tmp by metis
    ultimately show ?thesis by auto
  qed auto
qed

interpretation event_writer: marker_writer writeAtomically
  by unfold_locales (rule write_done write_failed write_frame write_tree; assumption)+

lemma write_dirs:
  assumes "writeAtomically p c w = (ok, w')" "lookup (disk w') q = Some Dir"
  shows "lookup (disk w) q = Some Dir \<or> prefix q (parentPath p)"
  using assms(1)
proof (cases rule: writeAtomically_steps)
  case early
  then show ?thesis using createDirectories_dirs assms(2) by blast
next
  case (unopened w1)
  then show ?thesis using createDirectories_dirs openTrunc_dirs assms(2) by blast
next
  case (unwritten w1 w2 w3 b)
  then show ?thesis
    using createDirectories_dirs [OF unwritten(2)] openTrunc_dirs [OF unwritten(3)]
      writeContent_dirs [OF unwritten(4)] removePath_dirs [OF unwritten(5)] assms(2) by blast
next
  case (renamed w1 w2 w3)
  then show ?thesis
    using createDirectories_dirs [OF renamed(2)] openTrunc_dirs [OF renamed(3)]
      writeContent_dirs [OF renamed(4)] renameFile_dirs [OF renamed(5)] assms(2) by blast
next
  case (retried w1 w2 w3 w4 w5 w6 b)
  have "lookup (disk w6) q = Some Dir"
    using retried(7) assms(2) removePath_dirs [of "temporaryOf p" w6]
    by (metis surjective_pairing)
  then show ?thesis
    using createDirectories_dirs [OF retried(1)] openTrunc_dirs [OF retried(2)]
      writeContent_dirs [OF retried(3)] renameFile_dirs [OF retried(4)]
      removePath_dirs [OF retried(5)] renameFile_dirs [OF retried(6)] by blast
qed

lemma write_script:
  assumes "writeAtomically p c w = (ok, w')" "script w = []"
  shows "script w' = []"
  using assms(1)
proof (cases rule: writeAtomically_steps)
  case (retried w1 w2 w3 w4 w5 w6 b)
  have "script w6 = []"
    using createDirectories_script [OF retried(1) assms(2)] openTrunc_script [OF retried(2)]
      writeContent_script [OF retried(3)] renameFile_script [OF retried(4)]
      removePath_script [OF retried(5)] renameFile_script [OF retried(6)] by simp
  then show ?thesis using retried(7) removePath_script [of "temporaryOf p" w6]
    by (metis surjective_pairing)
qed (use assms(2) createDirectories_script openTrunc_script writeContent_script renameFile_script
    removePath_script in metis)+

text \<open>Without failures the writer succeeds where the names it needs are free.\<close>

lemma write_healthy:
  assumes "p \<noteq> []" "script w = []" "\<forall>q. q \<noteq> [] \<and> prefix q (parentPath p) \<longrightarrow> lookup (disk w) q = Some Dir"
    and "lookup (disk w) (temporaryOf p) \<noteq> Some Dir" "lookup (disk w) p \<noteq> Some Dir"
  shows "\<exists>w'. writeAtomically p c w = (True, w')"
proof -
  let ?t = "temporaryOf p"
  have t: "parentPath ?t = parentPath p" "?t \<noteq> []" by (simp_all add: parentPath_def temporaryOf_def)
  have "\<forall>q\<in>set (ancestors (parentPath p)). readFile (disk w) q = None"
    using assms(3) by (auto simp: ancestors_prefix readFile_def)
  then obtain w1 where c1: "createDirectories (parentPath p) w = (True, w1)"
    using assms(2) by (auto simp: createDirectories_def perform_healthy)
  have dirs: "isDirectory (disk w1) (parentPath p)"
    using createDirectories_made [OF c1, of "parentPath p"] by (auto simp: isDirectory_def)
  have same: "lookup (disk w1) ?t = lookup (disk w) ?t" "lookup (disk w1) p = lookup (disk w) p"
    using createDirectories_lookup [OF c1] not_prefix_parent [OF assms(1)]
      temporary_not_parent [OF assms(1)] by blast+
  have s1: "script w1 = []" by (rule createDirectories_script [OF c1 assms(2)])
  then obtain w2 where c2: "openTrunc ?t w1 = (True, w2)"
    using dirs t same assms(4) by (auto simp: openTrunc_def perform_healthy isDirectory_def)
  have s2: "script w2 = []" by (rule openTrunc_script [OF c2 s1])
  then obtain w3 where c3: "writeContent ?t c w2 = (True, w3)"
    using openTrunc_file [OF c2] by (auto simp: writeContent_def perform_healthy readFile_def)
  have s3: "script w3 = []" by (rule writeContent_script [OF c3 s2])
  have "lookup (disk w3) p \<noteq> Some Dir" "isDirectory (disk w3) (parentPath p)"
    using openTrunc_lookup [OF c2] writeContent_lookup [OF c3] temporaryOf_distinct [OF assms(1)]
      same(2) assms(5) dirs temporary_not_parent [OF assms(1)]
    by (auto simp: isDirectory_def)
  then obtain w4 where "renameFile ?t p w3 = (True, w4)"
    using s3 writeContent_file [OF c3] assms(1) by (auto simp: renameFile_def perform_healthy isDirectory_def)
  then show ?thesis by (simp add: writeAtomically_def c1 c2 c3)
qed

section \<open>Markers\<close>

abbreviation pendingMark :: "path \<Rightarrow> path" where "pendingMark dir \<equiv> dir @ [''.pending'']"
abbreviation completeMark :: "path \<Rightarrow> path" where "completeMark dir \<equiv> dir @ [''.complete'']"
abbreviation failedMark :: "path \<Rightarrow> path" where "failedMark dir \<equiv> dir @ [''.failed'']"

definition marks :: "disk \<Rightarrow> path \<Rightarrow> bool \<times> bool \<times> bool" where
  "marks d dir = (lookup d (pendingMark dir) \<noteq> None, lookup d (completeMark dir) \<noteq> None,
     lookup d (failedMark dir) \<noteq> None)"

lemma temporaryOf_mark [simp]: "temporaryOf (dir @ [m]) = dir @ [m @ ''.tmp'']"
  by (simp add: temporaryOf_def)

lemma write_mark_frame:
  assumes "writeAtomically (dir @ [m]) c w = (ok, w')" "m' \<noteq> m" "m' \<noteq> m @ ''.tmp''"
  shows "lookup (disk w') (dir @ [m']) = lookup (disk w) (dir @ [m'])"
  using assms by (intro write_frame [of "dir @ [m]"]) auto

lemma remove_mark [simp]:
  "m' \<noteq> m \<Longrightarrow> lookup (disk (snd (removePath (dir @ [m]) w))) (dir @ [m']) = lookup (disk w) (dir @ [m'])"
  by (simp add: removePath_other)

lemma removed_mark:
  "lookup (disk (snd (removePath p w))) p \<in> {lookup (disk w) p, None}"
  using removePath_target [of p w] by (metis surjective_pairing)

lemma begin_marks:
  assumes "event_begin dir name t w = (ok, w')" "marks (disk w) dir = (False, C, F)"
  shows "marks (disk w') dir = (ok, C, F)"
  using assms event_writer.put_present [of "pendingMark dir"]
    write_mark_frame [of dir "''.pending''" _ w ok w' "''.complete''"]
    write_mark_frame [of dir "''.pending''" _ w ok w' "''.failed''"]
  unfolding event_begin_def marks_def by fastforce

lemma complete_marks:
  assumes "event_complete dir n w = (ok, w')" "marks (disk w) dir = (P, False, False)"
  shows "marks (disk w') dir \<in> (if ok then {(P, True, False), (False, True, False)} else {(P, False, False)})"
proof -
  obtain b w1 where put: "writeAtomically (completeMark dir)
      (''records='' @ nat_to_string n @ [newline]) w = (b, w1)" by fastforce
  have "marks (disk w1) dir = (P, b, False)"
    using assms(2) event_writer.put_present [OF _ put]
      write_mark_frame [OF put, of "''.pending''"] write_mark_frame [OF put, of "''.failed''"]
    by (auto simp: marks_def)
  then show ?thesis
    using assms(1) put removed_mark [of "pendingMark dir" w1]
      removed_mark [of "failedMark dir" "snd (removePath (pendingMark dir) w1)"]
    by (auto simp: event_complete_def marks_def split: if_splits)
qed

lemma fail_marks:
  assumes "event_fail dir why t w = (ok, w')" "marks (disk w) dir = (P, False, False)"
  shows "marks (disk w') dir \<in> (if ok then {(P, False, True), (False, False, True)} else {(P, False, False)})"
proof -
  obtain b w1 where put: "writeAtomically (failedMark dir)
      (''reason='' @ why @ [newline] @ ''failed_at_ns='' @ int_to_string t @ [newline]) w = (b, w1)" by fastforce
  have "marks (disk w1) dir = (P, False, b)"
    using assms(2) event_writer.put_present [OF _ put]
      write_mark_frame [OF put, of "''.pending''"] write_mark_frame [OF put, of "''.complete''"]
    by (auto simp: marks_def)
  then show ?thesis
    using assms(1) put removed_mark [of "pendingMark dir" w1]
      removed_mark [of "completeMark dir" "snd (removePath (pendingMark dir) w1)"]
    by (auto simp: event_fail_def marks_def split: if_splits)
qed

section \<open>The life of a capture\<close>

text \<open>
  What the storage worker does with the markers after an event's last batch, and a
  whole life: accepted, worked on, finished.
\<close>

definition finishEvent :: "path \<Rightarrow> bool \<Rightarrow> nat \<Rightarrow> string \<Rightarrow> int \<Rightarrow> World \<Rightarrow> World" where
  "finishEvent dir storageFailed records why nowNs w =
     (if storageFailed then snd (event_fail dir (if why = [] then ''storage_failed'' else why) nowNs w)
      else
        let (written, w1) = event_complete dir records w
        in if \<not> written then snd (event_fail dir ''complete_marker_write_failed'' nowNs w1) else w1)"

definition eventLife ::
  "path \<Rightarrow> string \<Rightarrow> int \<Rightarrow> (World \<Rightarrow> World) \<Rightarrow> bool \<Rightarrow> nat \<Rightarrow> string \<Rightarrow> int \<Rightarrow> World \<Rightarrow> World" where
  "eventLife dir name acceptedAt work storageFailed records why nowNs w =
     (let (ok, w1) = event_begin dir name acceptedAt w
      in if ok then finishEvent dir storageFailed records why nowNs (work w1) else w1)"

text \<open>Work on an event leaves its markers and the names they are written under alone.\<close>

definition keeps_markers :: "path \<Rightarrow> (World \<Rightarrow> World) \<Rightarrow> bool" where
  "keeps_markers dir work \<longleftrightarrow>
     (\<forall>w. tree (disk w) \<longrightarrow> tree (disk (work w)) \<and>
       (\<forall>m\<in>{''.pending'', ''.complete'', ''.failed'', ''.failed.tmp''}.
          lookup (disk (work w)) (dir @ [m]) = lookup (disk w) (dir @ [m])))"

lemma keeps_markers_marks:
  "keeps_markers dir work \<Longrightarrow> tree (disk w) \<Longrightarrow> marks (disk (work w)) dir = marks (disk w) dir"
  by (simp add: keeps_markers_def marks_def)

lemma finish_marks:
  assumes "marks (disk w) dir = (P, False, False)"
  shows "marks (disk (finishEvent dir storageFailed n why t w)) dir \<in>
     {(P, False, False), (P, True, False), (False, True, False), (P, False, True), (False, False, True)}"
proof -
  obtain b w1 where c: "event_complete dir n w = (b, w1)" by fastforce
  obtain b2 w2 where f2: "event_fail dir ''complete_marker_write_failed'' t w1 = (b2, w2)" by fastforce
  obtain b3 w3 where f3: "event_fail dir (if why = [] then ''storage_failed'' else why) t w = (b3, w3)" by fastforce
  have "marks (disk w3) dir \<in> {(P, False, False), (P, False, True), (False, False, True)}"
    using fail_marks [OF f3 assms] by (cases b3) auto
  moreover have "b \<Longrightarrow> marks (disk w1) dir \<in> {(P, True, False), (False, True, False)}"
    "\<not> b \<Longrightarrow> marks (disk w1) dir = (P, False, False)"
    using complete_marks [OF c assms] by auto
  moreover from this(2) have "\<not> b \<Longrightarrow> marks (disk w2) dir \<in> {(P, False, False), (P, False, True), (False, False, True)}"
    using fail_marks [OF f2] by (cases b2) auto
  ultimately show ?thesis
    by (cases b; cases storageFailed) (auto simp: finishEvent_def c f2 f3)
qed

lemma write_case_tree: "tree (disk w) \<Longrightarrow> tree (disk (snd (writeAtomically p c w)))"
  by (metis surjective_pairing write_tree)

lemma remove_case_tree: "tree (disk w) \<Longrightarrow> tree (disk (snd (removePath p w)))"
  by (metis surjective_pairing removePath_tree)

lemma markers_tree:
  "tree (disk w) \<Longrightarrow> tree (disk (snd (event_begin dir name t w)))"
  "tree (disk w) \<Longrightarrow> tree (disk (snd (event_fail dir why t w)))"
  "tree (disk w) \<Longrightarrow> tree (disk (snd (event_complete dir n w)))"
  by (auto simp: event_begin_def event_fail_def event_complete_def Let_def case_prod_beta
      write_case_tree remove_case_tree)

lemma finish_tree: "tree (disk w) \<Longrightarrow> tree (disk (finishEvent dir b n why t w))"
  by (auto simp: finishEvent_def case_prod_beta Let_def markers_tree)

text \<open>No step on the markers turns \<open>.pending\<close>, \<open>.failed\<close> or its temporary file into a directory.\<close>

definition failable :: "disk \<Rightarrow> path \<Rightarrow> bool" where
  "failable d dir \<longleftrightarrow> lookup d (pendingMark dir) \<noteq> Some Dir \<and> lookup d (failedMark dir) \<noteq> Some Dir \<and>
      lookup d (dir @ [''.failed.tmp'']) \<noteq> Some Dir"

lemma write_failable:
  assumes "writeAtomically (e @ [m]) c w = (ok, w')" "length e \<le> length dir" "failable (disk w) dir"
  shows "failable (disk w') dir"
proof -
  have "\<not> prefix (dir @ [x]) (parentPath (e @ [m]))" for x
    using assms(2) prefix_length_le [of "dir @ [x]" e] by (auto simp: parentPath_def)
  then show ?thesis
    using assms(3) write_dirs [OF assms(1)] unfolding failable_def by blast
qed

lemma remove_failable: "failable (disk w) dir \<Longrightarrow> failable (disk (snd (removePath p w))) dir"
  using removePath_dirs [of p w "fst (removePath p w)" "snd (removePath p w)"] by (auto simp: failable_def)

lemma markers_failable:
  assumes "length e \<le> length dir" "failable (disk w) dir"
  shows "failable (disk (snd (event_begin e name t w))) dir"
    "failable (disk (snd (event_fail e why t w))) dir"
    "failable (disk (snd (event_complete e n w))) dir"
proof -
  have put: "failable (disk (snd (writeAtomically (e @ [m]) c w))) dir" for m c
    using write_failable [of e m c w] assms by (metis surjective_pairing)
  then show "failable (disk (snd (event_begin e name t w))) dir"
    "failable (disk (snd (event_fail e why t w))) dir"
    "failable (disk (snd (event_complete e n w))) dir"
    by (auto simp: event_begin_def event_fail_def event_complete_def Let_def case_prod_beta remove_failable)
qed

lemma finish_failable: "failable (disk w) dir \<Longrightarrow> failable (disk (finishEvent dir b n why t w)) dir"
  by (auto simp: finishEvent_def case_prod_beta Let_def markers_failable)

lemma keeps_failable: "keeps_markers dir work \<Longrightarrow> tree (disk w) \<Longrightarrow> failable (disk w) dir \<Longrightarrow> failable (disk (work w)) dir"
  by (simp add: keeps_markers_def failable_def)

lemma fresh_directory:
  assumes "tree d" "lookup d dir = None" "dir \<noteq> []"
  shows "lookup d (dir @ [m]) = None"
proof (rule ccontr)
  assume "lookup d (dir @ [m]) \<noteq> None"
  then have "isDirectory d dir" using tree_parent [OF assms(1), of "dir @ [m]"] by auto
  with assms(2,3) show False by (simp add: isDirectory_def)
qed

text \<open>The disk at any crash point of a life that began with a fresh directory.\<close>

lemma life_state:
  assumes "tree (disk w)" "lookup (disk w) dir = None" "dir \<noteq> []" "keeps_markers dir work"
    and w'_def: "w' = eventLife dir name at work b n why t w"
  shows "tree (disk w')" "failable (disk w') dir"
    "marks (disk w') dir \<in> {(False, False, False), (True, False, False), (True, True, False),
       (False, True, False), (True, False, True), (False, False, True)}"
proof -
  obtain ok w1 where b: "event_begin dir name at w = (ok, w1)" by fastforce
  have fresh: "marks (disk w) dir = (False, False, False)" "failable (disk w) dir"
    using fresh_directory [OF assms(1-3)] by (simp_all add: marks_def failable_def)
  have w1: "tree (disk w1)" "failable (disk w1) dir" "marks (disk w1) dir = (ok, False, False)"
    using markers_tree(1) [OF assms(1), of dir name at] markers_failable(1) [OF order_refl fresh(2), of name at]
      begin_marks [OF b fresh(1)] by (simp_all add: b)
  note kept = keeps_markers_marks [OF assms(4) w1(1)] keeps_failable [OF assms(4) w1(1,2)]
  have work: "tree (disk (work w1))" using assms(4) w1(1) by (simp add: keeps_markers_def)
  have w': "w' = (if ok then finishEvent dir b n why t (work w1) else w1)"
    by (simp add: w'_def eventLife_def b)
  show "tree (disk w')" "failable (disk w') dir"
    using w1(1,2) kept(2) work by (simp_all add: w' finish_tree finish_failable)
  show "marks (disk w') dir \<in> {(False, False, False), (True, False, False), (True, True, False),
       (False, True, False), (True, False, True), (False, False, True)}"
    using w1(3) kept(1) finish_marks [of "work w1" dir ok b n why t] by (auto simp: w')
qed

section \<open>Recovery\<close>

lemma event_fail_healthy:
  assumes "script w = []" "tree (disk w)" "dir \<noteq> []" "failable (disk w) dir"
    and "marks (disk w) dir = (True, False, False)"
  shows "marks (disk (snd (event_fail dir why t w))) dir = (False, False, True)"
proof -
  have "\<forall>q. q \<noteq> [] \<and> prefix q dir \<longrightarrow> lookup (disk w) q = Some Dir"
    using assms(2,5) tree_ancestors [of "disk w" "pendingMark dir"]
    by (force simp: marks_def strict_prefix_def)
  then obtain w1 where put: "writeAtomically (failedMark dir)
      (''reason='' @ why @ [newline] @ ''failed_at_ns='' @ int_to_string t @ [newline]) w = (True, w1)"
    using write_healthy [of "failedMark dir" w] assms(1,4) by (auto simp: failable_def parentPath_def)
  have w1: "marks (disk w1) dir = (True, False, True)" "script w1 = []"
    "lookup (disk w1) (pendingMark dir) \<noteq> Some Dir"
    using assms(4,5) event_writer.put_present [OF _ put] write_mark_frame [OF put, of "''.pending''"]
      write_mark_frame [OF put, of "''.complete''"] write_script [OF put assms(1)]
    by (auto simp: marks_def failable_def)
  then have "removePath (pendingMark dir) w1 = (True, w1\<lparr>disk := AList.delete (pendingMark dir) (disk w1)\<rparr>)"
    by (intro removePath_healthy)
  with w1(1) show ?thesis
    using put removed_mark [of "completeMark dir" "snd (removePath (pendingMark dir) w1)"]
    by (auto simp: event_fail_def marks_def lookup_delete)
qed

text \<open>Reconciling another directory leaves this one alone.\<close>

lemma write_other_dir:
  assumes "length e = length dir" "e \<noteq> dir"
  shows "lookup (disk (snd (writeAtomically (e @ [m]) c w))) (dir @ [x]) = lookup (disk w) (dir @ [x])"
proof -
  obtain ok w' where run: "writeAtomically (e @ [m]) c w = (ok, w')" by fastforce
  have "\<not> prefix (dir @ [x]) (e @ [m])"
  proof
    assume "prefix (dir @ [x]) (e @ [m])"
    then obtain z where z: "e @ [m] = (dir @ [x]) @ z" unfolding prefix_def by blast
    from arg_cong [OF z, of length] assms(1) have "z = []" by simp
    with z assms(2) show False by simp
  qed
  then show ?thesis using write_frame [OF _ run, of "dir @ [x]"] assms(2) by (simp add: run)
qed

lemma remove_other_dir:
  "e \<noteq> dir \<Longrightarrow> lookup (disk (snd (removePath (e @ [m]) w))) (dir @ [x]) = lookup (disk w) (dir @ [x])"
  by (simp add: removePath_other)

lemma fail_other_dir:
  "length e = length dir \<Longrightarrow> e \<noteq> dir \<Longrightarrow>
   lookup (disk (snd (event_fail e why t w))) (dir @ [x]) = lookup (disk w) (dir @ [x])"
  by (auto simp: event_fail_def case_prod_beta Let_def write_other_dir remove_other_dir)

lemma fail_script: "script w = [] \<Longrightarrow> script (snd (event_fail e why t w)) = []"
proof -
  assume s: "script w = []"
  have "script (snd (writeAtomically p c w)) = []" for p c
    using write_script [of p c w "fst (writeAtomically p c w)"] s by simp
  moreover have "script (snd (removePath p v)) = []" if "script v = []" for p v
    using removePath_script [of p v "fst (removePath p v)"] that by simp
  ultimately show ?thesis by (simp add: event_fail_def case_prod_beta Let_def)
qed

lemma reconcile_other:
  assumes "length e = length dir" "e \<noteq> dir"
  shows "lookup (disk (snd (reconcileEntry t e (r, w)))) (dir @ [x]) = lookup (disk w) (dir @ [x])"
  using assms by (auto simp: reconcileEntry_def case_prod_beta Let_def fail_other_dir remove_other_dir)

lemma reconcile_keeps:
  assumes "length e = length dir" "tree (disk w)" "failable (disk w) dir" "script w = []"
  shows "tree (disk (snd (reconcileEntry t e (r, w)))) \<and>
    failable (disk (snd (reconcileEntry t e (r, w)))) dir \<and> script (snd (reconcileEntry t e (r, w))) = []"
proof -
  have "script (snd (removePath p w)) = []" for p
    using removePath_script [of p w "fst (removePath p w)"] assms(4) by simp
  then show ?thesis
    using assms by (auto simp: reconcileEntry_def case_prod_beta Let_def markers_tree remove_case_tree
        markers_failable remove_failable fail_script)
qed

lemma dir_kept:
  assumes "length e = length dir" "e \<noteq> dir" "lookup (disk w) dir = Some Dir"
  shows "lookup (disk (snd (reconcileEntry t e (r, w)))) dir = Some Dir"
proof -
  have remove: "lookup (disk (snd (removePath (e @ [m]) v))) dir = lookup (disk v) dir" for m v
    using assms(1) by (intro removePath_other) auto
  moreover have "lookup (disk (snd (writeAtomically (e @ [m]) c v))) dir = lookup (disk v) dir"
    if "lookup (disk v) dir = Some Dir" for m c v
  proof -
    obtain ok v' where run: "writeAtomically (e @ [m]) c v = (ok, v')" by fastforce
    have "dir \<noteq> e @ [y]" for y using assms(1) by auto
    then show ?thesis using write_frame [OF _ run, of dir] that by (simp add: run)
  qed
  ultimately show ?thesis
    using assms(3) by (auto simp: reconcileEntry_def event_fail_def case_prod_beta Let_def)
qed

text \<open>Reconciling this directory settles it.\<close>

definition settles :: "bool \<times> bool \<times> bool \<Rightarrow> bool \<times> bool \<times> bool \<Rightarrow> bool" where
  "settles before after \<longleftrightarrow>
     (case before of (P, C, F) \<Rightarrow>
        after = (if P then if C \<or> F then (False, C, F) else (False, False, True) else before))"

lemma reconcile_this:
  assumes "dir \<noteq> []" "tree (disk w)" "failable (disk w) dir" "script w = []" "lookup (disk w) dir = Some Dir"
  shows "settles (marks (disk w) dir) (marks (disk (snd (reconcileEntry t dir (r, w)))) dir)"
proof -
  obtain P C F where m: "marks (disk w) dir = (P, C, F)" by (cases "marks (disk w) dir")
  then have ex: "pathExists (disk w) (pendingMark dir) = P" "pathExists (disk w) (completeMark dir) = C"
    "pathExists (disk w) (failedMark dir) = F"
    by (auto simp: marks_def pathExists_def)
  have d: "isDirectory (disk w) dir" using assms(5) by (simp add: isDirectory_def)
  show ?thesis
  proof (cases "P \<and> (C \<or> F)")
    case True
    have "removePath (pendingMark dir) w = (True, w\<lparr>disk := AList.delete (pendingMark dir) (disk w)\<rparr>)"
      using assms(3,4) by (intro removePath_healthy) (simp_all add: failable_def)
    with True m show ?thesis
      by (auto simp: reconcileEntry_def d ex settles_def marks_def lookup_delete)
  next
    case False
    with m show ?thesis
      using event_fail_healthy [OF assms(4,2,1,3)]
      by (auto simp: reconcileEntry_def d ex settles_def case_prod_beta Let_def)
  qed
qed

lemma reconcile_absent:
  assumes "length e = length dir" "fst (marks (disk w) dir) = False"
  shows "marks (disk (snd (reconcileEntry t e (r, w)))) dir = marks (disk w) dir"
proof (cases "e = dir")
  case True
  with assms(2) show ?thesis by (simp add: reconcileEntry_def pathExists_def marks_def)
next
  case False
  with assms(1) show ?thesis by (simp add: marks_def reconcile_other)
qed

lemma fold_reconcile:
  assumes "\<forall>e\<in>set es. length e = length dir" "dir \<noteq> []"
    and "tree (disk w)" "failable (disk w) dir" "script w = []" "lookup (disk w) dir = Some Dir"
  shows "if dir \<in> set es
    then settles (marks (disk w) dir) (marks (disk (snd (fold (reconcileEntry t) es (r, w)))) dir)
    else marks (disk (snd (fold (reconcileEntry t) es (r, w)))) dir = marks (disk w) dir"
  using assms
proof (induction es arbitrary: r w)
  case (Cons e es)
  obtain r1 w1 where s: "reconcileEntry t e (r, w) = (r1, w1)" by fastforce
  have len: "length e = length dir" using Cons.prems(1) by simp
  have keeps: "tree (disk w1)" "failable (disk w1) dir" "script w1 = []"
    using reconcile_keeps [OF len Cons.prems(3-5), of t r] by (simp_all add: s)
  show ?case
  proof (cases "e = dir")
    case True
    have gone: "marks (disk (snd (fold (reconcileEntry t) xs (r1, v)))) dir = marks (disk v) dir"
      if "fst (marks (disk v) dir) = False" "\<forall>x\<in>set xs. length x = length dir" for xs v r1
      using that
    proof (induction xs arbitrary: r1 v)
      case (Cons x xs)
      obtain r2 v2 where "reconcileEntry t x (r1, v) = (r2, v2)" by fastforce
      with Cons reconcile_absent [of x dir v t r1] show ?case by simp
    qed simp
    have "settles (marks (disk w) dir) (marks (disk w1) dir)"
      using reconcile_this [OF Cons.prems(2-6), of t r] by (simp add: s [unfolded True])
    moreover from this have "fst (marks (disk w1) dir) = False"
      by (cases "marks (disk w) dir") (auto simp: settles_def split: if_splits)
    then have "marks (disk (snd (fold (reconcileEntry t) es (r1, w1)))) dir = marks (disk w1) dir"
      using Cons.prems(1) by (intro gone) simp_all
    moreover have "fold (reconcileEntry t) (e # es) (r, w) = fold (reconcileEntry t) es (r1, w1)"
      by (simp add: s)
    ultimately show ?thesis using True by auto
  next
    case False
    have dir: "lookup (disk w1) dir = Some Dir"
      using dir_kept [OF len False Cons.prems(6), of t r] by (simp add: s)
    have same: "marks (disk w1) dir = marks (disk w) dir"
      using reconcile_other [OF len False, of t r w] by (simp add: s marks_def)
    have eq: "fold (reconcileEntry t) (e # es) (r, w) = fold (reconcileEntry t) es (r1, w1)"
      "dir \<in> set (e # es) \<longleftrightarrow> dir \<in> set es"
      using False by (auto simp: s)
    have "\<forall>e\<in>set es. length e = length dir" using Cons.prems(1) by simp
    from Cons.IH [OF this Cons.prems(2) keeps dir, of r1] show ?thesis
      unfolding eq same .
  qed
qed simp

lemma marks_entry:
  assumes "tree d" "marks d (root @ [x]) \<noteq> (False, False, False)"
  shows "root @ [x] \<in> set (entries d root) \<and> lookup d (root @ [x]) = Some Dir"
proof -
  obtain m where "lookup d ((root @ [x]) @ [m]) \<noteq> None" using assms(2) unfolding marks_def by blast
  then have "isDirectory d (root @ [x])"
    using tree_parent [OF assms(1), of "(root @ [x]) @ [m]"] by (auto simp: butlast_append)
  then have dir: "lookup d (root @ [x]) = Some Dir" by (simp add: isDirectory_def)
  then have "root @ [x] \<in> fst ` set d" by (auto simp: lookup_def dest: map_of_SomeD intro: rev_image_eqI)
  with dir show ?thesis by (simp add: entries_def childOf_def)
qed

lemma entries_length: "e \<in> set (entries d root) \<Longrightarrow> length e = Suc (length root)"
  by (auto simp: entries_def childOf_def length_butlast neq_Nil_conv)

lemma reconcile_settles:
  assumes "tree d" "failable d (root @ [x])"
  shows "settles (marks d (root @ [x]))
     (marks (disk (snd (reconcile root t \<lparr>disk = d, script = []\<rparr>))) (root @ [x]))"
proof -
  let ?w = "\<lparr>disk = d, script = []\<rparr>" and ?dir = "root @ [x]"
  have len: "\<forall>e\<in>set (entries d root). length e = length ?dir" using entries_length by auto
  show ?thesis
  proof (cases "marks d ?dir = (False, False, False)")
    case True
    have "marks (disk (snd (fold (reconcileEntry t) es (r, w)))) ?dir = marks (disk w) ?dir"
      if "\<forall>e\<in>set es. length e = length ?dir" "fst (marks (disk w) ?dir) = False" for es r w
      using that
    proof (induction es arbitrary: r w)
      case (Cons e es)
      obtain r1 w1 where "reconcileEntry t e (r, w) = (r1, w1)" by fastforce
      with Cons reconcile_absent [of e ?dir w t r] show ?case by simp
    qed simp
    with len True show ?thesis by (simp add: reconcile_def settles_def)
  next
    case False
    with assms(1) have "?dir \<in> set (entries d root)" "lookup d ?dir = Some Dir"
      using marks_entry by blast+
    with fold_reconcile [OF len, of ?w t] assms show ?thesis by (simp add: reconcile_def)
  qed
qed

section \<open>Properties\<close>

text \<open>
  Writing a marker is all or nothing at every failure and crash point: afterwards
  the file holds the whole new content exactly if success was reported, and otherwise
  its old content or nothing; no other path changes but the temporary file and the
  missing directories above it.
\<close>

theorem marker_write_whole:
  assumes "p \<noteq> []" "writeAtomically p c w = (ok, w')"
  shows "(if ok then lookup (disk w') p = Some (File c)
          else lookup (disk w') p = lookup (disk w) p \<or> lookup (disk w') p = None) \<and>
    (\<forall>q. q \<noteq> p \<and> q \<noteq> temporaryOf p \<and> \<not> prefix q p \<longrightarrow> lookup (disk w') q = lookup (disk w) q)"
  using write_done [OF assms(1)] write_failed [OF assms(1)] write_frame [OF assms(1,2)] assms(2)
  by (cases ok) auto

theorem marker_write_whole_witness:
  "\<exists>w'. writeAtomically [''e'', ''.pending''] ''x'' \<lparr>disk = [], script = [Done, Done, Failed 0]\<rparr> = (False, w') \<and>
     lookup (disk w') [''e'', ''.pending''] = None"
proof -
  obtain ok w' where run: "writeAtomically [''e'', ''.pending''] ''x''
      \<lparr>disk = [], script = [Done, Done, Failed 0]\<rparr> = (ok, w')" by fastforce
  then have "\<not> ok"
    by (auto simp: writeAtomically_def createDirectories_def openTrunc_def writeContent_def perform_def
        parentPath_def temporaryOf_def ancestors_def readFile_def lookup_def isDirectory_def Let_def)
  with run marker_write_whole [OF _ run] show ?thesis by (simp add: lookup_def)
qed

text \<open>
  The writer is not atomic for its old content: when both renames fail, the
  fallback has already removed the target, and a marker that existed is lost.
\<close>

theorem marker_write_can_lose:
  "let d = [([''e''], Dir), ([''e'', ''.complete''], File ''old'')];
       (ok, w') = writeAtomically [''e'', ''.complete''] ''new''
         \<lparr>disk = d, script = [Done, Done, Done, Failed 0, Done, Failed 0]\<rparr>
   in \<not> ok \<and> lookup d [''e'', ''.complete''] = Some (File ''old'') \<and>
      lookup (disk w') [''e'', ''.complete''] = None"
  by (simp add: writeAtomically_def createDirectories_def openTrunc_def writeContent_def perform_def
      parentPath_def temporaryOf_def ancestors_def readFile_def lookup_def isDirectory_def
      renameFile_def removePath_def)





end
