(* ===== verification/Record_Text.thy ===== *)
theory Record_Text
  imports Pair_Index Cpp_Text
begin

text \<open>
  The text formats of a record directory: the lines the storage worker appends to
  \<open>manifest.csv\<close> and \<open>pairs.csv\<close> (\<open>raw_storage_worker.hpp\<close>) and the readers of
  \<open>record_io.hpp\<close>.  The locale states what reader and writer of a line format owe
  each other; both formats implement it.
\<close>

section \<open>Fields and numbers\<close>

record ManifestEntry =
  me_sensor :: string
  me_timestampNs :: int
  me_file :: string
  me_encoding :: string
  me_convertedFile :: string

record PairEntry =
  pe_pairId :: "64 word"
  pe_status :: string
  pe_cameraTimestampNs :: int
  pe_lidarTimestampNs :: int
  pe_timeDiffNs :: int
  pe_reason :: string

definition CR :: char where
  "CR = CHR 0x0D"

fun splitLoop :: "string \<Rightarrow> string \<Rightarrow> string list \<Rightarrow> string list" where
  "splitLoop [] current fs = fs @ [current]"
| "splitLoop (c # cs) current fs =
     (if c = CHR '','' then splitLoop cs [] (fs @ [current])
      else if c \<noteq> CR then splitLoop cs (current @ [c]) fs
      else splitLoop cs current fs)"

definition splitCsvLine :: "string \<Rightarrow> string list" where
  "splitCsvLine line = splitLoop line [] []"

definition parseI64 :: "string \<Rightarrow> int option" where
  "parseI64 text =
     (case stoll text of None \<Rightarrow> None
      | Some (v, consumed) \<Rightarrow> if consumed = length text then Some v else None)"

definition parseU64 :: "string \<Rightarrow> 64 word option" where
  "parseU64 text =
     (if text = [] \<or> hd text = CHR ''-'' then None
      else case stoull text of None \<Rightarrow> None
        | Some (v, consumed) \<Rightarrow> if consumed = length text then Some v else None)"

lemma splitLoop_split:
  "splitLoop line current fs =
     fs @ (case split_fields CHR '','' (filter (\<lambda>c. c \<noteq> CR) line) of [] \<Rightarrow> [current] | f # rest \<Rightarrow> (current @ f) # rest)"
proof (induction line current fs rule: splitLoop.induct)
  case (2 c cs current fs)
  obtain f rest where "split_fields CHR '','' (filter (\<lambda>c. c \<noteq> CR) cs) = f # rest"
    by (metis split_fields_not_Nil neq_Nil_conv)
  with 2 show ?case by (auto simp: CR_def)
qed simp

lemma splitCsvLine_split: "splitCsvLine line = split_fields CHR '','' (filter (\<lambda>c. c \<noteq> CR) line)"
  by (simp add: splitCsvLine_def splitLoop_split split: list.split)

text \<open>Text that survives as one field: no comma, no line break.\<close>

definition plain :: "string \<Rightarrow> bool" where
  "plain s \<longleftrightarrow> CHR '','' \<notin> set s \<and> CR \<notin> set s \<and> newline \<notin> set s"

lemma plain_int [simp]: "plain (int_to_string i)"
  using int_to_string_plain [of i] by (simp add: plain_def CR_def)

lemma plain_nat [simp]: "plain (nat_to_string n)"
  using nat_to_string_plain [of n] by (simp add: plain_def CR_def)

lemma plain_Nil [simp]: "plain []"
  by (simp add: plain_def)

lemma joined_plain_filter:
  "\<forall>f\<in>set fs. plain f \<Longrightarrow> filter (\<lambda>c. c \<noteq> CR) (joined CHR '','' fs) = joined CHR '','' fs"
proof (induction fs)
  case (Cons f fs)
  then have "filter (\<lambda>c. c \<noteq> CR) f = f" by (auto simp: plain_def filter_id_conv)
  with Cons show ?case by (auto simp: CR_def)
qed simp

lemma splitCsvLine_joined:
  "fs \<noteq> [] \<Longrightarrow> \<forall>f\<in>set fs. plain f \<Longrightarrow> splitCsvLine (joined CHR '','' fs) = fs"
  unfolding splitCsvLine_split
  by (subst joined_plain_filter) (auto simp: plain_def intro!: split_fields_joined)

lemma joined_no_newline: "\<forall>f\<in>set fs. plain f \<Longrightarrow> newline \<notin> set (joined CHR '','' fs)"
  by (induction fs) (auto simp: plain_def newline_def)

lemma parseI64_print: "in_int64 i \<Longrightarrow> parseI64 (int_to_string i) = Some i"
  by (simp add: parseI64_def stoll_int_to_string)

lemma parseU64_print: "parseU64 (nat_to_string (unat w)) = Some w" for w :: "64 word"
proof -
  have "hd (nat_to_string (unat w)) \<noteq> CHR ''-''"
    using nat_to_string_digits [of "unat w"] isdigit_not by (metis hd_in_set nat_to_string_not_Nil)
  moreover have "unat w < 2 ^ 64" using unsigned_less [of w] by simp
  ultimately show ?thesis by (simp add: parseU64_def stoull_nat_to_string)
qed

section \<open>Rows of a file\<close>

text \<open>The line loop both readers share: the number counts the header as line 1.\<close>

fun rowLoop :: "(nat \<Rightarrow> string \<Rightarrow> string + 'r) \<Rightarrow> nat \<Rightarrow> string list \<Rightarrow> 'r list \<times> string list" where
  "rowLoop parse n [] = ([], [])"
| "rowLoop parse n (line # lines) =
     (let (rows, problems) = rowLoop parse (Suc n) lines in
      if line = [] then (rows, problems)
      else case parse (Suc n) line of
          Inl problem \<Rightarrow> (rows, problem # problems)
        | Inr row \<Rightarrow> (row # rows, problems))"

definition readRows :: "(nat \<Rightarrow> string \<Rightarrow> string + 'r) \<Rightarrow> string option \<Rightarrow> 'r list \<times> string list" where
  "readRows parse content =
     (case content of None \<Rightarrow> ([], []) | Some text \<Rightarrow> rowLoop parse 1 (drop 1 (getlines text)))"

locale line_codec =
  fixes encode :: "'a \<Rightarrow> string" and parse :: "nat \<Rightarrow> string \<Rightarrow> string + 'r"
    and good :: "'a \<Rightarrow> bool" and view :: "'a \<Rightarrow> 'r"
  assumes parse_encode: "good x \<Longrightarrow> parse n (encode x) = Inr (view x)"
    and one_line: "good x \<Longrightarrow> encode x \<noteq> [] \<and> newline \<notin> set (encode x)"
begin

lemma rowLoop_encode:
  "\<forall>x\<in>set xs. good x \<Longrightarrow> rowLoop parse n (map encode xs @ ls) =
     (map view xs @ fst (rowLoop parse (n + length xs) ls), snd (rowLoop parse (n + length xs) ls))"
  by (induction xs arbitrary: n) (auto simp: parse_encode one_line case_prod_beta Let_def)

lemma read_complete:
  assumes "\<forall>x\<in>set xs. good x" "newline \<notin> set header"
  shows "readRows parse (Some (header @ newline # concat (map (\<lambda>x. encode x @ [newline]) xs))) = (map view xs, [])"
proof -
  have "header @ newline # concat (map (\<lambda>x. encode x @ [newline]) xs) =
      concat (map (\<lambda>l. l @ [newline]) (header # map encode xs))"
    by (simp add: comp_def)
  moreover have "getlines \<dots> = header # map encode xs"
    by (rule getlines_concat) (use assms one_line in auto)
  ultimately show ?thesis
    using rowLoop_encode [OF assms(1), of 1 "[]"] by (simp add: readRows_def)
qed

text \<open>A torn last line costs at most itself.\<close>

lemma read_torn:
  assumes "\<forall>x\<in>set xs. good x" "newline \<notin> set header" "newline \<notin> set torn"
  shows "\<exists>extra problems. readRows parse
      (Some (header @ newline # concat (map (\<lambda>x. encode x @ [newline]) xs) @ torn)) = (map view xs @ extra, problems) \<and>
      length extra + length problems = (if torn = [] then 0 else 1)"
proof (cases "torn = []")
  case True
  with read_complete [OF assms(1,2)] show ?thesis by simp
next
  case False
  have "header @ newline # concat (map (\<lambda>x. encode x @ [newline]) xs) @ torn =
      concat (map (\<lambda>l. l @ [newline]) (header # map encode xs)) @ torn"
    by (simp add: comp_def)
  moreover have "getlines \<dots> = (header # map encode xs) @ [torn]"
    by (rule getlines_torn) (use assms one_line False in auto)
  ultimately show ?thesis
    using rowLoop_encode [OF assms(1), of 1 "[torn]"] False
    by (auto simp: readRows_def split: sum.splits)
qed

end

section \<open>The manifest\<close>

definition manifestHeader :: string where
  "manifestHeader = ''sensor,timestamp,file,encoding,converted_file''"

definition manifestLine :: "ManifestEntry \<Rightarrow> string" where
  "manifestLine e = joined CHR '','' [me_sensor e, int_to_string (me_timestampNs e), me_file e,
     me_encoding e, me_convertedFile e]"

definition parseManifestLine :: "nat \<Rightarrow> string \<Rightarrow> string + ManifestEntry" where
  "parseManifestLine lineNumber line =
     (let fs = splitCsvLine line in
      if length fs < 4
      then Inl (''manifest.csv line '' @ nat_to_string lineNumber @
             '': expected at least 4 fields, got '' @ nat_to_string (length fs))
      else case parseI64 (fs ! 1) of
          None \<Rightarrow> Inl (''manifest.csv line '' @ nat_to_string lineNumber @ '': invalid timestamp '' @
             [CHR 0x27] @ fs ! 1 @ [CHR 0x27])
        | Some timestamp \<Rightarrow> Inr \<lparr>me_sensor = fs ! 0, me_timestampNs = timestamp, me_file = fs ! 2,
             me_encoding = fs ! 3, me_convertedFile = (if length fs \<ge> 5 then fs ! 4 else [])\<rparr>)"

definition readManifest :: "string option \<Rightarrow> ManifestEntry list \<times> string list" where
  "readManifest content = readRows parseManifestLine content"

definition manifest_good :: "ManifestEntry \<Rightarrow> bool" where
  "manifest_good e \<longleftrightarrow> plain (me_sensor e) \<and> in_int64 (me_timestampNs e) \<and> plain (me_file e) \<and>
     plain (me_encoding e) \<and> plain (me_convertedFile e)"

interpretation manifest: line_codec manifestLine parseManifestLine manifest_good id
proof
  fix e :: ManifestEntry and n
  assume good: "manifest_good e"
  then have "splitCsvLine (manifestLine e) = [me_sensor e, int_to_string (me_timestampNs e), me_file e,
      me_encoding e, me_convertedFile e]"
    unfolding manifestLine_def by (intro splitCsvLine_joined) (auto simp: manifest_good_def)
  with good show "parseManifestLine n (manifestLine e) = Inr (id e)"
    by (simp add: parseManifestLine_def parseI64_print manifest_good_def)
  have "newline \<notin> set (manifestLine e)"
    unfolding manifestLine_def by (rule joined_no_newline) (use good in \<open>auto simp: manifest_good_def\<close>)
  then show "manifestLine e \<noteq> [] \<and> newline \<notin> set (manifestLine e)"
    by (simp add: manifestLine_def)
qed

section \<open>The pairs\<close>

definition pairsHeader :: string where
  "pairsHeader = ''pair_id,status,camera_timestamp,lidar_timestamp,time_diff_ns,reason''"

definition pairLine :: "PairRecord \<Rightarrow> string" where
  "pairLine r = joined CHR '','' [nat_to_string (unat (pairId r)), status r,
     (if hasCamera r then int_to_string (cameraTimestamp r) else []),
     (if hasLidar r then int_to_string (lidarTimestamp r) else []),
     int_to_string (difference r), reason r]"

definition parsePairLine :: "nat \<Rightarrow> string \<Rightarrow> string + PairEntry" where
  "parsePairLine lineNumber line =
     (let fs = splitCsvLine line in
      if length fs < 6
      then Inl (''pairs.csv line '' @ nat_to_string lineNumber @ '': expected 6 fields, got '' @
             nat_to_string (length fs))
      else case parseU64 (fs ! 0) of
          None \<Rightarrow> Inl (''pairs.csv line '' @ nat_to_string lineNumber @ '': invalid pair_id '' @
             [CHR 0x27] @ fs ! 0 @ [CHR 0x27])
        | Some pid \<Rightarrow>
            let camera = (if fs ! 2 = [] then Some 0 else parseI64 (fs ! 2));
                lidar = (if fs ! 3 = [] then Some 0 else parseI64 (fs ! 3));
                diff = parseI64 (fs ! 4)
            in if camera = None \<or> lidar = None \<or> diff = None
               then Inl (''pairs.csv line '' @ nat_to_string lineNumber @ '': invalid numeric field'')
               else Inr \<lparr>pe_pairId = pid, pe_status = fs ! 1, pe_cameraTimestampNs = the camera,
                      pe_lidarTimestampNs = the lidar, pe_timeDiffNs = the diff, pe_reason = fs ! 5\<rparr>)"

definition readPairs :: "string option \<Rightarrow> PairEntry list \<times> string list" where
  "readPairs content = readRows parsePairLine content"

definition pair_good :: "PairRecord \<Rightarrow> bool" where
  "pair_good r \<longleftrightarrow> plain (status r) \<and> in_int64 (cameraTimestamp r) \<and> in_int64 (lidarTimestamp r) \<and>
     in_int64 (difference r) \<and> plain (reason r)"

definition pairView :: "PairRecord \<Rightarrow> PairEntry" where
  "pairView r = \<lparr>pe_pairId = pairId r, pe_status = status r,
     pe_cameraTimestampNs = (if hasCamera r then cameraTimestamp r else 0),
     pe_lidarTimestampNs = (if hasLidar r then lidarTimestamp r else 0),
     pe_timeDiffNs = difference r, pe_reason = reason r\<rparr>"

lemma int_to_string_not_Nil [simp]: "int_to_string i \<noteq> []"
  using int_to_string_plain by blast

interpretation pairs: line_codec pairLine parsePairLine pair_good pairView
proof
  fix r :: PairRecord and n
  assume good: "pair_good r"
  then have "splitCsvLine (pairLine r) = [nat_to_string (unat (pairId r)), status r,
     (if hasCamera r then int_to_string (cameraTimestamp r) else []),
     (if hasLidar r then int_to_string (lidarTimestamp r) else []),
     int_to_string (difference r), reason r]"
    unfolding pairLine_def by (intro splitCsvLine_joined) (auto simp: pair_good_def)
  with good show "parsePairLine n (pairLine r) = Inr (pairView r)"
    by (auto simp: parsePairLine_def parseI64_print parseU64_print pair_good_def pairView_def Let_def)
  have "newline \<notin> set (pairLine r)"
    unfolding pairLine_def by (rule joined_no_newline) (use good in \<open>auto simp: pair_good_def\<close>)
  then show "pairLine r \<noteq> [] \<and> newline \<notin> set (pairLine r)"
    by (simp add: pairLine_def)
qed

fun pair_op_good :: "pair_op \<Rightarrow> bool" where
  "pair_op_good (Matched c l d) \<longleftrightarrow> in_int64 c \<and> in_int64 l \<and> in_int64 d"
| "pair_op_good (Single sensor t why) \<longleftrightarrow> in_int64 t \<and> plain why"

lemma zero_int64 [simp]: "in_int64 0"
  by (simp add: in_int64_def INT64_MIN_def INT64_MAX_def)

lemma recordOf_good: "pair_op_good op \<Longrightarrow> pair_good (recordOf i op)"
  by (cases op) (auto simp: pair_good_def Let_def plain_def CR_def newline_def)

lemma recorded_good:
  "\<forall>op\<in>set ops. pair_op_good op \<Longrightarrow> \<forall>r\<in>set (records (foldl applyPair newPairIndex ops)). pair_good r"
proof (induction ops rule: rev_induct)
  case (snoc op ops)
  let ?p = "foldl applyPair newPairIndex ops"
  have "set (records (applyPair ?p op)) \<subseteq> insert (recordOf (nextId ?p) op) (set (records ?p))"
    using set_lastn by (fastforce simp: applyPair_recordOf)
  with snoc recordOf_good [of op] show ?case by auto
qed (simp add: newPairIndex_def)

section \<open>Properties\<close>

text \<open>
  C27. What was written to \<open>manifest.csv\<close> is read back: all complete lines become
  their entries in order, and a last line torn by a crash adds one further row or one
  reported problem, never both and never a loss of the others.
\<close>

theorem manifest_roundtrip:
  assumes "\<forall>e\<in>set es. manifest_good e" "newline \<notin> set torn"
  shows "\<exists>extra problems. readManifest (Some (manifestHeader @ newline #
       concat (map (\<lambda>e. manifestLine e @ [newline]) es) @ torn)) = (es @ extra, problems) \<and>
     length extra + length problems = (if torn = [] then 0 else 1)"
  using manifest.read_torn [OF assms(1) _ assms(2), of manifestHeader]
  by (simp add: readManifest_def manifestHeader_def newline_def)

definition sampleEntry :: ManifestEntry where
  "sampleEntry = \<lparr>me_sensor = ''camera'', me_timestampNs = 100, me_file = ''camera_100.bin'',
     me_encoding = ''raw'', me_convertedFile = []\<rparr>"

theorem manifest_roundtrip_witness:
  "\<exists>extra problems. readManifest (Some (manifestHeader @ newline #
       concat (map (\<lambda>e. manifestLine e @ [newline]) [sampleEntry]) @ ''lidar,1'')) = ([sampleEntry] @ extra, problems) \<and>
     length extra + length problems = 1"
  using manifest_roundtrip [of "[sampleEntry]" "''lidar,1''"]
  by (simp add: sampleEntry_def manifest_good_def plain_def CR_def newline_def in_int64_def
      INT64_MIN_def INT64_MAX_def)

text \<open>
  Whatever pairs were recorded, with reasons that fit in a field, the rows written
  for any of them to \<open>pairs.csv\<close> are read back as the same pairs, without problems.
\<close>

theorem recorded_pairs_roundtrip:
  assumes "\<forall>op\<in>set ops. pair_op_good op" "set rs \<subseteq> set (records (foldl applyPair newPairIndex ops))"
  shows "readPairs (Some (pairsHeader @ newline # concat (map (\<lambda>r. pairLine r @ [newline]) rs))) = (map pairView rs, [])"
proof -
  have "\<forall>r\<in>set rs. pair_good r" using recorded_good [OF assms(1)] assms(2) by blast
  then show ?thesis
    using pairs.read_complete [of rs pairsHeader] by (simp add: readPairs_def pairsHeader_def newline_def)
qed

theorem recorded_pairs_roundtrip_witness:
  "let ops = [Matched 100 105 5, Single ''camera'' 200 ''synchronizer queue full''];
       rs = records (foldl applyPair newPairIndex ops)
   in readPairs (Some (pairsHeader @ newline # concat (map (\<lambda>r. pairLine r @ [newline]) rs))) = (map pairView rs, [])"
  unfolding Let_def
  by (rule recorded_pairs_roundtrip [of "[Matched 100 105 5, Single ''camera'' 200 ''synchronizer queue full'']"])
    (simp_all add: plain_def CR_def newline_def in_int64_def INT64_MIN_def INT64_MAX_def)

text \<open>
  \<open>parseU64\<close> refuses a leading minus sign, but not one behind white space: such
  a field is read as the number's two's complement.
\<close>

theorem parseU64_negative:
  "parseU64 ''-1'' = None \<and> parseU64 '' -1'' = Some (- 1)"
  by (simp add: parseU64_def stoull_def scan_int_def text_eval dec_value_def)

end
