(* ===== verification/Checksum.thy ===== *)
theory Checksum
  imports Event_State "HOL-Library.List_Lexorder"
begin

text \<open>
  The checksum manifest of a record directory: how the storage worker writes
  \<open>manifest.sha256\<close> and how \<open>record_io.hpp\<close> checks it, and which paths read from
  files the reader trusts.  The digest (OpenSSL) is an argument \<open>sha\<close>: the
  hexadecimal digest of a content, or \<open>None\<close> where the library fails.
\<close>

section \<open>Relative paths\<close>

text \<open>
  The elements of a relative \<open>std::filesystem::path\<close> on POSIX: repeated separators
  count once, a trailing one yields a last empty element.
\<close>

definition pathElements :: "string \<Rightarrow> path" where
  "pathElements s =
     (if s = [] then []
      else let fs = split_fields CHR ''/'' s in filter (\<lambda>f. f \<noteq> []) (butlast fs) @ [last fs])"

definition toupper :: "char \<Rightarrow> char" where
  "toupper c = (if 97 \<le> code c \<and> code c \<le> 122 then char_of (code c - 32) else c)"

definition kWindowsDevices :: "string set" where
  "kWindowsDevices = {''CON'', ''PRN'', ''AUX'', ''NUL'', ''COM1'', ''COM2'', ''COM3'', ''COM4'',
     ''COM5'', ''COM6'', ''COM7'', ''COM8'', ''COM9'', ''LPT1'', ''LPT2'', ''LPT3'', ''LPT4'',
     ''LPT5'', ''LPT6'', ''LPT7'', ''LPT8'', ''LPT9''}"

definition safeComponent :: "string \<Rightarrow> bool" where
  "safeComponent text =
     (if text = [] \<or> text = ''.'' \<or> text = ''..'' \<or> CHR '':'' \<in> set text \<or> CHR 0x5C \<in> set text \<or>
         last text = CHR ''.'' \<or> last text = CHR '' ''
      then False
      else
        let stem = (case find_from CHR ''.'' text 0 of None \<Rightarrow> text | Some p \<Rightarrow> substr text 0 p)
        in map toupper stem \<notin> kWindowsDevices)"

definition safeRelativePath :: "string \<Rightarrow> bool" where
  "safeRelativePath s \<longleftrightarrow> s \<noteq> [] \<and> hd s \<noteq> CHR ''/'' \<and> list_all safeComponent (pathElements s)"

text \<open>Where the operating system ends up following the elements from a directory.\<close>

primrec resolve :: "path \<Rightarrow> string list \<Rightarrow> path" where
  "resolve here [] = here"
| "resolve here (e # es) =
     resolve (if e = ''..'' then butlast here else if e = '''' \<or> e = ''.'' then here else here @ [e]) es"

lemma resolve_plain: "\<forall>e\<in>set es. e \<noteq> ''..'' \<and> e \<noteq> ''.'' \<and> e \<noteq> [] \<Longrightarrow> resolve here es = here @ es"
  by (induction es arbitrary: here) auto

lemma safeComponent_plain: "safeComponent e \<Longrightarrow> e \<noteq> [] \<and> e \<noteq> ''.'' \<and> e \<noteq> ''..''"
  by (auto simp: safeComponent_def split: if_splits)

text \<open>A path of names as the directory iterator gives it, and its generic text.\<close>

definition names_ok :: "path \<Rightarrow> bool" where
  "names_ok p \<longleftrightarrow> (\<forall>c\<in>set p. c \<noteq> [] \<and> CHR ''/'' \<notin> set c)"

definition relativeText :: "path \<Rightarrow> path \<Rightarrow> string" where
  "relativeText dir q = joined CHR ''/'' (drop (length dir) q)"

lemma pathElements_joined:
  assumes "p \<noteq> []" "names_ok p"
  shows "pathElements (joined CHR ''/'' p) = p"
proof -
  have "split_fields CHR ''/'' (joined CHR ''/'' p) = p"
    using assms by (intro split_fields_joined) (auto simp: names_ok_def)
  moreover have "joined CHR ''/'' p \<noteq> []"
    using assms by (cases p) (auto simp: names_ok_def)
  moreover have "filter (\<lambda>f. f \<noteq> []) (butlast p) = butlast p"
    using assms(2) by (auto simp: names_ok_def filter_id_conv dest: in_set_butlastD)
  ultimately show ?thesis using assms(1) by (simp add: pathElements_def)
qed

lemma relative_elements:
  assumes "strict_prefix dir q" "names_ok q"
  shows "dir @ pathElements (relativeText dir q) = q"
proof -
  obtain r where q: "q = dir @ r" "r \<noteq> []" using assms(1) by (auto simp: strict_prefix_def prefix_def)
  then show ?thesis
    using pathElements_joined [of r] assms(2) by (simp add: relativeText_def names_ok_def)
qed

section \<open>The files a checksum covers\<close>

definition extension :: "string \<Rightarrow> string" where
  "extension name =
     (case find_last_of CHR ''.'' name of None \<Rightarrow> [] | Some p \<Rightarrow> if p = 0 then [] else drop p name)"

definition coveredName :: "string \<Rightarrow> bool" where
  "coveredName name \<longleftrightarrow>
     name \<noteq> ''manifest.sha256'' \<and> (name = [] \<or> hd name \<noteq> CHR ''.'') \<and> extension name \<noteq> ''.tmp''"

definition coveredFiles :: "disk \<Rightarrow> path \<Rightarrow> path list" where
  "coveredFiles d dir = filter (\<lambda>q. readFile d q \<noteq> None \<and> coveredName (last q)) (below d dir)"

lemma coveredFiles_iff:
  "q \<in> set (coveredFiles d dir) \<longleftrightarrow> strict_prefix dir q \<and> readFile d q \<noteq> None \<and> coveredName (last q)"
  using lookup_below [of dir q d]
  by (auto simp: coveredFiles_def readFile_def below_def split: option.splits)

section \<open>Writing\<close>

text \<open>
  \<open>RawStorageWorker::writeAtomically\<close>: the clean-up after a failed rename is the
  throwing overload of \<open>remove\<close>, so the call can end in an exception.
\<close>

definition storeAtomically :: "path \<Rightarrow> string \<Rightarrow> World \<Rightarrow> (string + bool) \<times> World" where
  "storeAtomically target content w0 =
     (let temporary = temporaryOf target;
          (opened, w1) = openTrunc temporary w0
      in if \<not> opened then (Inr False, w1)
         else
           let (written, w2) = writeContent temporary content w1
           in if \<not> written then (Inr False, snd (removePath temporary w2))
              else
                let (renamed, w3) = renameFile temporary target w2
                in if \<not> renamed
                   then (let (removed, w4) = removePath temporary w3
                         in (if removed then Inr False else Inl ''filesystem_error'', w4))
                   else (Inr True, w3))"

definition checksumLine :: "(string \<Rightarrow> string option) \<Rightarrow> disk \<Rightarrow> path \<Rightarrow> path \<Rightarrow> string option" where
  "checksumLine sha d dir q =
     (case readFile d q of None \<Rightarrow> None
      | Some c \<Rightarrow> (case sha c of None \<Rightarrow> None
          | Some digest \<Rightarrow> Some (digest @ ''  '' @ relativeText dir q @ [newline])))"

definition writeChecksumManifest ::
  "(string \<Rightarrow> string option) \<Rightarrow> path \<Rightarrow> World \<Rightarrow> (string + bool) \<times> World" where
  "writeChecksumManifest sha dir w =
     (let files = sort (coveredFiles (disk w) dir);
          rows = map (checksumLine sha (disk w) dir) files
      in if None \<in> set rows then (Inr False, w)
         else if files = [] then (Inr False, w)
         else storeAtomically (dir @ [''manifest.sha256'']) (concat (map the rows)) w)"

section \<open>Checking\<close>

text \<open>\<open>line.find("  ")\<close>.\<close>

fun findTwoSpaces :: "string \<Rightarrow> nat option" where
  "findTwoSpaces (a # b # s) =
     (if a = CHR '' '' \<and> b = CHR '' '' then Some 0 else map_option Suc (findTwoSpaces (b # s)))"
| "findTwoSpaces s = None"

definition isHex :: "char \<Rightarrow> bool" where
  "isHex c \<longleftrightarrow> isdigit c \<or> (97 \<le> code c \<and> code c \<le> 102)"

definition checksumEntry ::
  "nat \<Rightarrow> string \<Rightarrow> (string \<times> string) list \<times> string list \<Rightarrow> (string \<times> string) list \<times> string list" where
  "checksumEntry lineNumber line = (\<lambda>(expected, problems).
     let separator = findTwoSpaces line in
     if separator \<noteq> Some 64 \<or> length line \<le> 66
     then (expected, problems @ [''manifest.sha256 line '' @ nat_to_string lineNumber @ '': malformed entry''])
     else
       let digest = substr line 0 64; relative = drop 66 line
       in if \<not> list_all isHex digest \<or> \<not> safeRelativePath relative \<or> relative \<in> fst ` set expected
          then (expected, problems @ [''manifest.sha256 line '' @ nat_to_string lineNumber @ '': invalid path or digest''])
          else (expected @ [(relative, digest)], problems))"

fun checksumLoop ::
  "nat \<Rightarrow> string list \<Rightarrow> (string \<times> string) list \<times> string list \<Rightarrow> (string \<times> string) list \<times> string list" where
  "checksumLoop n [] acc = acc"
| "checksumLoop n (line # lines) acc = checksumLoop (Suc n) lines (checksumEntry (Suc n) line acc)"

definition digestProblem ::
  "(string \<Rightarrow> string option) \<Rightarrow> disk \<Rightarrow> path \<Rightarrow> string \<times> string \<Rightarrow> string option" where
  "digestProblem sha d dir = (\<lambda>(relative, wanted).
     case readFile d (dir @ pathElements relative) of
       None \<Rightarrow> Some (''checksum file cannot be read: '' @ relative)
     | Some c \<Rightarrow> (case sha c of None \<Rightarrow> Some (''checksum file cannot be read: '' @ relative)
         | Some actual \<Rightarrow> if actual \<noteq> wanted then Some (''sha256 mismatch: '' @ relative) else None))"

definition fileSetProblems :: "disk \<Rightarrow> path \<Rightarrow> (string \<times> string) list \<Rightarrow> string list" where
  "fileSetProblems d dir expected =
     (let actualFiles = remdups (map (relativeText dir) (coveredFiles d dir)) in
      if length actualFiles \<noteq> length expected then [''checksum manifest file set mismatch'']
      else map (\<lambda>r. ''checksum manifest missing file: '' @ r)
             (filter (\<lambda>r. r \<notin> fst ` set expected) actualFiles))"

definition verifyChecksumManifest ::
  "(string \<Rightarrow> string option) \<Rightarrow> disk \<Rightarrow> path \<Rightarrow> string list \<Rightarrow> bool \<times> string list" where
  "verifyChecksumManifest sha d dir problems0 =
     (case readFile d (dir @ [''manifest.sha256'']) of
        None \<Rightarrow> (False, problems0 @ [''manifest.sha256 missing''])
      | Some content \<Rightarrow>
          let (expected, problems1) = checksumLoop 0 (getlines content) ([], problems0);
              problems2 = problems1 @ List.map_filter (digestProblem sha d dir) expected;
              problems3 = problems2 @ fileSetProblems d dir expected
          in (expected \<noteq> [] \<and> problems3 = [], problems3))"

section \<open>The storage writer is atomic\<close>

definition storePut :: "path \<Rightarrow> string \<Rightarrow> World \<Rightarrow> bool \<times> World" where
  "storePut p c w = (let (r, w') = storeAtomically p c w in (r = Inr True, w'))"

lemma storePut_steps:
  assumes "storePut p c w = (ok, w')"
  obtains (unopened) "\<not> ok" "openTrunc (temporaryOf p) w = (False, w')"
  | (unwritten) w1 w2 b where "\<not> ok" "openTrunc (temporaryOf p) w = (True, w1)"
      "writeContent (temporaryOf p) c w1 = (False, w2)" "removePath (temporaryOf p) w2 = (b, w')"
  | (renamed) w1 w2 where "ok" "openTrunc (temporaryOf p) w = (True, w1)"
      "writeContent (temporaryOf p) c w1 = (True, w2)" "renameFile (temporaryOf p) p w2 = (True, w')"
  | (unrenamed) w1 w2 w3 b where "\<not> ok" "openTrunc (temporaryOf p) w = (True, w1)"
      "writeContent (temporaryOf p) c w1 = (True, w2)" "renameFile (temporaryOf p) p w2 = (False, w3)"
      "removePath (temporaryOf p) w3 = (b, w')"
proof -
  obtain b1 w1 where s1: "openTrunc (temporaryOf p) w = (b1, w1)" by fastforce
  obtain b2 w2 where s2: "writeContent (temporaryOf p) c w1 = (b2, w2)" by fastforce
  obtain b3 w3 where s3: "renameFile (temporaryOf p) p w2 = (b3, w3)" by fastforce
  obtain b4 w4 where s4: "removePath (temporaryOf p) w3 = (b4, w4)" by fastforce
  obtain b5 w5 where s5: "removePath (temporaryOf p) w2 = (b5, w5)" by fastforce
  note run = assms [unfolded storePut_def storeAtomically_def s1 Let_def prod.case s2 s3 s4]
  consider "\<not> b1" | "b1" "\<not> b2" | "b1" "b2" "b3" | "b1" "b2" "\<not> b3" by blast
  then show thesis
  proof cases
    case 1
    with run have "\<not> ok" "w' = w1" by auto
    with s1 1 show ?thesis by (intro unopened) simp_all
  next
    case 2
    with run s5 have "\<not> ok" "w' = w5" by auto
    with s1 s2 s5 2 show ?thesis by (intro unwritten [of w1 w2 b5]) simp_all
  next
    case 3
    with run have "ok" "w' = w3" by auto
    with s1 s2 s3 3 show ?thesis by (intro renamed [of w1 w2]) simp_all
  next
    case 4
    with run have "\<not> ok" "w' = w4" by (auto split: if_splits)
    with s1 s2 s3 s4 4 show ?thesis by (intro unrenamed [of w1 w2 w3 b4]) simp_all
  qed
qed

lemma storePut_frame:
  assumes "storePut p c w = (ok, w')" "q \<noteq> p" "q \<noteq> temporaryOf p"
  shows "lookup (disk w') q = lookup (disk w) q"
  using assms(1)
proof (cases rule: storePut_steps)
  case unopened
  then show ?thesis using openTrunc_lookup [OF unopened(2) assms(3)] by simp
next
  case (unwritten w1 w2 b)
  then show ?thesis
    using openTrunc_lookup [OF unwritten(2) assms(3)] writeContent_lookup [OF unwritten(3) assms(3)]
      removePath_lookup [OF unwritten(4) assms(3)] by simp
next
  case (renamed w1 w2)
  then show ?thesis
    using openTrunc_lookup [OF renamed(2) assms(3)] writeContent_lookup [OF renamed(3) assms(3)]
      renameFile_lookup [OF renamed(4) assms(3,2)] by simp
next
  case (unrenamed w1 w2 w3 b)
  then show ?thesis
    using openTrunc_lookup [OF unrenamed(2) assms(3)] writeContent_lookup [OF unrenamed(3) assms(3)]
      renameFile_lookup [OF unrenamed(4) assms(3,2)] removePath_lookup [OF unrenamed(5) assms(3)] by simp
qed

lemma storePut_done: "storePut p c w = (True, w') \<Longrightarrow> lookup (disk w') p = Some (File c)"
proof (erule storePut_steps)
  fix w1 w2
  assume "writeContent (temporaryOf p) c w1 = (True, w2)" "renameFile (temporaryOf p) p w2 = (True, w')"
  then show "lookup (disk w') p = Some (File c)"
    using writeContent_file renameFile_target by fastforce
qed auto

lemma storePut_old:
  assumes "p \<noteq> []" "storePut p c w = (False, w')"
  shows "lookup (disk w') p = lookup (disk w) p"
proof -
  have p: "p \<noteq> temporaryOf p" using temporaryOf_distinct [OF assms(1)] by auto
  from assms(2) show ?thesis
  proof (cases rule: storePut_steps)
    case unopened
    then show ?thesis using openTrunc_lookup [OF unopened(2) p] by simp
  next
    case (unwritten w1 w2 b)
    then show ?thesis
      using openTrunc_lookup [OF unwritten(2) p] writeContent_lookup [OF unwritten(3) p]
        removePath_lookup [OF unwritten(4) p] by simp
  next
    case (unrenamed w1 w2 w3 b)
    then show ?thesis
      using openTrunc_lookup [OF unrenamed(2) p] writeContent_lookup [OF unrenamed(3) p]
        renameFile_failed [OF unrenamed(4)] removePath_lookup [OF unrenamed(5) p] by simp
  qed simp
qed

lemma storePut_tree:
  assumes "storePut p c w = (ok, w')" "tree (disk w)"
  shows "tree (disk w')"
  using assms(1)
proof (cases rule: storePut_steps)
  case unopened
  then show ?thesis using openTrunc_tree [OF unopened(2) assms(2)] by simp
next
  case (unwritten w1 w2 b)
  then show ?thesis
    using openTrunc_tree [OF unwritten(2) assms(2)] writeContent_tree [OF unwritten(3)]
      removePath_tree [OF unwritten(4)] by simp
next
  case (renamed w1 w2)
  then show ?thesis
    using openTrunc_tree [OF renamed(2) assms(2)] writeContent_tree [OF renamed(3)]
      renameFile_tree [OF renamed(4)] by simp
next
  case (unrenamed w1 w2 w3 b)
  then show ?thesis
    using openTrunc_tree [OF unrenamed(2) assms(2)] writeContent_tree [OF unrenamed(3)]
      renameFile_tree [OF unrenamed(4)] removePath_tree [OF unrenamed(5)] by simp
qed

interpretation store_writer: atomic_writer storePut
proof unfold_locales
  show "lookup (disk w') p = Some (File c)" if "p \<noteq> []" "storePut p c w = (True, w')" for p c w w'
    using that storePut_done by blast
  show "lookup (disk w') p = lookup (disk w) p" if "p \<noteq> []" "storePut p c w = (False, w')" for p c w w'
    using that storePut_old by blast
  then show "lookup (disk w') p \<in> {lookup (disk w) p, None}" if "p \<noteq> []" "storePut p c w = (False, w')" for p c w w'
    using that by blast
  show "lookup (disk w') q = lookup (disk w) q"
    if "p \<noteq> []" "storePut p c w = (ok, w')" "q \<noteq> p" "q \<noteq> temporaryOf p"
      "\<not> prefix q p \<or> lookup (disk w) q \<noteq> None" for p c w ok w' q
    using that storePut_frame by blast
  show "tree (disk w')" if "p \<noteq> []" "storePut p c w = (ok, w')" "tree (disk w)" for p c w ok w'
    using that storePut_tree by blast
qed

section \<open>Reading back what was written\<close>

lemma findTwoSpaces_digest:
  "length digest = n \<Longrightarrow> list_all isHex digest \<Longrightarrow> findTwoSpaces (digest @ CHR '' '' # CHR '' '' # s) = Some n"
proof (induction digest arbitrary: n)
  case (Cons a ds)
  then have "a \<noteq> CHR '' ''" by (auto simp: isHex_def char_class_defs)
  with Cons show ?case by (cases ds) auto
qed simp

lemma checksumEntry_good:
  assumes "length digest = 64" "list_all isHex digest" "safeRelativePath relative" "relative \<notin> fst ` set expected"
  shows "checksumEntry n (digest @ ''  '' @ relative) (expected, problems) = (expected @ [(relative, digest)], problems)"
proof -
  have "relative \<noteq> []" using assms(3) by (simp add: safeRelativePath_def)
  then show ?thesis
    using assms findTwoSpaces_digest [OF assms(1,2), of relative]
    by (simp add: checksumEntry_def substr_def Let_def)
qed

lemma checksumLoop_good:
  assumes "\<forall>(r, dg)\<in>set rows. length dg = 64 \<and> list_all isHex dg \<and> safeRelativePath r"
    and "distinct (map fst rows)" "fst ` set rows \<inter> fst ` set expected = {}"
  shows "checksumLoop n (map (\<lambda>(r, dg). dg @ ''  '' @ r) rows) (expected, problems) = (expected @ rows, problems)"
  using assms
proof (induction rows arbitrary: n expected)
  case (Cons row rows)
  obtain r dg where row: "row = (r, dg)" by force
  have "checksumEntry (Suc n) (dg @ ''  '' @ r) (expected, problems) = (expected @ [(r, dg)], problems)"
    using Cons.prems row by (intro checksumEntry_good) auto
  moreover have "fst ` set rows \<inter> fst ` set (expected @ [(r, dg)]) = {}"
    using Cons.prems(2,3) row by auto
  ultimately show ?case using Cons.IH [of "expected @ [(r, dg)]" "Suc n"] Cons.prems row by simp
qed simp

text \<open>The rows of a manifest: relative paths and digests of the covered files.\<close>

definition digestRow :: "(string \<Rightarrow> string option) \<Rightarrow> disk \<Rightarrow> path \<Rightarrow> path \<Rightarrow> string \<times> string" where
  "digestRow sha d dir q = (relativeText dir q, the (sha (the (readFile d q))))"

definition covered_ok :: "disk \<Rightarrow> path \<Rightarrow> bool" where
  "covered_ok d dir \<longleftrightarrow> (\<forall>q\<in>set (coveredFiles d dir). names_ok q \<and>
     safeRelativePath (relativeText dir q) \<and> newline \<notin> set (relativeText dir q))"

lemma relativeText_inj:
  "strict_prefix dir q \<Longrightarrow> strict_prefix dir r \<Longrightarrow> names_ok q \<Longrightarrow> names_ok r \<Longrightarrow>
   relativeText dir q = relativeText dir r \<Longrightarrow> q = r"
  by (metis relative_elements)

lemma covered_rel_inj: "covered_ok d dir \<Longrightarrow> inj_on (relativeText dir) (set (coveredFiles d dir))"
proof (rule inj_onI)
  fix q r
  assume "covered_ok d dir" "q \<in> set (coveredFiles d dir)" "r \<in> set (coveredFiles d dir)"
    and eq: "relativeText dir q = relativeText dir r"
  then have "strict_prefix dir q" "strict_prefix dir r" "names_ok q" "names_ok r"
    by (auto simp: covered_ok_def coveredFiles_iff)
  then show "q = r" using eq by (rule relativeText_inj)
qed

lemma distinct_covered: "distinct (coveredFiles d dir)"
  by (simp add: coveredFiles_def below_def)

lemma uncovered_manifest:
  "\<not> coveredName ''manifest.sha256''" "\<not> coveredName ''manifest.sha256.tmp''"
  by (simp_all add: coveredName_def extension_def find_last_of_def)

lemma writeChecksum_rows:
  assumes "writeChecksumManifest sha dir w = (Inr True, w')"
  defines "files \<equiv> sort (coveredFiles (disk w) dir)"
  shows "files \<noteq> []" "\<forall>q\<in>set files. \<exists>c dg. readFile (disk w) q = Some c \<and> sha c = Some dg"
    and "storePut (dir @ [''manifest.sha256''])
      (concat (map (\<lambda>q. (case digestRow sha (disk w) dir q of (r, dg) \<Rightarrow> dg @ ''  '' @ r) @ [newline]) files)) w = (True, w')"
proof -
  let ?rows = "map (checksumLine sha (disk w) dir) files"
  have run: "None \<notin> set ?rows" "files \<noteq> []"
    "storeAtomically (dir @ [''manifest.sha256'']) (concat (map the ?rows)) w = (Inr True, w')"
    using assms(1) by (auto simp: writeChecksumManifest_def files_def Let_def split: if_splits)
  then show "files \<noteq> []" by simp
  have some: "\<exists>c dg. readFile (disk w) q = Some c \<and> sha c = Some dg" if "q \<in> set files" for q
  proof -
    have "checksumLine sha (disk w) dir q \<noteq> None" using run(1) that by force
    then show ?thesis by (auto simp: checksumLine_def split: option.splits)
  qed
  then show "\<forall>q\<in>set files. \<exists>c dg. readFile (disk w) q = Some c \<and> sha c = Some dg" by blast
  have "map the ?rows = map (\<lambda>q. (case digestRow sha (disk w) dir q of (r, dg) \<Rightarrow> dg @ ''  '' @ r) @ [newline]) files"
    using some by (fastforce simp: checksumLine_def digestRow_def)
  then have "concat (map the ?rows) =
      concat (map (\<lambda>q. (case digestRow sha (disk w) dir q of (r, dg) \<Rightarrow> dg @ ''  '' @ r) @ [newline]) files)"
    by (rule arg_cong)
  note run(3) [unfolded this]
  then show "storePut (dir @ [''manifest.sha256''])
      (concat (map (\<lambda>q. (case digestRow sha (disk w) dir q of (r, dg) \<Rightarrow> dg @ ''  '' @ r) @ [newline]) files)) w = (True, w')"
    by (simp add: storePut_def)
qed

definition real_names :: "disk \<Rightarrow> bool" where
  "real_names d \<longleftrightarrow> (\<forall>q x. lookup d q = Some x \<longrightarrow> names_ok q)"

lemma checksumLoop_distinct:
  "distinct (map fst expected) \<Longrightarrow> distinct (map fst (fst (checksumLoop n ls (expected, problems))))"
proof (induction ls arbitrary: n expected problems)
  case (Cons l ls)
  obtain expected' problems' where e: "checksumEntry (Suc n) l (expected, problems) = (expected', problems')"
    by fastforce
  then have "distinct (map fst expected')"
    using Cons.prems by (auto simp: checksumEntry_def Let_def split: if_splits)
  with Cons.IH e show ?case by simp
qed simp

lemma covered_names: "real_names d \<Longrightarrow> readFile d q = Some c \<Longrightarrow> names_ok q"
  by (auto simp: real_names_def readFile_def split: option.splits)

lemma verified_files:
  assumes "fst (verifyChecksumManifest sha d dir [])"
    and "readFile d (dir @ [''manifest.sha256'']) = Some content"
    and "checksumLoop 0 (getlines content) ([], []) = (expected, problems)"
    and "distinct (map fst expected)"
  shows "set (map (relativeText dir) (coveredFiles d dir)) = fst ` set expected"
    and "\<And>r dg. (r, dg) \<in> set expected \<Longrightarrow> \<exists>c. readFile d (dir @ pathElements r) = Some c \<and> sha c = Some dg"
proof -
  let ?actual = "remdups (map (relativeText dir) (coveredFiles d dir))"
  have ok: "List.map_filter (digestProblem sha d dir) expected = []" "fileSetProblems d dir expected = []"
    using assms(1,2,3) by (auto simp: verifyChecksumManifest_def Let_def)
  then have "length ?actual = length expected" "set ?actual \<subseteq> fst ` set expected"
    by (auto simp: fileSetProblems_def Let_def filter_empty_conv split: if_splits)
  moreover have "card (fst ` set expected) = length expected"
    using distinct_card [OF assms(4)] by simp
  ultimately have "set ?actual = fst ` set expected"
    by (metis List.finite_set card_subset_eq distinct_card distinct_remdups list.set_map)
  then show "set (map (relativeText dir) (coveredFiles d dir)) = fst ` set expected" by simp
  show "\<exists>c. readFile d (dir @ pathElements r) = Some c \<and> sha c = Some dg" if "(r, dg) \<in> set expected" for r dg
  proof -
    have "digestProblem sha d dir (r, dg) = None"
      using ok(1) that by (auto simp: map_filter_def filter_empty_conv)
    then show ?thesis by (auto simp: digestProblem_def split: option.splits if_splits)
  qed
qed

text \<open>Later changes to files that the checksums do not cover do not matter.\<close>

lemma verify_written:
  assumes "\<And>c dg. sha c = Some dg \<Longrightarrow> length dg = 64 \<and> list_all isHex dg"
    and "covered_ok (disk w) dir"
    and "writeChecksumManifest sha dir w = (Inr True, w')"
    and later: "\<And>q. strict_prefix dir q \<Longrightarrow> coveredName (last q) \<or> q = dir @ [''manifest.sha256''] \<Longrightarrow> lookup d' q = lookup (disk w') q"
  shows "verifyChecksumManifest sha d' dir [] = (True, [])"
proof -
  let ?files = "sort (coveredFiles (disk w) dir)" and ?row = "digestRow sha (disk w) dir"
  let ?rows = "map ?row ?files"
  note wrote = writeChecksum_rows [OF assms(3)]
  have same: "lookup d' q = lookup (disk w) q" if "strict_prefix dir q" "coveredName (last q)" for q
  proof -
    have "q \<noteq> dir @ [''manifest.sha256'']" "q \<noteq> dir @ [''manifest.sha256.tmp'']" using that(2) uncovered_manifest by auto
    then show ?thesis using storePut_frame [OF wrote(3), of q] later that by simp
  qed
  then have covered: "q \<in> set (coveredFiles d' dir) \<longleftrightarrow> q \<in> set (coveredFiles (disk w) dir)"
    "q \<in> set (coveredFiles (disk w) dir) \<Longrightarrow> readFile d' q = readFile (disk w) q" for q
    by (auto simp: coveredFiles_iff readFile_def)
  have digest: "length (snd (?row q)) = 64 \<and> list_all isHex (snd (?row q))" if "q \<in> set ?files" for q
    using wrote(2) assms(1) that by (fastforce simp: digestRow_def)
  have good: "\<forall>(r, dg)\<in>set ?rows. length dg = 64 \<and> list_all isHex dg \<and> safeRelativePath r"
    using digest assms(2) by (auto simp: covered_ok_def digestRow_def)
  have "inj_on (relativeText dir) (set ?files)" using covered_rel_inj [OF assms(2)] by simp
  then have rel: "distinct (map fst ?rows)"
    using distinct_covered by (simp add: comp_def digestRow_def distinct_map)
  have "newline \<notin> set ((case ?row q of (r, dg) \<Rightarrow> dg @ ''  '' @ r))" if "q \<in> set ?files" for q
    using digest [OF that] assms(2) that
    by (auto simp: digestRow_def covered_ok_def list_all_iff isHex_def char_class_defs newline_def)
  then have "getlines (concat (map (\<lambda>l. l @ [newline]) (map (\<lambda>(r, dg). dg @ ''  '' @ r) ?rows))) =
      map (\<lambda>(r, dg). dg @ ''  '' @ r) ?rows"
    by (intro getlines_concat) auto
  moreover have "readFile d' (dir @ [''manifest.sha256'']) =
      Some (concat (map (\<lambda>l. l @ [newline]) (map (\<lambda>(r, dg). dg @ ''  '' @ r) ?rows)))"
    using storePut_done [OF wrote(3)] later [of "dir @ [''manifest.sha256'']"] by (simp add: readFile_def comp_def strict_prefix_def)
  moreover have "checksumLoop 0 (map (\<lambda>(r, dg). dg @ ''  '' @ r) ?rows) ([], []) = (?rows, [])"
    using checksumLoop_good [OF good rel, of "[]"] by simp
  moreover have "digestProblem sha d' dir (?row q) = None" if "q \<in> set ?files" for q
  proof -
    have "dir @ pathElements (relativeText dir q) = q"
      using that assms(2) by (intro relative_elements) (auto simp: covered_ok_def coveredFiles_iff)
    then show ?thesis using wrote(2) that covered(2) by (fastforce simp: digestProblem_def digestRow_def)
  qed
  then have "List.map_filter (digestProblem sha d' dir) ?rows = []"
    by (auto simp: map_filter_def filter_empty_conv)
  moreover have "fileSetProblems d' dir ?rows = []"
  proof -
    have sets: "set (coveredFiles d' dir) = set ?files" using covered(1) by auto
    then have fst: "set (map (relativeText dir) (coveredFiles d' dir)) = fst ` set ?rows"
      by (force simp: digestRow_def)
    then have "length (remdups (map (relativeText dir) (coveredFiles d' dir))) = length ?rows"
      using distinct_card [OF rel] by (metis length_map length_remdups_card_conv list.set_map)
    with fst show ?thesis by (auto simp: fileSetProblems_def Let_def filter_empty_conv)
  qed
  ultimately show ?thesis using wrote(1) by (simp add: verifyChecksumManifest_def)
qed

definition sampleSha :: "string \<Rightarrow> string option" where
  "sampleSha c = Some (replicate 63 CHR ''a'' @ [if c = [] then CHR ''0'' else CHR ''1''])"

definition sampleDisk :: disk where
  "sampleDisk = [([''r''], Dir), ([''r'', ''a.bin''], File ''x'')]"

lemma sample_covered: "coveredFiles sampleDisk [''r''] = [[''r'', ''a.bin'']]"
  by (simp add: coveredFiles_def below_def sampleDisk_def readFile_def lookup_def coveredName_def
      extension_def find_last_of_def strict_prefix_def)

lemma sample_wrote:
  "\<exists>w'. writeChecksumManifest sampleSha [''r''] \<lparr>disk = sampleDisk, script = []\<rparr> = (Inr True, w') \<and>
     real_names (disk w')"
  by (simp add: writeChecksumManifest_def sample_covered checksumLine_def)
    (simp add: real_names_def names_ok_def sampleDisk_def readFile_def lookup_def sampleSha_def storeAtomically_def openTrunc_def
      writeContent_def renameFile_def perform_def parentPath_def temporaryOf_def isDirectory_def)

lemma sample_sha: "sampleSha c = Some dg \<Longrightarrow> length dg = 64 \<and> list_all isHex dg"
  by (auto simp: sampleSha_def list_all_iff isHex_def char_class_defs split: if_splits)

lemma sample_ok: "covered_ok sampleDisk [''r'']"
  by (simp add: covered_ok_def sample_covered names_ok_def safeRelativePath_def relativeText_def
      pathElements_def safeComponent_def find_from.simps substr_def toupper_def kWindowsDevices_def
      code_def newline_def)

section \<open>Properties\<close>

text \<open>
  The verifier accepts what the storage worker writes: right after
  \<open>manifest.sha256\<close> was written over files with names the reader trusts, the
  verification succeeds without problems, for any digest function that returns 64
  lower-case hexadecimal characters.
\<close>

theorem checksum_roundtrip:
  assumes "\<And>c dg. sha c = Some dg \<Longrightarrow> length dg = 64 \<and> list_all isHex dg"
    and "covered_ok (disk w) dir"
    and "writeChecksumManifest sha dir w = (Inr True, w')"
  shows "verifyChecksumManifest sha (disk w') dir [] = (True, [])"
  using verify_written [OF assms refl] .

theorem checksum_roundtrip_witness:
  "\<exists>w'. writeChecksumManifest sampleSha [''r''] \<lparr>disk = sampleDisk, script = []\<rparr> = (Inr True, w') \<and>
     verifyChecksumManifest sampleSha (disk w') [''r''] [] = (True, [])"
proof -
  obtain w' where w': "writeChecksumManifest sampleSha [''r''] \<lparr>disk = sampleDisk, script = []\<rparr> = (Inr True, w')"
    using sample_wrote by blast
  with checksum_roundtrip [OF sample_sha _ w'] sample_ok show ?thesis by simp
qed

text \<open>
  Paths read from a manifest cannot leave the directory: a path the reader calls
  safe names, when the operating system follows it from any directory, the path of its
  elements below that directory.
\<close>

theorem safe_path_contained:
  assumes "safeRelativePath s"
  shows "resolve dir (pathElements s) = dir @ pathElements s \<and> strict_prefix dir (dir @ pathElements s)"
proof -
  have "\<forall>e\<in>set (pathElements s). e \<noteq> ''..'' \<and> e \<noteq> ''.'' \<and> e \<noteq> []"
    using assms safeComponent_plain by (auto simp: safeRelativePath_def list_all_iff)
  moreover have "pathElements s \<noteq> []" using assms by (simp add: safeRelativePath_def pathElements_def Let_def)
  ultimately show ?thesis by (simp add: resolve_plain strict_prefix_def)
qed

theorem safe_path_contained_witness:
  "resolve [''records'', ''e1''] (pathElements ''images//a.jpg'') = [''records'', ''e1'', ''images'', ''a.jpg''] \<and>
   \<not> safeRelativePath ''../secret''"
proof -
  have "safeRelativePath ''images//a.jpg''"
    by (simp add: safeRelativePath_def pathElements_def safeComponent_def find_from.simps substr_def
        toupper_def kWindowsDevices_def code_def)
  from safe_path_contained [OF this, of "[''records'', ''e1'']"] show ?thesis
    by (simp add: safeRelativePath_def pathElements_def safeComponent_def)
qed

text \<open>
  The checksum manifest seals the directory: if the verification succeeds on two
  disks whose \<open>manifest.sha256\<close> are equal, the two directories cover the same files
  and every covered file has the same digest on both.
\<close>

theorem checksum_seals:
  assumes "fst (verifyChecksumManifest sha d1 dir [])" "fst (verifyChecksumManifest sha d2 dir [])"
    and "readFile d1 (dir @ [''manifest.sha256'']) = readFile d2 (dir @ [''manifest.sha256''])"
    and "real_names d1" "real_names d2"
  shows "set (coveredFiles d1 dir) = set (coveredFiles d2 dir) \<and>
     (\<forall>q\<in>set (coveredFiles d1 dir). \<exists>c1 c2 digest. readFile d1 q = Some c1 \<and> readFile d2 q = Some c2 \<and>
        sha c1 = Some digest \<and> sha c2 = Some digest)"
proof -
  obtain content where c1: "readFile d1 (dir @ [''manifest.sha256'']) = Some content"
    using assms(1) by (auto simp: verifyChecksumManifest_def split: option.splits)
  then have c2: "readFile d2 (dir @ [''manifest.sha256'']) = Some content" using assms(3) by simp
  obtain expected problems where loop: "checksumLoop 0 (getlines content) ([], []) = (expected, problems)"
    by fastforce
  then have dist: "distinct (map fst expected)"
    using checksumLoop_distinct [of "[]" 0 "getlines content" "[]"] by simp
  note files1 = verified_files [OF assms(1) c1 loop dist]
  note files2 = verified_files [OF assms(2) c2 loop dist]
  have q: "dir @ pathElements (relativeText dir q) = q \<and> relativeText dir q \<in> fst ` set expected"
    if "q \<in> set (coveredFiles d1 dir) \<or> q \<in> set (coveredFiles d2 dir)" for q
    using that assms(4,5) files1(1) [symmetric] files2(1) [symmetric]
    by (auto intro!: relative_elements simp: coveredFiles_iff covered_names)
  have sub: "q \<in> set (coveredFiles b dir)"
    if "q \<in> set (coveredFiles a dir)" "dir @ pathElements (relativeText dir q) = q"
      "relativeText dir q \<in> relativeText dir ` set (coveredFiles b dir)"
      "\<And>r. r \<in> set (coveredFiles b dir) \<Longrightarrow> dir @ pathElements (relativeText dir r) = r" for a b q
    using that by (metis imageE)
  have "set (coveredFiles d1 dir) = set (coveredFiles d2 dir)"
    using q sub files1(1) files2(1) unfolding set_map by blast
  moreover have "\<exists>c1 c2 digest. readFile d1 q = Some c1 \<and> readFile d2 q = Some c2 \<and>
        sha c1 = Some digest \<and> sha c2 = Some digest" if "q \<in> set (coveredFiles d1 dir)" for q
  proof -
    have at: "dir @ pathElements (relativeText dir q) = q" using q that by blast
    have "relativeText dir q \<in> fst ` set expected" using q that by blast
    then obtain dg where dg: "(relativeText dir q, dg) \<in> set expected" by force
    show ?thesis using files1(2) [OF dg] files2(2) [OF dg] unfolding at by blast
  qed
  ultimately show ?thesis by blast
qed

theorem checksum_seals_witness:
  "\<exists>w' :: World. fst (verifyChecksumManifest sampleSha (disk w') [''r''] []) \<and>
     (\<forall>q\<in>set (coveredFiles (disk w') [''r'']). \<exists>c dg. readFile (disk w') q = Some c \<and> sampleSha c = Some dg)"
proof -
  obtain w' where w': "writeChecksumManifest sampleSha [''r''] \<lparr>disk = sampleDisk, script = []\<rparr> = (Inr True, w')"
    "real_names (disk w')"
    using sample_wrote by blast
  then have ok: "fst (verifyChecksumManifest sampleSha (disk w') [''r''] [])"
    using verify_written [OF sample_sha _ w'(1) refl] sample_ok by simp
  have "\<forall>q\<in>set (coveredFiles (disk w') [''r'']). \<exists>c dg. readFile (disk w') q = Some c \<and> sampleSha c = Some dg"
    using checksum_seals [OF ok ok refl w'(2,2)] by blast
  then show ?thesis using ok by blast
qed

end
