(* ===== verification/Record_Verify.thy ===== *)
theory Record_Verify
  imports Record_Text Checksum Sensor_Data
begin

text \<open>
  The second half of \<open>record_io.hpp\<close>: reading a stored record back and the verification
  of an event directory.  The Zstandard library, the deserialisation of the ROS messages
  and the digest are arguments: a record \<open>Zstd\<close> of the library's calls, two decoders,
  and \<open>sha\<close> as in theory Checksum.
\<close>

section \<open>Reading a record\<close>

definition kMaxRecordBytes :: nat where
  "kMaxRecordBytes = 2 ^ 30"

definition readFileBytes :: "disk \<Rightarrow> path \<Rightarrow> string option" where
  "readFileBytes d p =
     (case readFile d p of None \<Rightarrow> None
      | Some bytes \<Rightarrow> if length bytes > kMaxRecordBytes then None else Some bytes)"

text \<open>
  The calls of the library: the content size of a frame, the one-shot decoder with the
  capacity of its output, the creation of a stream decoder (\<open>None\<close> on failure) and one
  call of the stream decoder, which gets the input and its position and returns its status,
  what it appended to the output chunk, the new position and its next state.
\<close>

datatype ContentSize = SizeError | SizeUnknown | KnownSize nat

datatype StreamStatus = StreamError string | Remaining nat

type_synonym 's StreamCall = "'s \<Rightarrow> nat \<Rightarrow> string \<Rightarrow> nat \<Rightarrow> StreamStatus \<times> string \<times> nat \<times> 's"

record 's Zstd =
  getFrameContentSize :: "string \<Rightarrow> ContentSize"
  decompressFrame :: "nat \<Rightarrow> string \<Rightarrow> string + string"
  createDStream :: "'s option"
  decompressStream :: "'s StreamCall"

definition chunkSize :: nat where
  "chunkSize = 2 ^ 16"

text \<open>The loop need not end for every library, so not returning is \<open>None\<close>.\<close>

partial_function (option) streamLoop ::
  "'s StreamCall \<Rightarrow> string \<Rightarrow> 's \<Rightarrow> nat \<Rightarrow> string \<Rightarrow> (string + string) option" where
  "streamLoop call data st pos out =
     (case call st chunkSize data pos of (res, produced, pos', st') \<Rightarrow>
        (case res of
           StreamError e \<Rightarrow> Some (Inl e)
         | Remaining r \<Rightarrow>
             if length produced > kMaxRecordBytes - length out
             then Some (Inl ''decompressed record exceeds safety limit'')
             else if r = 0 then Some (Inr (out @ produced))
             else if pos' = length data \<and> produced = [] then Some (Inl ''truncated zstd frame'')
             else streamLoop call data st' pos' (out @ produced)))"

definition decompressZstd :: "'s Zstd \<Rightarrow> string \<Rightarrow> (string + string) option" where
  "decompressZstd z data =
     (case getFrameContentSize z data of
        KnownSize n \<Rightarrow>
          if n > kMaxRecordBytes then Some (Inl ''decompressed record exceeds safety limit'')
          else Some (decompressFrame z n data)
      | _ \<Rightarrow>
          (case createDStream z of None \<Rightarrow> Some (Inl ''cannot create zstd decompressor'')
           | Some st \<Rightarrow> streamLoop (decompressStream z) data st 0 []))"

definition loadRecordBytes :: "'s Zstd \<Rightarrow> disk \<Rightarrow> path \<Rightarrow> ManifestEntry \<Rightarrow> (string + string) option" where
  "loadRecordBytes z d dir entry =
     (if \<not> safeRelativePath (me_file entry) then Some (Inl (''unsafe record path: '' @ me_file entry))
      else case readFileBytes d (dir @ pathElements (me_file entry)) of
          None \<Rightarrow> Some (Inl (''cannot read '' @ me_file entry))
        | Some bytes \<Rightarrow> if me_encoding entry = ''zstd'' then decompressZstd z bytes else Some (Inr bytes))"

text \<open>
  What the documentation of the library promises of a call: it never moves backwards or past
  the input, fills at most the chunk, and, unless it fails or the frame is complete, it
  consumes input or produces output while there is input left.
\<close>

definition forward_progress :: "'s StreamCall \<Rightarrow> string \<Rightarrow> bool" where
  "forward_progress call data \<longleftrightarrow> (\<forall>st pos res produced pos' st'.
     pos \<le> length data \<longrightarrow> call st chunkSize data pos = (res, produced, pos', st') \<longrightarrow>
       pos \<le> pos' \<and> pos' \<le> length data \<and> length produced \<le> chunkSize \<and>
       (res \<in> range Remaining \<longrightarrow> pos < length data \<longrightarrow> pos < pos' \<or> produced \<noteq> []))"

lemma streamLoop_returns:
  assumes "forward_progress call data" "pos \<le> length data" "length out \<le> kMaxRecordBytes"
  shows "\<exists>r. streamLoop call data st pos out = Some r \<and> (\<forall>bytes. r = Inr bytes \<longrightarrow> length bytes \<le> kMaxRecordBytes)"
  using assms(2,3)
proof (induction "(length data - pos) + (kMaxRecordBytes - length out)" arbitrary: st pos out rule: less_induct)
  case less
  obtain res produced pos' st' where call: "call st chunkSize data pos = (res, produced, pos', st')"
    using prod_cases4 by blast
  have pos': "pos \<le> pos'" "pos' \<le> length data"
      and moves: "res \<in> range Remaining \<Longrightarrow> pos < length data \<Longrightarrow> pos < pos' \<or> produced \<noteq> []"
    using assms(1) less.prems(1) call unfolding forward_progress_def by blast+
  show ?case
  proof (cases res)
    case (StreamError e)
    then show ?thesis by (simp add: streamLoop.simps [of call data st pos out] call)
  next
    case (Remaining r)
    consider "length produced > kMaxRecordBytes - length out" | "length produced \<le> kMaxRecordBytes - length out" "r = 0"
      | "length produced \<le> kMaxRecordBytes - length out" "r \<noteq> 0" "pos' = length data" "produced = []"
      | "length produced \<le> kMaxRecordBytes - length out" "r \<noteq> 0" "pos' \<noteq> length data \<or> produced \<noteq> []"
      by linarith
    then show ?thesis
    proof cases
      case 4
      have smaller: "(length data - pos') + (kMaxRecordBytes - length (out @ produced)) < (length data - pos) + (kMaxRecordBytes - length out)"
      proof (cases "produced = []")
        case True
        then show ?thesis using 4(3) Remaining pos' moves less.prems by auto
      next
        case False
        then have "length produced > 0" by simp
        then show ?thesis using 4(1) pos' less.prems unfolding length_append by linarith
      qed
      have le: "length (out @ produced) \<le> kMaxRecordBytes" using 4(1) less.prems(2) unfolding length_append by linarith
      from less.hyps [OF smaller pos'(2) le, of st'] obtain got where "streamLoop call data st' pos' (out @ produced) = Some got"
          "\<forall>bytes. got = Inr bytes \<longrightarrow> length bytes \<le> kMaxRecordBytes" by blast
      then show ?thesis using 4 Remaining by (simp add: streamLoop.simps [of call data st pos out] call)
    qed (use Remaining less.prems(2) in \<open>simp_all add: streamLoop.simps [of call data st pos out] call\<close>)
  qed
qed

section \<open>Verification of a directory\<close>

record VerifyOptions =
  vo_sensor :: string
  vo_limit :: nat

record VerificationReport =
  totalEntries :: nat
  verifiedEntries :: nat
  failedEntries :: nat
  problems :: "string list"
  warnings :: "string list"

definition report_ok :: "VerificationReport \<Rightarrow> bool" where
  "report_ok r \<longleftrightarrow> failedEntries r = 0 \<and> totalEntries r > 0 \<and> problems r = []"

definition failWith :: "string \<Rightarrow> VerificationReport \<Rightarrow> VerificationReport" where
  "failWith message r = r\<lparr>failedEntries := Suc (failedEntries r), problems := problems r @ [message]\<rparr>"

definition imageProblem :: "(string \<Rightarrow> string + Image) \<Rightarrow> ManifestEntry \<Rightarrow> string \<Rightarrow> string option" where
  "imageProblem decodeImage entry bytes =
     (case decodeImage bytes of Inl e \<Rightarrow> Some (''deserialize failed: '' @ e)
      | Inr img \<Rightarrow>
          if img_width img = 0 \<or> img_height img = 0 \<or> img_step img = 0 \<or> img_encoding img = [] \<or>
             img_step img * img_height img > length (img_data img) \<or> img_stamp img \<noteq> me_timestampNs entry
          then Some ''inconsistent image fields'' else None)"

definition cloudProblem :: "(string \<Rightarrow> string + PointCloud2) \<Rightarrow> ManifestEntry \<Rightarrow> string \<Rightarrow> string option" where
  "cloudProblem decodeCloud entry bytes =
     (case decodeCloud bytes of Inl e \<Rightarrow> Some (''deserialize failed: '' @ e)
      | Inr cloud \<Rightarrow>
          if pc_fields cloud = [] \<or> pc_point_step cloud = 0 \<or>
             pc_width cloud * pc_height cloud > length (pc_data cloud) div pc_point_step cloud \<or>
             pc_stamp cloud \<noteq> me_timestampNs entry
          then Some ''inconsistent point cloud fields'' else None)"

text \<open>What is wrong with an entry, in the order of the checks.\<close>

definition recordProblem ::
  "'s Zstd \<Rightarrow> (string \<Rightarrow> string + Image) \<Rightarrow> (string \<Rightarrow> string + PointCloud2) \<Rightarrow> disk \<Rightarrow> path \<Rightarrow>
   ManifestEntry \<Rightarrow> string option option" where
  "recordProblem z decodeImage decodeCloud d dir entry =
     (case loadRecordBytes z d dir entry of
        None \<Rightarrow> None
      | Some (Inl e) \<Rightarrow> Some (Some e)
      | Some (Inr bytes) \<Rightarrow> Some (
          if bytes = [] then Some ''record is empty''
          else if me_sensor entry = ''camera'' then imageProblem decodeImage entry bytes
          else if me_sensor entry = ''lidar'' then cloudProblem decodeCloud entry bytes
          else Some (''unknown sensor '' @ [CHR 0x27] @ me_sensor entry @ [CHR 0x27])))"

definition convertedMissing :: "disk \<Rightarrow> path \<Rightarrow> ManifestEntry \<Rightarrow> bool" where
  "convertedMissing d dir entry \<longleftrightarrow> me_convertedFile entry \<noteq> [] \<and>
     (\<not> safeRelativePath (me_convertedFile entry) \<or>
      \<not> pathExists d (dir @ pathElements (me_convertedFile entry)))"

definition verifyEntry ::
  "'s Zstd \<Rightarrow> (string \<Rightarrow> string + Image) \<Rightarrow> (string \<Rightarrow> string + PointCloud2) \<Rightarrow> disk \<Rightarrow> path \<Rightarrow>
   ManifestEntry \<Rightarrow> VerificationReport \<Rightarrow> VerificationReport option" where
  "verifyEntry z decodeImage decodeCloud d dir entry report0 =
     (let report = report0\<lparr>totalEntries := Suc (totalEntries report0)\<rparr>;
          label = me_sensor entry @ ''@'' @ int_to_string (me_timestampNs entry)
      in case recordProblem z decodeImage decodeCloud d dir entry of
           None \<Rightarrow> None
         | Some (Some problem) \<Rightarrow> Some (failWith (label @ '': '' @ problem) report)
         | Some None \<Rightarrow>
             let report = report\<lparr>verifiedEntries := Suc (verifiedEntries report)\<rparr>
             in Some (if convertedMissing d dir entry
                 then report\<lparr>warnings := warnings report @ [label @ '': converted copy missing: '' @ me_convertedFile entry]\<rparr>
                 else report))"

fun verifyLoop ::
  "'s Zstd \<Rightarrow> (string \<Rightarrow> string + Image) \<Rightarrow> (string \<Rightarrow> string + PointCloud2) \<Rightarrow> disk \<Rightarrow> path \<Rightarrow>
   VerifyOptions \<Rightarrow> ManifestEntry list \<Rightarrow> VerificationReport \<Rightarrow> VerificationReport option" where
  "verifyLoop z decodeImage decodeCloud d dir options [] report = Some report"
| "verifyLoop z decodeImage decodeCloud d dir options (entry # rest) report =
     (if vo_sensor options \<noteq> [] \<and> me_sensor entry \<noteq> vo_sensor options
      then verifyLoop z decodeImage decodeCloud d dir options rest report
      else if vo_limit options \<noteq> 0 \<and> totalEntries report \<ge> vo_limit options then Some report
      else case verifyEntry z decodeImage decodeCloud d dir entry report of
          None \<Rightarrow> None
        | Some report' \<Rightarrow> verifyLoop z decodeImage decodeCloud d dir options rest report')"

definition verifyEventDirectory ::
  "(string \<Rightarrow> string option) \<Rightarrow> 's Zstd \<Rightarrow> (string \<Rightarrow> string + Image) \<Rightarrow> (string \<Rightarrow> string + PointCloud2) \<Rightarrow>
   disk \<Rightarrow> path \<Rightarrow> VerifyOptions \<Rightarrow> VerificationReport option" where
  "verifyEventDirectory sha z decodeImage decodeCloud d dir options =
     (let (checked, problems0) = verifyChecksumManifest sha d dir [];
          (entries, torn) = readManifest (readFile d (dir @ [''manifest.csv'']));
          report = \<lparr>totalEntries = 0, verifiedEntries = 0, failedEntries = length torn,
                    problems = problems0 @ torn, warnings = []\<rparr>
      in if entries = []
         then Some (report\<lparr>problems := problems report @ [''manifest.csv missing or has no entries'']\<rparr>)
         else verifyLoop z decodeImage decodeCloud d dir options entries report)"

text \<open>The entries that the options select, when some number of entries is done.\<close>

definition selectedFrom :: "nat \<Rightarrow> VerifyOptions \<Rightarrow> ManifestEntry list \<Rightarrow> ManifestEntry list" where
  "selectedFrom n options es =
     (let chosen = filter (\<lambda>e. vo_sensor options = [] \<or> me_sensor e = vo_sensor options) es
      in if vo_limit options = 0 then chosen else take (vo_limit options - n) chosen)"

text \<open>What it means for an entry to be intact.\<close>

definition intact ::
  "'s Zstd \<Rightarrow> (string \<Rightarrow> string + Image) \<Rightarrow> (string \<Rightarrow> string + PointCloud2) \<Rightarrow> disk \<Rightarrow> path \<Rightarrow> ManifestEntry \<Rightarrow> bool" where
  "intact z decodeImage decodeCloud d dir e \<longleftrightarrow> (\<exists>bytes. loadRecordBytes z d dir e = Some (Inr bytes) \<and> bytes \<noteq> [] \<and>
     (me_sensor e = ''camera'' \<and> (\<exists>img. decodeImage bytes = Inr img \<and> img_stamp img = me_timestampNs e \<and>
        img_encoding img \<noteq> [] \<and> 0 < img_width img \<and> 0 < img_height img \<and> 0 < img_step img \<and>
        img_step img * img_height img \<le> length (img_data img)) \<or>
      me_sensor e = ''lidar'' \<and> (\<exists>cloud. decodeCloud bytes = Inr cloud \<and> pc_stamp cloud = me_timestampNs e \<and>
        pc_fields cloud \<noteq> [] \<and> 0 < pc_point_step cloud \<and>
        pc_width cloud * pc_height cloud \<le> length (pc_data cloud) div pc_point_step cloud)))"

lemma intact_iff: "intact z decodeImage decodeCloud d dir e \<longleftrightarrow> recordProblem z decodeImage decodeCloud d dir e = Some None"
  by (auto simp: intact_def recordProblem_def imageProblem_def cloudProblem_def not_less
      split: option.splits sum.splits if_splits)

text \<open>One entry adds to exactly one of the two counters.\<close>

lemma verifyEntry_step:
  assumes "verifyEntry z decodeImage decodeCloud d dir e report = Some r"
  shows "totalEntries r = Suc (totalEntries report)"
    and "if intact z decodeImage decodeCloud d dir e
      then verifiedEntries r = Suc (verifiedEntries report) \<and> failedEntries r = failedEntries report \<and> problems r = problems report
      else verifiedEntries r = verifiedEntries report \<and> failedEntries r = Suc (failedEntries report) \<and> problems r \<noteq> []"
  using assms
  by (auto simp: verifyEntry_def intact_iff failWith_def Let_def split: option.splits if_splits)

lemma verifyLoop_run:
  assumes "verifyLoop z decodeImage decodeCloud d dir options es report = Some r"
  defines "done \<equiv> selectedFrom (totalEntries report) options es"
    and "good \<equiv> intact z decodeImage decodeCloud d dir"
  shows "totalEntries r = totalEntries report + length done \<and>
    verifiedEntries r = verifiedEntries report + length (filter good done) \<and>
    failedEntries r = failedEntries report + length (filter (\<lambda>e. \<not> good e) done) \<and>
    (problems r = [] \<longleftrightarrow> problems report = [] \<and> (\<forall>e\<in>set done. good e))"
  using assms(1) unfolding done_def
proof (induction es arbitrary: report)
  case (Cons e es)
  show ?case
  proof (cases "vo_sensor options \<noteq> [] \<and> me_sensor e \<noteq> vo_sensor options")
    case True
    with Cons show ?thesis by (auto simp: selectedFrom_def)
  next
    case chosen: False
    show ?thesis
    proof (cases "vo_limit options \<noteq> 0 \<and> totalEntries report \<ge> vo_limit options")
      case True
      with Cons.prems chosen show ?thesis by (auto simp: selectedFrom_def)
    next
      case False
      then obtain r1 where r1: "verifyEntry z decodeImage decodeCloud d dir e report = Some r1"
          "verifyLoop z decodeImage decodeCloud d dir options es r1 = Some r"
        using Cons.prems chosen by (auto split: option.splits if_splits)
      have "selectedFrom (totalEntries report) options (e # es) = e # selectedFrom (totalEntries r1) options es"
      proof -
        have "vo_limit options - totalEntries report = Suc (vo_limit options - totalEntries r1)" if "vo_limit options \<noteq> 0"
          using that False verifyEntry_step(1) [OF r1(1)] by simp
        then show ?thesis using chosen by (auto simp: selectedFrom_def Let_def)
      qed
      then show ?thesis
        using Cons.IH [OF r1(2)] verifyEntry_step [OF r1(1)] by (auto simp: good_def split: if_splits)
    qed
  qed
qed (auto simp: selectedFrom_def)

section \<open>Properties\<close>

text \<open>
  C28. The decompressor always returns, with at most 1 GiB: whatever a file holds, the
  one-shot path is a single call, and the streaming loop ends because each call of a library
  that makes progress consumes input or uses up the output allowance.
\<close>

theorem decompress_returns:
  assumes "forward_progress (decompressStream z) data"
    and "\<And>n bytes. decompressFrame z n data = Inr bytes \<Longrightarrow> length bytes \<le> n"
  shows "\<exists>r. decompressZstd z data = Some r \<and> (\<forall>bytes. r = Inr bytes \<longrightarrow> length bytes \<le> kMaxRecordBytes)"
proof -
  have "length ([] :: string) \<le> kMaxRecordBytes" by simp
  note stream = streamLoop_returns [OF assms(1) le0 this]
  show ?thesis using stream
    by (auto simp: decompressZstd_def not_less split: ContentSize.splits option.splits dest: assms(2) intro: order_trans)
qed

text \<open>A decoder for frames that are stored as they are.\<close>

definition copyStream :: "unit StreamCall" where
  "copyStream st n data pos =
     (let produced = take n (drop pos data); pos' = pos + length produced
      in (Remaining (length data - pos'), produced, pos', ()))"

definition storedFrames :: "unit Zstd" where
  "storedFrames = \<lparr>getFrameContentSize = (\<lambda>s. SizeUnknown), decompressFrame = (\<lambda>n s. Inr (take n s)),
     createDStream = Some (), decompressStream = copyStream\<rparr>"

lemma copyStream_progress: "forward_progress copyStream data"
  by (auto simp: forward_progress_def copyStream_def Let_def chunkSize_def)

lemma decompress_returns_witness:
  "\<exists>r. decompressZstd storedFrames ''abc'' = Some r \<and> (\<forall>bytes. r = Inr bytes \<longrightarrow> length bytes \<le> kMaxRecordBytes)"
  by (rule decompress_returns) (auto simp: storedFrames_def copyStream_progress)

lemma manifest_covered:
  assumes "readFile d (dir @ [''manifest.csv'']) \<noteq> None"
  shows "dir @ [''manifest.csv''] \<in> set (coveredFiles d dir)"
  using assms by (simp add: coveredFiles_iff strict_prefix_def coveredName_def extension_def find_last_of_def)

lemma checked_iff:
  assumes "readFile d (dir @ [''manifest.csv'']) \<noteq> None"
  shows "fst (verifyChecksumManifest sha d dir []) \<longleftrightarrow> snd (verifyChecksumManifest sha d dir []) = []"
proof (cases "readFile d (dir @ [''manifest.sha256''])")
  case (Some content)
  obtain expected problems where loop: "checksumLoop 0 (getlines content) ([], []) = (expected, problems)"
    by fastforce
  have "relativeText dir (dir @ [''manifest.csv'']) \<in> set (map (relativeText dir) (coveredFiles d dir))"
    using manifest_covered [OF assms] by simp
  then have "remdups (map (relativeText dir) (coveredFiles d dir)) \<noteq> []" by force
  then have "expected = [] \<Longrightarrow> fileSetProblems d dir expected \<noteq> []" by (simp add: fileSetProblems_def Let_def)
  then show ?thesis using Some loop by (auto simp: verifyChecksumManifest_def Let_def)
qed (simp add: verifyChecksumManifest_def)

lemma report_iff:
  assumes "verifyEventDirectory sha z decodeImage decodeCloud d dir options = Some r"
  shows "report_ok r \<longleftrightarrow>
     fst (verifyChecksumManifest sha d dir []) \<and>
     (\<exists>es. readManifest (readFile d (dir @ [''manifest.csv''])) = (es, []) \<and>
        selectedFrom 0 options es \<noteq> [] \<and>
        (\<forall>e\<in>set (selectedFrom 0 options es). intact z decodeImage decodeCloud d dir e))"
proof -
  obtain checked problems0 where c: "verifyChecksumManifest sha d dir [] = (checked, problems0)" by fastforce
  obtain es torn where m: "readManifest (readFile d (dir @ [''manifest.csv''])) = (es, torn)" by fastforce
  let ?r0 = "\<lparr>totalEntries = 0, verifiedEntries = 0, failedEntries = length torn,
      problems = problems0 @ torn, warnings = []\<rparr>"
  show ?thesis
  proof (cases "es = []")
    case True
    with assms show ?thesis by (auto simp: verifyEventDirectory_def c m report_ok_def selectedFrom_def Let_def)
  next
    case False
    then have "readFile d (dir @ [''manifest.csv'']) \<noteq> None"
      using m by (auto simp: readManifest_def readRows_def split: option.splits)
    then have checked: "checked \<longleftrightarrow> problems0 = []" using checked_iff [of d dir sha] c by simp
    from assms False have "verifyLoop z decodeImage decodeCloud d dir options es ?r0 = Some r"
      by (simp add: verifyEventDirectory_def c m)
    from verifyLoop_run [OF this] checked show ?thesis
      by (auto simp: report_ok_def c m filter_empty_conv)
  qed
qed

text \<open>
  C29. A directory passes the verification exactly when its checksum manifest is verified,
  every row of \<open>manifest.csv\<close> is well formed, the options select at least one entry, and
  every selected entry is intact: its file can be read inside the directory and decoded to a
  message of its sensor with the recorded time stamp and enough data for its dimensions.
\<close>

theorem verification_sound_complete:
  assumes "verifyEventDirectory sha z decodeImage decodeCloud d dir options = Some r"
  shows "report_ok r \<longleftrightarrow>
     fst (verifyChecksumManifest sha d dir []) \<and>
     (\<exists>es. readManifest (readFile d (dir @ [''manifest.csv''])) = (es, []) \<and>
        selectedFrom 0 options es \<noteq> [] \<and>
        (\<forall>e\<in>set (selectedFrom 0 options es). intact z decodeImage decodeCloud d dir e))"
  by (rule report_iff [OF assms])

text \<open>A directory with one intact camera record, and a decoder for it.\<close>

definition intactStore :: disk where
  "intactStore =
     [([''r''], Dir), ([''r'', ''camera_100.bin''], File ''x''),
      ([''r'', ''manifest.csv''], File (manifestHeader @ newline # manifestLine sampleEntry @ [newline])),
      ([''r'', ''manifest.sha256''],
        File (concat (map (\<lambda>f. replicate 63 CHR ''a'' @ ''1  '' @ f @ [newline]) [''camera_100.bin'', ''manifest.csv''])))]"

definition decodeSample :: "string \<Rightarrow> string + Image" where
  "decodeSample bytes = (if bytes = ''x''
     then Inr \<lparr>img_stamp = 100, img_height = 1, img_width = 1, img_step = 1, img_encoding = ''mono8'', img_data = ''p''\<rparr>
     else Inl ''bad message'')"

definition intactReport :: VerificationReport where
  "intactReport = \<lparr>totalEntries = 1, verifiedEntries = 1, failedEntries = 0, problems = [], warnings = []\<rparr>"

lemma intactStore_checked: "verifyChecksumManifest sampleSha intactStore [''r''] [] = (True, [])"
  by code_simp

lemma intactStore_manifest: "readManifest (readFile intactStore [''r'', ''manifest.csv'']) = ([sampleEntry], [])"
  by code_simp

lemma intactStore_file: "readFile intactStore [''r'', ''camera_100.bin''] = Some ''x''"
  by code_simp

lemma intactStore_path: "safeRelativePath ''camera_100.bin''" "pathElements ''camera_100.bin'' = [''camera_100.bin'']"
  by code_simp+

lemma intactStore_verifies:
  "verifyEventDirectory sampleSha storedFrames decodeSample (\<lambda>s. Inl ''no cloud'') intactStore [''r'']
     \<lparr>vo_sensor = [], vo_limit = 0\<rparr> = Some intactReport"
  by (simp add: verifyEventDirectory_def intactStore_checked intactStore_manifest verifyEntry_def recordProblem_def
      loadRecordBytes_def sampleEntry_def intactStore_path readFileBytes_def intactStore_file
      kMaxRecordBytes_def imageProblem_def decodeSample_def convertedMissing_def intactReport_def)

theorem verification_sound_complete_witness:
  "fst (verifyChecksumManifest sampleSha intactStore [''r''] []) \<and> report_ok intactReport"
  using verification_sound_complete [OF intactStore_verifies]
  by (simp add: report_ok_def intactReport_def)

text \<open>
  The counters of a report account for every row: each selected entry is either verified
  or failed, and each malformed row of the manifest is one more failure.
\<close>

theorem report_accounts:
  assumes "verifyEventDirectory sha z decodeImage decodeCloud d dir options = Some r"
  shows "\<exists>es torn. readManifest (readFile d (dir @ [''manifest.csv''])) = (es, torn) \<and>
     totalEntries r = length (selectedFrom 0 options es) \<and>
     verifiedEntries r = length (filter (intact z decodeImage decodeCloud d dir) (selectedFrom 0 options es)) \<and>
     verifiedEntries r + failedEntries r = totalEntries r + length torn"
proof -
  obtain checked problems0 where c: "verifyChecksumManifest sha d dir [] = (checked, problems0)" by fastforce
  obtain es torn where m: "readManifest (readFile d (dir @ [''manifest.csv''])) = (es, torn)" by fastforce
  show ?thesis
  proof (cases "es = []")
    case True
    with assms show ?thesis by (auto simp: verifyEventDirectory_def c m selectedFrom_def Let_def)
  next
    case False
    then have "verifyLoop z decodeImage decodeCloud d dir options es \<lparr>totalEntries = 0, verifiedEntries = 0,
        failedEntries = length torn, problems = problems0 @ torn, warnings = []\<rparr> = Some r"
      using assms by (simp add: verifyEventDirectory_def c m)
    from verifyLoop_run [OF this] show ?thesis
      using sum_length_filter_compl [of "intact z decodeImage decodeCloud d dir" "selectedFrom 0 options es"] m by auto
  qed
qed

theorem report_accounts_witness:
  "verifiedEntries intactReport + failedEntries intactReport = totalEntries intactReport +
     length (snd (readManifest (readFile intactStore ([''r''] @ [''manifest.csv'']))))"
  using report_accounts [OF intactStore_verifies] by fastforce

end
