(* ===== verification/Disk_Actions.thy ===== *)
theory Disk_Actions
  imports Disk
begin

text \<open>
  Code that works on the file system and may end in an exception: an action gets the world
  and returns an exception or a result, and the world.  The rules in \<open>keeps_rules\<close> reduce
  what a composed action leaves unchanged to its parts.  The second half are output streams
  opened for appending, with the buffer of \<open>std::filebuf\<close>; its capacity is an argument.
\<close>

named_theorems keeps_rules \<open>preservation of a predicate on worlds\<close>

type_synonym ('e, 'a) action = "World \<Rightarrow> ('e + 'a) \<times> World"

section \<open>Actions\<close>

definition ret :: "'a \<Rightarrow> ('e, 'a) action" where
  "ret x w = (Inr x, w)"

definition throw :: "'e \<Rightarrow> ('e, 'a) action" where
  "throw e w = (Inl e, w)"

definition andThen :: "('e, 'a) action \<Rightarrow> ('a \<Rightarrow> ('e, 'b) action) \<Rightarrow> ('e, 'b) action" where
  "andThen m f w = (case m w of (Inl e, w') \<Rightarrow> (Inl e, w') | (Inr x, w') \<Rightarrow> f x w')"

definition onError :: "('e, 'a) action \<Rightarrow> ('e \<Rightarrow> ('f, 'a) action) \<Rightarrow> ('f, 'a) action" where
  "onError m h w = (case m w of (Inl e, w') \<Rightarrow> h e w' | (Inr x, w') \<Rightarrow> (Inr x, w'))"

definition lift :: "(World \<Rightarrow> 'a \<times> World) \<Rightarrow> ('e, 'a) action" where
  "lift op w = (case op w of (x, w') \<Rightarrow> (Inr x, w'))"

definition observe :: "(disk \<Rightarrow> 'a) \<Rightarrow> ('e, 'a) action" where
  "observe f w = (Inr (f (disk w)), w)"

lemma ret_run [simp]: "ret x w = (Inr x, w)"
  by (simp add: ret_def)

lemma throw_run [simp]: "throw e w = (Inl e, w)"
  by (simp add: throw_def)

lemma observe_run [simp]: "observe f w = (Inr (f (disk w)), w)"
  by (simp add: observe_def)

lemma andThen_Inr:
  assumes "andThen m f w = (Inr y, w')"
  obtains x w1 where "m w = (Inr x, w1)" "f x w1 = (Inr y, w')"
  using assms by (auto simp: andThen_def split: prod.splits sum.splits)

lemma andThen_step [simp]: "m w = (Inr x, w1) \<Longrightarrow> andThen m f w = f x w1"
  by (simp add: andThen_def)

lemma lift_iff [simp]: "lift op w = (r, w') \<longleftrightarrow> (\<exists>x. r = Inr x \<and> op w = (x, w'))"
  by (auto simp: lift_def split: prod.splits)

section \<open>What an action keeps\<close>

definition keeps :: "(World \<Rightarrow> bool) \<Rightarrow> (World \<Rightarrow> 'r \<times> World) \<Rightarrow> bool" where
  "keeps P m \<longleftrightarrow> (\<forall>w. P w \<longrightarrow> P (snd (m w)))"

lemma keepsI: "(\<And>w r w'. P w \<Longrightarrow> m w = (r, w') \<Longrightarrow> P w') \<Longrightarrow> keeps P m"
  by (metis keeps_def surjective_pairing)

lemma keepsD: "keeps P m \<Longrightarrow> m w = (r, w') \<Longrightarrow> P w \<Longrightarrow> P w'"
  by (metis keeps_def snd_conv)

lemma keeps_basic [keeps_rules]: "keeps P (ret x)" "keeps P (throw e)" "keeps P (observe f)"
  by (simp_all add: keeps_def)

lemma keeps_lift [keeps_rules]: "keeps P op \<Longrightarrow> keeps P (lift op)"
  by (auto simp: keeps_def lift_def split: prod.splits)

lemma keeps_andThen_result:
  assumes "keeps P m" "\<And>x w w1. m w = (Inr x, w1) \<Longrightarrow> keeps P (f x)"
  shows "keeps P (andThen m f)"
proof (rule keepsI)
  fix w r w' assume "P w" "andThen m f w = (r, w')"
  moreover obtain q w1 where m: "m w = (q, w1)" by fastforce
  moreover have "P w1" using keepsD [OF assms(1) m] \<open>P w\<close> .
  ultimately show "P w'" by (cases q) (auto simp: andThen_def dest: keepsD [OF assms(2)])
qed

lemma keeps_andThen [keeps_rules]: "keeps P m \<Longrightarrow> (\<And>x. keeps P (f x)) \<Longrightarrow> keeps P (andThen m f)"
  by (rule keeps_andThen_result)

lemma keeps_onError [keeps_rules]:
  assumes "keeps P m" "\<And>e. keeps P (h e)"
  shows "keeps P (onError m h)"
proof (rule keepsI)
  fix w r w' assume "P w" "onError m h w = (r, w')"
  moreover obtain q w1 where m: "m w = (q, w1)" by fastforce
  moreover have "P w1" using keepsD [OF assms(1) m] \<open>P w\<close> .
  ultimately show "P w'" by (cases q) (auto simp: onError_def dest: keepsD [OF assms(2)])
qed

lemma keeps_if [keeps_rules]: "(b \<Longrightarrow> keeps P m) \<Longrightarrow> (\<not> b \<Longrightarrow> keeps P n) \<Longrightarrow> keeps P (if b then m else n)"
  by simp

lemma keeps_case_sum [keeps_rules]:
  "(\<And>e. keeps P (f e)) \<Longrightarrow> (\<And>x. keeps P (g x)) \<Longrightarrow> keeps P (case s of Inl e \<Rightarrow> f e | Inr x \<Rightarrow> g x)"
  by (cases s) simp_all

lemma keeps_case_option [keeps_rules]:
  "keeps P f \<Longrightarrow> (\<And>x. keeps P (g x)) \<Longrightarrow> keeps P (case s of None \<Rightarrow> f | Some x \<Rightarrow> g x)"
  by (cases s) simp_all

lemma keeps_case_prod [keeps_rules]: "(\<And>x y. keeps P (f x y)) \<Longrightarrow> keeps P (case s of (x, y) \<Rightarrow> f x y)"
  by (cases s) simp

section \<open>Appending\<close>

definition openAppend :: "path \<Rightarrow> World \<Rightarrow> bool \<times> World" where
  "openAppend p =
     perform (\<lambda>d. if isDirectory d (parentPath p) \<and> \<not> isDirectory d p
         then Some (if readFile d p = None then AList.update p (File []) d else d) else None)
       (\<lambda>n d. d)"

definition appendContent :: "path \<Rightarrow> string \<Rightarrow> World \<Rightarrow> bool \<times> World" where
  "appendContent p content =
     perform (\<lambda>d. case readFile d p of None \<Rightarrow> None
         | Some old \<Rightarrow> Some (AList.update p (File (old @ content)) d))
       (\<lambda>n d. case readFile d p of None \<Rightarrow> d
         | Some old \<Rightarrow> AList.update p (File (old @ take n content)) d)"

lemma openAppend_lookup:
  "openAppend p w = (ok, w') \<Longrightarrow> q \<noteq> p \<Longrightarrow> lookup (disk w') q = lookup (disk w) q"
  unfolding openAppend_def by (erule perform_cases) (auto simp: lookup_update split: if_splits)

lemma openAppend_file:
  "openAppend p w = (True, w') \<Longrightarrow> p \<noteq> [] \<Longrightarrow>
   readFile (disk w') p = Some (case readFile (disk w) p of None \<Rightarrow> [] | Some c \<Rightarrow> c)"
  unfolding openAppend_def
  by (erule perform_cases) (auto simp: lookup_update readFile_def isDirectory_def split: if_splits option.splits node.splits)

lemma appendContent_lookup:
  "appendContent p c w = (ok, w') \<Longrightarrow> q \<noteq> p \<Longrightarrow> lookup (disk w') q = lookup (disk w) q"
  unfolding appendContent_def by (erule perform_cases) (auto simp: lookup_update split: option.splits)

lemma appendContent_file:
  "appendContent p c w = (True, w') \<Longrightarrow> \<exists>old. readFile (disk w) p = Some old \<and> readFile (disk w') p = Some (old @ c)"
  unfolding appendContent_def
  by (erule perform_cases) (auto simp: lookup_update readFile_def split: option.splits)

record ostream =
  os_path :: path
  os_buffer :: string
  os_good :: bool

text \<open>
  Text that does not fit in the buffer is written through with it.  A failed write makes the
  stream bad, and its text stays pending: closing the stream tries once more.
\<close>

definition writeThrough :: "string \<Rightarrow> ostream \<Rightarrow> World \<Rightarrow> ostream \<times> World" where
  "writeThrough text s w =
     (let (ok, w') = appendContent (os_path s) text w
      in (s\<lparr>os_buffer := (if ok then [] else text), os_good := ok\<rparr>, w'))"

definition putStream :: "nat \<Rightarrow> string \<Rightarrow> ostream \<Rightarrow> World \<Rightarrow> ostream \<times> World" where
  "putStream capacity text s w =
     (if \<not> os_good s then (s, w)
      else if length (os_buffer s @ text) \<le> capacity then (s\<lparr>os_buffer := os_buffer s @ text\<rparr>, w)
      else writeThrough (os_buffer s @ text) s w)"

fun putRows :: "nat \<Rightarrow> string list \<Rightarrow> ostream \<Rightarrow> World \<Rightarrow> ostream \<times> World" where
  "putRows capacity [] s w = (s, w)"
| "putRows capacity (row # rows) s w =
     (let (s', w') = putStream capacity row s w in putRows capacity rows s' w')"

definition flushStream :: "ostream \<Rightarrow> World \<Rightarrow> ostream \<times> World" where
  "flushStream s w = (if \<not> os_good s \<or> os_buffer s = [] then (s, w) else writeThrough (os_buffer s) s w)"

definition closeStream :: "ostream \<Rightarrow> World \<Rightarrow> bool \<times> World" where
  "closeStream s w = (if os_buffer s = [] then (os_good s, w) else appendContent (os_path s) (os_buffer s) w)"

lemma writeThrough_path: "writeThrough text s w = (s', w') \<Longrightarrow> os_path s' = os_path s"
  by (auto simp: writeThrough_def split: prod.splits)

lemma stream_path:
  "putStream capacity text s w = (s', w') \<Longrightarrow> os_path s' = os_path s"
  "flushStream s w = (s', w') \<Longrightarrow> os_path s' = os_path s"
  by (auto simp: putStream_def flushStream_def dest: writeThrough_path split: if_splits)

text \<open>The content of the file and the buffer together, while the stream is good.\<close>

definition streamed :: "ostream \<Rightarrow> World \<Rightarrow> string \<Rightarrow> bool" where
  "streamed s w text \<longleftrightarrow> (os_good s \<longrightarrow> (\<exists>c. readFile (disk w) (os_path s) = Some c \<and> c @ os_buffer s = text))"

lemma streamed_put:
  assumes "streamed s w text" "putStream capacity addition s w = (s', w')"
  shows "streamed s' w' (text @ addition)"
  using assms
  by (fastforce simp: streamed_def putStream_def writeThrough_def dest: appendContent_file split: if_splits prod.splits)

lemma rows_path: "putRows capacity rows s w = (s', w') \<Longrightarrow> os_path s' = os_path s"
proof (induction rows arbitrary: s w)
  case (Cons row rows)
  obtain s1 w1 where put: "putStream capacity row s w = (s1, w1)" by fastforce
  with Cons stream_path(1) [OF put] show ?case by fastforce
qed simp

lemma streamed_rows:
  "streamed s w text \<Longrightarrow> putRows capacity rows s w = (s', w') \<Longrightarrow> streamed s' w' (text @ concat rows) \<and> os_path s' = os_path s"
proof (induction rows arbitrary: s w "text")
  case (Cons row rows)
  obtain s1 w1 where put: "putStream capacity row s w = (s1, w1)" by fastforce
  with Cons streamed_put [OF Cons.prems(1) put] stream_path(1) [OF put] show ?case by fastforce
qed simp

lemma streamed_flush:
  assumes "streamed s w text" "flushStream s w = (s', w')" "os_good s'"
  shows "readFile (disk w') (os_path s) = Some text \<and> os_buffer s' = []"
  using assms
  by (fastforce simp: streamed_def flushStream_def writeThrough_def dest: appendContent_file split: if_splits prod.splits)

lemma put_good: "putStream capacity text s w = (s', w') \<Longrightarrow> os_good s' \<Longrightarrow> os_good s"
  by (auto simp: putStream_def split: if_splits)

lemma closed_flushed: "os_good s \<Longrightarrow> os_buffer s = [] \<Longrightarrow> closeStream s w = (True, w)"
  by (simp add: closeStream_def)

text \<open>A stream touches its own file only.\<close>

lemma keeps_stream [keeps_rules]:
  assumes "\<And>c. keeps P (appendContent (os_path s) c)"
  shows "keeps P (putStream capacity text s)" "keeps P (flushStream s)" "keeps P (closeStream s)"
  using assms
  by (auto simp: keeps_def putStream_def flushStream_def closeStream_def writeThrough_def case_prod_beta)

lemma keeps_rows [keeps_rules]:
  assumes "\<And>c. keeps P (appendContent (os_path s) c)"
  shows "keeps P (putRows capacity rows s)"
proof (rule keepsI)
  fix w r w' assume "P w" "putRows capacity rows s w = (r, w')"
  then show "P w'" using assms
  proof (induction rows arbitrary: s w)
    case (Cons row rows)
    obtain s1 w1 where put: "putStream capacity row s w = (s1, w1)" by fastforce
    have "P w1" using keepsD [OF keeps_stream(1) [OF Cons.prems(3)] put] Cons.prems(1) .
    with Cons.IH [of w1 s1] Cons.prems put stream_path(1) [OF put] show ?case by simp
  qed simp
qed

end
