(* ===== verification/Storage_Job.thy ===== *)
theory Storage_Job
  imports Disk_Actions Checksum Record_Text Sensor_Data
begin

text \<open>
  One job of the storage worker (\<open>writeJob\<close>, \<open>convertImage\<close>,
  \<open>convertPointCloud\<close> and \<open>writePairs\<close> of \<open>raw_storage_worker.hpp\<close>).  The libraries
  it calls are the record \<open>Codec\<close>: ROS serialisation, Zstandard, OpenCV and PCL.  An
  exception is a string; \<open>run\<close> catches those of a job.
\<close>

section \<open>Data\<close>

record Job =
  directory :: path
  job_records :: "SensorData list"
  recordCamera :: bool
  recordLidar :: bool
  compressionEnabled :: bool
  compressionLevel :: int
  keepRaw :: bool
  conversionEnabled :: bool
  imageFormat :: string
  imageQuality :: int
  pointCloudFormat :: string
  job_pairs :: "PairRecord list"
  finalJob :: bool

record JobOutcome =
  outcome_ok :: bool
  persistedRecords :: nat
  outcome_reason :: string

record Mat =
  mat_rows :: int
  mat_cols :: int
  mat_channels :: nat
  mat_data :: string
  mat_step :: nat

datatype Conversion = RGB2BGR | BGRA2BGR | RGBA2BGR

text \<open>
  \<open>zstdContext\<close> is whether the compression context could be created;
  \<open>compress2\<close> gets the level and returns \<open>None\<close> for an error code.  Saving a
  point cloud writes the file itself.
\<close>

record Codec =
  serializeImage :: "Image \<Rightarrow> string"
  serializeCloud :: "PointCloud2 \<Rightarrow> string"
  zstdContext :: bool
  compress2 :: "int \<Rightarrow> string \<Rightarrow> string option"
  cvtColor :: "Conversion \<Rightarrow> Mat \<Rightarrow> Mat"
  imencode :: "string \<Rightarrow> int list \<Rightarrow> Mat \<Rightarrow> string + string option"
  savePcd :: "PointCloud2 \<Rightarrow> path \<Rightarrow> (string, bool) action"

definition serialize :: "Codec \<Rightarrow> SensorData \<Rightarrow> string + string" where
  "serialize k record =
     (if sd_type record = CAMERA then
        (case sd_data record of
           CameraAlt v \<Rightarrow> (case cam_image v of Some img \<Rightarrow> Inr (serializeImage k img) | None \<Rightarrow> Inl ''null message'')
         | LidarAlt _ \<Rightarrow> Inl ''bad_variant_access'')
      else
        (case sd_data record of
           LidarAlt v \<Rightarrow> (case lid_cloud v of Some cloud \<Rightarrow> Inr (serializeCloud k cloud) | None \<Rightarrow> Inl ''null message'')
         | CameraAlt _ \<Rightarrow> Inl ''bad_variant_access''))"

section \<open>Converted copies\<close>

definition imageExtension :: "string \<Rightarrow> string" where
  "imageExtension format = (if format = ''png'' then ''.png'' else ''.jpg'')"

definition clamp :: "int \<Rightarrow> int \<Rightarrow> int \<Rightarrow> int" where
  "clamp v lo hi = (if v < lo then lo else if hi < v then hi else v)"

text \<open>The matrix that wraps the message's buffer; \<open>static_cast<int>\<close> of 32-bit sizes.\<close>

definition int32 :: "nat \<Rightarrow> int" where
  "int32 n = sint (word_of_nat n :: 32 word)"

definition matOf :: "nat \<Rightarrow> Image \<Rightarrow> Mat" where
  "matOf channels message = \<lparr>mat_rows = int32 (img_height message), mat_cols = int32 (img_width message),
     mat_channels = channels, mat_data = img_data message, mat_step = img_step message\<rparr>"

definition bgrImage :: "Codec \<Rightarrow> Image \<Rightarrow> Mat option" where
  "bgrImage k message =
     (let encoding = img_encoding message in
      if encoding = ''bgr8'' then Some (matOf 3 message)
      else if encoding = ''rgb8'' then Some (cvtColor k RGB2BGR (matOf 3 message))
      else if encoding = ''mono8'' then Some (matOf 1 message)
      else if encoding = ''bgra8'' then Some (cvtColor k BGRA2BGR (matOf 4 message))
      else if encoding = ''rgba8'' then Some (cvtColor k RGBA2BGR (matOf 4 message))
      else None)"

definition IMWRITE_JPEG_QUALITY :: int where
  "IMWRITE_JPEG_QUALITY = 1"

definition convertImage :: "Codec \<Rightarrow> Image \<Rightarrow> path \<Rightarrow> string \<Rightarrow> Job \<Rightarrow> (string, bool) action" where
  "convertImage k message dir fileName job =
     (if img_height message = 0 \<or> img_width message = 0 \<or> img_step message = 0 \<or>
         img_step message * img_height message > length (img_data message)
      then ret False
      else case bgrImage k message of
          None \<Rightarrow> ret False
        | Some mat \<Rightarrow>
            let extension = imageExtension (imageFormat job);
                parameters = (if extension = ''.jpg'' then [IMWRITE_JPEG_QUALITY, clamp (imageQuality job) 1 100] else [])
            in case imencode k extension parameters mat of
                 Inl e \<Rightarrow> throw e
               | Inr None \<Rightarrow> ret False
               | Inr (Some encoded) \<Rightarrow> storeAtomically (dir @ [fileName @ extension]) encoded)"

definition convertPointCloud :: "Codec \<Rightarrow> PointCloud2 \<Rightarrow> path \<Rightarrow> string \<Rightarrow> Job \<Rightarrow> (string, bool) action" where
  "convertPointCloud k cloud dir fileName job =
     (if pointCloudFormat job \<noteq> ''pcd'' then ret False
      else
        let target = dir @ [fileName @ ''.pcd'']; temporary = temporaryOf target
        in andThen (savePcd k cloud temporary) (\<lambda>saved.
           if \<not> saved then andThen (lift (removePath temporary)) (\<lambda>_. ret False)
           else andThen (lift (renameFile temporary target)) (\<lambda>renamed.
             if \<not> renamed
             then andThen (lift (removePath temporary)) (\<lambda>removed. if removed then ret False else throw ''filesystem_error'')
             else ret True)))"

section \<open>Records\<close>

definition sensorPrefix :: "SensorType \<Rightarrow> string" where
  "sensorPrefix t = (if t = CAMERA then ''camera'' else ''lidar'')"

definition numbered :: "string \<Rightarrow> nat \<Rightarrow> string" where
  "numbered basePrefix n = (if n = 0 then basePrefix else basePrefix @ ''_'' @ nat_to_string n)"

definition taken :: "disk \<Rightarrow> path \<Rightarrow> string \<Rightarrow> bool" where
  "taken d dir name \<longleftrightarrow> pathExists d (dir @ [name @ ''.bin'']) \<or> pathExists d (dir @ [name @ ''.bin.zst''])"

lemma numbered_inject: "numbered base m = numbered base n \<Longrightarrow> m = n"
  by (auto simp: numbered_def split: if_splits)

lemma taken_finite: "finite {n. m \<le> n \<and> taken d dir (numbered base n)}"
proof -
  have exists: "p \<in> fst ` set d" if path: "pathExists d p" "p \<noteq> []" for p
  proof -
    obtain x where "lookup d p = Some x" using path by (auto simp: pathExists_def)
    then show ?thesis unfolding lookup_def by (force dest: map_of_SomeD)
  qed
  have inj: "inj (\<lambda>n. dir @ [numbered base n @ s])" for s
    by (rule injI) (simp add: numbered_inject)
  have "{n. m \<le> n \<and> taken d dir (numbered base n)} \<subseteq>
      (\<lambda>n. dir @ [numbered base n @ ''.bin'']) -` fst ` set d \<union> (\<lambda>n. dir @ [numbered base n @ ''.bin.zst'']) -` fst ` set d"
    using exists by (auto simp: taken_def)
  moreover have "finite ((\<lambda>n. dir @ [numbered base n @ s]) -` fst ` set d)" for s
    using inj by (intro finite_vimageI) auto
  ultimately show ?thesis by (meson finite_UnI finite_subset)
qed

text \<open>The loop ends because only finitely many names can be taken.\<close>

function recordBaseName :: "disk \<Rightarrow> path \<Rightarrow> string \<Rightarrow> nat \<Rightarrow> string" where
  "recordBaseName d dir base duplicate =
     (if taken d dir (numbered base duplicate) then recordBaseName d dir base (Suc duplicate)
      else numbered base duplicate)"
  by pat_completeness auto
termination
proof (relation "measure (\<lambda>(d, dir, base, n). card {k. n \<le> k \<and> taken d dir (numbered base k)})")
  fix d dir base n
  assume "taken d dir (numbered base n)"
  then have "{k. Suc n \<le> k \<and> taken d dir (numbered base k)} \<subset> {k. n \<le> k \<and> taken d dir (numbered base k)}"
    by (auto simp: psubset_eq) (metis (mono_tags, lifting) Suc_n_not_le_n mem_Collect_eq order_refl)
  then show "((d, dir, base, Suc n), d, dir, base, n) \<in> measure (\<lambda>(d, dir, base, n). card {k. n \<le> k \<and> taken d dir (numbered base k)})"
    using psubset_card_mono [OF taken_finite] by simp
qed simp

declare recordBaseName.simps [simp del]

lemma recordBaseName_spec:
  "\<exists>k\<ge>n. recordBaseName d dir base n = numbered base k \<and> \<not> taken d dir (numbered base k) \<and>
     (\<forall>j. n \<le> j \<and> j < k \<longrightarrow> taken d dir (numbered base j))"
proof (induction d dir base n rule: recordBaseName.induct)
  case (1 d dir base n)
  show ?case
  proof (cases "taken d dir (numbered base n)")
    case True
    then obtain k where "k \<ge> Suc n" "recordBaseName d dir base (Suc n) = numbered base k" "\<not> taken d dir (numbered base k)"
        "\<forall>j. Suc n \<le> j \<and> j < k \<longrightarrow> taken d dir (numbered base j)"
      using 1 by blast
    moreover from this(4) True have "taken d dir (numbered base j)" if "n \<le> j" "j < k" for j
      using that by (cases "j = n") auto
    ultimately show ?thesis
      using True by (intro exI [of _ k]) (auto simp: recordBaseName.simps [of d dir base n])
  next
    case False
    then show ?thesis by (auto simp: recordBaseName.simps [of d dir base n])
  qed
qed

definition failOutcome :: "string \<Rightarrow> JobOutcome \<Rightarrow> JobOutcome" where
  "failOutcome why outcome = outcome\<lparr>outcome_ok := False,
     outcome_reason := (if outcome_reason outcome = [] then why else outcome_reason outcome)\<rparr>"

definition compressRecord :: "Codec \<Rightarrow> Job \<Rightarrow> string \<Rightarrow> string \<Rightarrow> (string, bool) action" where
  "compressRecord k job raw rawFileName =
     (if compressionEnabled job \<and> zstdContext k then
        (case compress2 k (compressionLevel job) raw of
           None \<Rightarrow> ret False
         | Some data \<Rightarrow> storeAtomically (directory job @ [rawFileName @ ''.zst'']) data)
      else ret False)"

definition storeRaw :: "Job \<Rightarrow> bool \<Rightarrow> string \<Rightarrow> string \<Rightarrow> (string, bool) action" where
  "storeRaw job compressed raw rawFileName =
     (if \<not> compressed \<or> keepRaw job then storeAtomically (directory job @ [rawFileName]) raw else ret True)"

definition convertedFolder :: "SensorType \<Rightarrow> string" where
  "convertedFolder t = (if t = CAMERA then ''images'' else ''pointclouds'')"

definition convertVariant :: "Codec \<Rightarrow> SensorData \<Rightarrow> path \<Rightarrow> string \<Rightarrow> Job \<Rightarrow> (string, bool) action" where
  "convertVariant k record dir fileName job =
     (case sd_data record of
        CameraAlt v \<Rightarrow> (if sd_type record = CAMERA then
            (case cam_image v of None \<Rightarrow> throw ''null message'' | Some img \<Rightarrow> convertImage k img dir fileName job)
          else throw ''bad_variant_access'')
      | LidarAlt v \<Rightarrow> (if sd_type record = LIDAR then
            (case lid_cloud v of None \<Rightarrow> throw ''null message'' | Some cloud \<Rightarrow> convertPointCloud k cloud dir fileName job)
          else throw ''bad_variant_access''))"

definition convertRecord :: "Codec \<Rightarrow> Job \<Rightarrow> SensorData \<Rightarrow> string \<Rightarrow> (string, string) action" where
  "convertRecord k job record baseName =
     (if \<not> conversionEnabled job then ret []
      else
        let folder = convertedFolder (sd_type record); convertedDirectory = directory job @ [folder]
        in andThen (lift (createDirectories convertedDirectory)) (\<lambda>made.
           if \<not> made then ret []
           else andThen (convertVariant k record convertedDirectory baseName job) (\<lambda>converted.
             ret (if converted
                  then folder @ ''/'' @ baseName @
                    (if sd_type record = CAMERA then imageExtension (imageFormat job) else ''.pcd'')
                  else []))))"

definition enabledFor :: "Job \<Rightarrow> SensorData \<Rightarrow> bool" where
  "enabledFor job record = (if sd_type record = CAMERA then recordCamera job else recordLidar job)"

text \<open>
  The loop body: whether to go on, the outcome and the manifest stream.  First the part
  after the name is chosen.
\<close>

definition storeRecord ::
  "Codec \<Rightarrow> nat \<Rightarrow> Job \<Rightarrow> SensorData \<Rightarrow> JobOutcome \<Rightarrow> ostream \<Rightarrow> string \<Rightarrow> string \<Rightarrow> (string, bool \<times> JobOutcome \<times> ostream) action" where
  "storeRecord k capacity job record outcome manifest raw baseName =
     (let rawFileName = baseName @ ''.bin'' in
      andThen (compressRecord k job raw rawFileName) (\<lambda>compressed.
      andThen (storeRaw job compressed raw rawFileName) (\<lambda>stored.
        if \<not> stored then ret (True, failOutcome ''record_write_failed'' outcome, manifest)
        else andThen (convertRecord k job record baseName) (\<lambda>convertedFileName.
          andThen (lift (putStream capacity
            (manifestLine \<lparr>me_sensor = sensorPrefix (sd_type record), me_timestampNs = timestampOf record,
               me_file = (if compressed then rawFileName @ ''.zst'' else rawFileName),
               me_encoding = (if compressed then ''zstd'' else ''raw''),
               me_convertedFile = convertedFileName\<rparr> @ [newline]) manifest)) (\<lambda>manifest.
            if \<not> os_good manifest then ret (False, failOutcome ''manifest_write_failed'' outcome, manifest)
            else ret (True, outcome\<lparr>persistedRecords := Suc (persistedRecords outcome)\<rparr>, manifest))))))"

definition writeRecord ::
  "Codec \<Rightarrow> nat \<Rightarrow> Job \<Rightarrow> SensorData \<Rightarrow> JobOutcome \<Rightarrow> ostream \<Rightarrow> (string, bool \<times> JobOutcome \<times> ostream) action" where
  "writeRecord k capacity job record outcome manifest =
     (if \<not> enabledFor job record then ret (True, outcome, manifest)
      else case serialize k record of Inl e \<Rightarrow> throw e
      | Inr raw \<Rightarrow>
          let basePrefix = sensorPrefix (sd_type record) @ ''_'' @ int_to_string (timestampOf record)
          in andThen (observe (\<lambda>d. recordBaseName d (directory job) basePrefix 0))
               (storeRecord k capacity job record outcome manifest raw))"

text \<open>An exception carries the stream, whose destructor closes it.\<close>

fun recordLoop ::
  "Codec \<Rightarrow> nat \<Rightarrow> Job \<Rightarrow> SensorData list \<Rightarrow> JobOutcome \<Rightarrow> ostream \<Rightarrow> (string \<times> ostream, JobOutcome \<times> ostream) action" where
  "recordLoop k capacity job [] outcome manifest = ret (outcome, manifest)"
| "recordLoop k capacity job (record # rest) outcome manifest =
     andThen (onError (writeRecord k capacity job record outcome manifest) (\<lambda>e. throw (e, manifest)))
       (\<lambda>(continue, outcome, manifest).
          if continue then recordLoop k capacity job rest outcome manifest else ret (outcome, manifest))"

section \<open>The job\<close>

definition writePairs :: "nat \<Rightarrow> path \<Rightarrow> PairRecord list \<Rightarrow> World \<Rightarrow> bool \<times> World" where
  "writePairs capacity dir pairs w =
     (if pairs = [] then (True, w)
      else
        let file = dir @ [''pairs.csv'']; (opened, w1) = openAppend file w
        in if \<not> opened then (False, w1)
           else
             let s = \<lparr>os_path = file, os_buffer = [], os_good = True\<rparr>;
                 header = (if readFile (disk w1) file = Some [] then pairsHeader @ [newline] else []);
                 (s1, w2) = putStream capacity header s w1;
                 (s2, w3) = putRows capacity (map (\<lambda>r. pairLine r @ [newline]) pairs) s1 w2;
                 (s3, w4) = flushStream s2 w3
             in (os_good s3, snd (closeStream s3 w4)))"

text \<open>Flushing and closing the manifest, and the records up to there.\<close>

definition closeManifest :: "JobOutcome \<Rightarrow> ostream \<Rightarrow> (string, JobOutcome) action" where
  "closeManifest outcome manifest =
     andThen (lift (flushStream manifest)) (\<lambda>manifest.
       let outcome = (if os_good manifest then outcome else failOutcome ''manifest_flush_failed'' outcome)
       in andThen (lift (closeStream manifest)) (\<lambda>_. ret outcome))"

definition writeRecords :: "Codec \<Rightarrow> nat \<Rightarrow> Job \<Rightarrow> JobOutcome \<Rightarrow> ostream \<Rightarrow> (string, JobOutcome) action" where
  "writeRecords k capacity job outcome manifest =
     andThen (onError (recordLoop k capacity job (job_records job) outcome manifest)
         (\<lambda>(e, manifest). andThen (lift (closeStream manifest)) (\<lambda>_. throw e)))
       (\<lambda>(outcome, manifest). closeManifest outcome manifest)"

definition failedOutcome :: "string \<Rightarrow> JobOutcome" where
  "failedOutcome why = \<lparr>outcome_ok = False, persistedRecords = 0, outcome_reason = why\<rparr>"

definition writeJobFiles :: "Codec \<Rightarrow> nat \<Rightarrow> Job \<Rightarrow> (string, JobOutcome) action" where
  "writeJobFiles k capacity job =
     andThen (lift (createDirectories (directory job))) (\<lambda>made.
       if \<not> made then ret (failedOutcome ''create_directory_failed'')
       else
         let file = directory job @ [''manifest.csv''] in
         andThen (lift (openAppend file)) (\<lambda>opened.
           if \<not> opened then ret (failedOutcome ''manifest_open_failed'')
           else andThen (observe (\<lambda>d. readFile d file = Some [])) (\<lambda>fresh.
             andThen (lift (putStream capacity (if fresh then manifestHeader @ [newline] else [])
               \<lparr>os_path = file, os_buffer = [], os_good = True\<rparr>)) (\<lambda>manifest.
             andThen (lift (writePairs capacity (directory job) (job_pairs job))) (\<lambda>pairsWritten.
               writeRecords k capacity job
                 (if pairsWritten then \<lparr>outcome_ok = True, persistedRecords = 0, outcome_reason = []\<rparr>
                  else failedOutcome ''pairs_write_failed'') manifest)))))"

section \<open>What a job leaves alone\<close>

definition at :: "path \<Rightarrow> node option \<Rightarrow> World \<Rightarrow> bool" where
  "at q x w \<longleftrightarrow> lookup (disk w) q = x"

lemma store_frame:
  "storeAtomically p c w = (r, w') \<Longrightarrow> q \<noteq> p \<Longrightarrow> q \<noteq> temporaryOf p \<Longrightarrow> lookup (disk w') q = lookup (disk w) q"
  using storePut_frame [of p c w "r = Inr True" w' q] by (simp add: storePut_def)

lemma store_done: "storeAtomically p c w = (Inr True, w') \<Longrightarrow> lookup (disk w') p = Some (File c)"
  using storePut_done [of p c w w'] by (simp add: storePut_def)

lemma store_tree: "storeAtomically p c w = (r, w') \<Longrightarrow> tree (disk w) \<Longrightarrow> tree (disk w')"
  using storePut_tree [of p c w "r = Inr True" w'] by (simp add: storePut_def)

lemma keeps_at [keeps_rules]:
  "q \<noteq> p \<Longrightarrow> q \<noteq> temporaryOf p \<Longrightarrow> keeps (at q x) (storeAtomically p c)"
  "q \<noteq> p \<Longrightarrow> keeps (at q x) (appendContent p c)"
  "q \<noteq> p \<Longrightarrow> keeps (at q x) (openAppend p)"
  "q \<noteq> p \<Longrightarrow> keeps (at q x) (removePath p)"
  "q \<noteq> p \<Longrightarrow> q \<noteq> p' \<Longrightarrow> keeps (at q x) (renameFile p p')"
  "\<not> prefix q p \<or> x \<noteq> None \<Longrightarrow> keeps (at q x) (createDirectories p)"
  by (rule keepsI; auto simp: at_def store_frame appendContent_lookup openAppend_lookup removePath_lookup
      renameFile_lookup createDirectories_lookup)+

definition all_tree :: "World \<Rightarrow> bool" where
  "all_tree w \<longleftrightarrow> tree (disk w)"

lemma openAppend_tree: "openAppend p w = (ok, w') \<Longrightarrow> tree (disk w) \<Longrightarrow> tree (disk w')"
  unfolding openAppend_def
  by (erule perform_tree) (auto simp: parentPath_def isDirectory_def [of _ p] intro!: tree_update split: if_splits)

lemma appendContent_tree: "appendContent p c w = (ok, w') \<Longrightarrow> tree (disk w) \<Longrightarrow> tree (disk w')"
proof -
  assume t: "tree (disk w)" and w': "appendContent p c w = (ok, w')"
  have "tree (AList.update p (File x) (disk w))" if isfile: "readFile (disk w) p \<noteq> None" for x
  proof (rule tree_update [OF t])
    obtain y where "lookup (disk w) p = Some (File y)"
      using isfile by (auto simp: readFile_def split: option.splits node.splits)
    then show "isDirectory (disk w) (butlast p)" "lookup (disk w) p = Some Dir \<Longrightarrow> File x = Dir"
      using tree_parent [OF t] by (cases "p = []"; auto simp: isDirectory_def)+
  qed
  then show ?thesis
    using w' t unfolding appendContent_def by - (erule perform_tree; auto split: option.splits)
qed

lemma keeps_all_tree [keeps_rules]:
  "keeps all_tree (storeAtomically p c)" "keeps all_tree (appendContent p c)" "keeps all_tree (openAppend p)"
  "keeps all_tree (removePath p)" "keeps all_tree (renameFile p p')" "keeps all_tree (createDirectories p)"
  by (rule keepsI; use store_tree appendContent_tree openAppend_tree
      removePath_tree renameFile_tree createDirectories_tree in \<open>auto simp: all_tree_def\<close>)+

text \<open>What the documentation promises of saving a point cloud: it writes that file only.\<close>

definition pcd_local :: "Codec \<Rightarrow> bool" where
  "pcd_local k \<longleftrightarrow> (\<forall>cloud p. keeps all_tree (savePcd k cloud p) \<and> (\<forall>q x. q \<noteq> p \<longrightarrow> keeps (at q x) (savePcd k cloud p)))"

lemma pcd_keeps [keeps_rules]:
  "pcd_local k \<Longrightarrow> keeps all_tree (savePcd k cloud p)"
  "pcd_local k \<Longrightarrow> q \<noteq> p \<Longrightarrow> keeps (at q x) (savePcd k cloud p)"
  by (simp_all add: pcd_local_def)

lemma keeps_convertVariant:
  assumes "pcd_local k"
  shows "keeps all_tree (convertVariant k record dir fileName job)"
    and "length q \<noteq> Suc (length dir) \<Longrightarrow> keeps (at q x) (convertVariant k record dir fileName job)"
  using assms
  by (auto simp: convertVariant_def convertImage_def convertPointCloud_def Let_def temporaryOf_def
      intro!: keeps_rules split: SensorDataVariant.splits)

lemma keeps_convertRecord:
  assumes "pcd_local k"
  shows "keeps all_tree (convertRecord k job record baseName)"
    and "q = directory job @ [n] \<Longrightarrow> x \<noteq> None \<or> n \<notin> {''images'', ''pointclouds''} \<Longrightarrow>
      keeps (at q x) (convertRecord k job record baseName)"
  using assms unfolding convertRecord_def Let_def
  by (intro keeps_rules keeps_convertVariant; auto simp: convertedFolder_def)+

text \<open>The names under which a record is stored.\<close>

definition record_names :: "string \<Rightarrow> string set" where
  "record_names base = (\<lambda>s. base @ s) ` {''.bin'', ''.bin.zst'', ''.bin.tmp'', ''.bin.zst.tmp''}"

lemma keeps_store_record [keeps_rules]:
  assumes "n \<notin> record_names base"
  shows "keeps (at (directory job @ [n]) x) (compressRecord k job raw (base @ ''.bin''))"
    and "keeps (at (directory job @ [n]) x) (storeRaw job compressed raw (base @ ''.bin''))"
  using assms unfolding compressRecord_def storeRaw_def
  by (intro keeps_rules; auto simp: record_names_def temporaryOf_def)+

lemma keeps_all_tree_record [keeps_rules]:
  "keeps all_tree (compressRecord k job raw name)" "keeps all_tree (storeRaw job compressed raw name)"
  unfolding compressRecord_def storeRaw_def by (intro keeps_rules)+

text \<open>Entries of the directory that writing records leaves as they are.\<close>

definition spared :: "string \<Rightarrow> node option \<Rightarrow> bool" where
  "spared n x \<longleftrightarrow> n \<notin> {''manifest.csv'', ''images'', ''pointclouds''} \<and> \<not> suffix ''.tmp'' n \<and>
     (x \<noteq> None \<or> \<not> prefix ''camera_'' n \<and> \<not> prefix ''lidar_'' n)"

lemma numbered_prefix: "prefix base (numbered base n)"
  by (simp add: numbered_def)

lemma fresh_names:
  assumes "spared n x" "lookup d (dir @ [n]) = x"
  shows "n \<notin> record_names (recordBaseName d dir (sensorPrefix t @ ''_'' @ ts) m)"
proof
  let ?base = "sensorPrefix t @ ''_'' @ ts"
  obtain j where name: "recordBaseName d dir ?base m = numbered ?base j" "\<not> taken d dir (numbered ?base j)"
    using recordBaseName_spec by blast
  assume "n \<in> record_names (recordBaseName d dir ?base m)"
  then have n: "n \<in> record_names (numbered ?base j)" unfolding name(1) .
  then have "prefix ?base n"
    using numbered_prefix prefix_prefix prefix_order.trans by (fastforce simp: record_names_def)
  then have "prefix ''camera_'' n \<or> prefix ''lidar_'' n"
    by (auto simp: sensorPrefix_def prefix_def split: if_splits)
  moreover have "n = numbered ?base j @ ''.bin'' \<or> n = numbered ?base j @ ''.bin.zst''"
    using n assms(1) by (auto simp: record_names_def spared_def suffix_def)
  ultimately show False using assms name(2) by (auto simp: taken_def pathExists_def spared_def)
qed

lemma andThen_observe [simp]: "andThen (observe f) g w = g (f (disk w)) w"
  by (simp add: andThen_def)

lemma keeps_storeRecord:
  assumes "pcd_local k" "os_path manifest = directory job @ [''manifest.csv'']" "n \<notin> record_names baseName" "n \<noteq> ''manifest.csv''"
    "x \<noteq> None \<or> n \<notin> {''images'', ''pointclouds''}"
  shows "keeps (at (directory job @ [n]) x) (storeRecord k capacity job record outcome manifest raw baseName)"
  unfolding storeRecord_def Let_def using assms
  by (intro keeps_rules keeps_convertRecord) auto

lemma keeps_writeRecord:
  assumes "pcd_local k" "os_path manifest = directory job @ [''manifest.csv'']" "spared n x"
  shows "keeps (at (directory job @ [n]) x) (writeRecord k capacity job record outcome manifest)"
proof (rule keepsI)
  fix w r w'
  assume x: "at (directory job @ [n]) x w" and run: "writeRecord k capacity job record outcome manifest w = (r, w')"
  let ?base = "recordBaseName (disk w) (directory job) (sensorPrefix (sd_type record) @ ''_'' @ int_to_string (timestampOf record)) 0"
  have "keeps (at (directory job @ [n]) x) (storeRecord k capacity job record outcome manifest raw ?base)" for raw
    using fresh_names [OF assms(3)] x assms(3) by (intro keeps_storeRecord assms(1,2)) (auto simp: at_def spared_def)
  note keepsD [OF this _ x]
  then show "at (directory job @ [n]) x w'"
    using x run by (auto simp: writeRecord_def split: sum.splits if_splits)
qed

lemma keeps_all_tree_writeRecord:
  assumes "pcd_local k"
  shows "keeps all_tree (writeRecord k capacity job record outcome manifest)"
  unfolding writeRecord_def storeRecord_def Let_def by (intro keeps_rules keeps_convertRecord assms)

section \<open>What a job records\<close>

text \<open>How the file of an entry holds a serialised record.\<close>

definition storedAs :: "Codec \<Rightarrow> Job \<Rightarrow> string \<Rightarrow> disk \<Rightarrow> ManifestEntry \<Rightarrow> bool" where
  "storedAs k job raw d e \<longleftrightarrow>
     me_encoding e = ''raw'' \<and> readFile d (directory job @ [me_file e]) = Some raw \<or>
     me_encoding e = ''zstd'' \<and> (\<exists>data. compress2 k (compressionLevel job) raw = Some data \<and>
       readFile d (directory job @ [me_file e]) = Some data)"

text \<open>The entry of a record stored under a base name.\<close>

definition entryFor :: "Job \<Rightarrow> SensorData \<Rightarrow> string \<Rightarrow> ManifestEntry \<Rightarrow> bool" where
  "entryFor job record baseName e \<longleftrightarrow>
     me_sensor e = sensorPrefix (sd_type record) \<and> me_timestampNs e = timestampOf record \<and>
     me_encoding e \<in> {''raw'', ''zstd''} \<and> me_file e \<in> {baseName @ ''.bin'', baseName @ ''.bin.zst''} \<and>
     me_convertedFile e \<in> {[], convertedFolder (sd_type record) @ ''/'' @ baseName @
       (if sd_type record = CAMERA then imageExtension (imageFormat job) else ''.pcd'')}"

lemma streamed_frame:
  "lookup (disk w') (os_path s) = lookup (disk w) (os_path s) \<Longrightarrow> streamed s w' t \<longleftrightarrow> streamed s w t"
  by (simp add: streamed_def readFile_def)

lemma readFile_at: "at p (Some (File c)) w \<Longrightarrow> readFile (disk w) p = Some c"
  by (simp add: at_def readFile_def)

lemma compressRecord_done:
  assumes "compressRecord k job raw name w = (Inr True, w')"
  shows "\<exists>data. compress2 k (compressionLevel job) raw = Some data \<and> at (directory job @ [name @ ''.zst'']) (Some (File data)) w'"
  using assms by (auto simp: compressRecord_def at_def dest: store_done split: if_splits option.splits)

lemma storeRaw_done:
  assumes "storeRaw job compressed raw name w = (Inr True, w')" "\<not> compressed"
  shows "at (directory job @ [name]) (Some (File raw)) w'"
  using assms by (auto simp: storeRaw_def at_def dest: store_done split: if_splits)

lemma convertRecord_name:
  assumes "convertRecord k job record baseName w = (Inr name, w')"
  shows "name \<in> {[], convertedFolder (sd_type record) @ ''/'' @ baseName @
       (if sd_type record = CAMERA then imageExtension (imageFormat job) else ''.pcd'')}"
  using assms by (auto simp: convertRecord_def Let_def elim!: andThen_Inr split: if_splits)

lemma storeRecord_ok:
  assumes run: "storeRecord k capacity job record outcome manifest raw baseName w = (Inr (continue, outcome1, manifest1), w1)"
    and ok: "outcome_ok outcome1" and k: "pcd_local k" and m: "os_path manifest = directory job @ [''manifest.csv'']"
    and base: "prefix (sensorPrefix (sd_type record) @ ''_'') baseName" and s: "streamed manifest w written"
  shows "continue \<and> outcome_ok outcome \<and> persistedRecords outcome1 = Suc (persistedRecords outcome) \<and>
     os_path manifest1 = os_path manifest \<and>
     (\<exists>e. entryFor job record baseName e \<and> storedAs k job raw (disk w1) e \<and>
        streamed manifest1 w1 (written @ manifestLine e @ [newline]))"
proof -
  let ?entry = "\<lambda>cmp name. \<lparr>me_sensor = sensorPrefix (sd_type record), me_timestampNs = timestampOf record,
      me_file = (if cmp then (baseName @ ''.bin'') @ ''.zst'' else baseName @ ''.bin''),
      me_encoding = (if cmp then ''zstd'' else ''raw''), me_convertedFile = name\<rparr>"
  obtain cmp wa stored wb where a: "compressRecord k job raw (baseName @ ''.bin'') w = (Inr cmp, wa)"
      and b: "storeRaw job cmp raw (baseName @ ''.bin'') wa = (Inr stored, wb)"
      and rest: "(if \<not> stored then ret (True, failOutcome ''record_write_failed'' outcome, manifest)
        else andThen (convertRecord k job record baseName) (\<lambda>name.
          andThen (lift (putStream capacity (manifestLine (?entry cmp name) @ [newline]) manifest)) (\<lambda>manifest.
            if \<not> os_good manifest then ret (False, failOutcome ''manifest_write_failed'' outcome, manifest)
            else ret (True, outcome\<lparr>persistedRecords := Suc (persistedRecords outcome)\<rparr>, manifest)))) wb =
        (Inr (continue, outcome1, manifest1), w1)"
    using run unfolding storeRecord_def Let_def by (elim andThen_Inr) blast
  have st: stored using rest ok by (auto simp: failOutcome_def split: if_splits)
  then obtain name wc m1 where c: "convertRecord k job record baseName wb = (Inr name, wc)"
      and d: "putStream capacity (manifestLine (?entry cmp name) @ [newline]) manifest wc = (m1, w1)"
      and res: "manifest1 = m1" "os_good m1" "continue" "outcome1 = outcome\<lparr>persistedRecords := Suc (persistedRecords outcome)\<rparr>"
    using rest ok by (auto simp: failOutcome_def elim!: andThen_Inr split: if_splits)
  let ?e = "?entry cmp name"
  have apart: "''manifest.csv'' \<notin> record_names baseName"
    using base by (auto simp: record_names_def sensorPrefix_def prefix_def split: if_splits)
  have same: "lookup (disk wc) (os_path manifest) = lookup (disk w) (os_path manifest)"
  proof -
    define x where "x = lookup (disk w) (os_path manifest)"
    have "at (directory job @ [''manifest.csv'']) x w" by (simp add: at_def x_def m)
    from keepsD [OF keeps_store_record(1) [OF apart] a this]
    have "at (directory job @ [''manifest.csv'']) x wa" .
    from keepsD [OF keeps_store_record(2) [OF apart] b this]
    have "at (directory job @ [''manifest.csv'']) x wb" .
    then have wb: "at (directory job @ [''manifest.csv'']) x wb" .
    have kept: "keeps (at (directory job @ [''manifest.csv'']) x) (convertRecord k job record baseName)"
      by (rule keeps_convertRecord(2) [OF k refl]) simp
    from keepsD [OF kept c wb] have "at (directory job @ [''manifest.csv'']) x wc" .
    then show ?thesis by (simp add: at_def x_def m)
  qed
  have "streamed manifest wc written" using s streamed_frame [OF same] by simp
  from streamed_put [OF this d] have "streamed manifest1 w1 (written @ manifestLine ?e @ [newline])"
    unfolding res(1) .
  moreover have "entryFor job record baseName ?e"
    using convertRecord_name [OF c] by (simp add: entryFor_def)
  moreover have later: "at (directory job @ [n]) (Some x) w1" if "at (directory job @ [n]) (Some x) wb" "n \<noteq> ''manifest.csv''" for n x
  proof -
    have "keeps (at (directory job @ [n]) (Some x)) (convertRecord k job record baseName)"
      by (rule keeps_convertRecord(2) [OF k refl]) simp
    note wc = keepsD [OF this c that(1)]
    have "keeps (at (directory job @ [n]) (Some x)) (putStream capacity (manifestLine ?e @ [newline]) manifest)"
      using that(2) by (intro keeps_rules) (simp add: m)
    from keepsD [OF this d wc] show ?thesis .
  qed
  have file_name: "baseName @ ''.bin'' \<noteq> ''manifest.csv''" "baseName @ ''.bin.zst'' \<noteq> ''manifest.csv''"
    using base by (auto simp: sensorPrefix_def prefix_def split: if_splits)
  have "storedAs k job raw (disk w1) ?e"
  proof (cases cmp)
    case True
    then obtain data where data: "compress2 k (compressionLevel job) raw = Some data"
        "at (directory job @ [baseName @ ''.bin.zst'']) (Some (File data)) wa"
      using compressRecord_done a by fastforce
    have "baseName @ ''.bin.zst'' \<noteq> baseName @ ''.bin''" by simp
    then have "keeps (at (directory job @ [baseName @ ''.bin.zst'']) x) (storeRaw job cmp raw (baseName @ ''.bin''))" for x
      unfolding storeRaw_def by (intro keeps_rules) (auto simp: temporaryOf_def)
    from later [OF keepsD [OF this b data(2)] file_name(2)] data(1) True show ?thesis
      by (simp add: storedAs_def readFile_at)
  next
    case False
    with later [OF storeRaw_done file_name(1)] b st show ?thesis
      by (simp add: storedAs_def readFile_at)
  qed
  ultimately show ?thesis using res stream_path(1) [OF d] ok by auto
qed

definition recorded :: "Codec \<Rightarrow> Job \<Rightarrow> disk \<Rightarrow> SensorData \<Rightarrow> ManifestEntry \<Rightarrow> bool" where
  "recorded k job d record e \<longleftrightarrow> (\<exists>raw n. serialize k record = Inr raw \<and> storedAs k job raw d e \<and>
     entryFor job record (numbered (sensorPrefix (sd_type record) @ ''_'' @ int_to_string (timestampOf record)) n) e)"

lemma writeRecord_path:
  assumes "writeRecord k capacity job record outcome manifest w = (Inr (continue, outcome1, manifest1), w1)"
  shows "os_path manifest1 = os_path manifest"
  using assms
  by (auto simp: writeRecord_def storeRecord_def Let_def
      elim!: andThen_Inr split: if_split_asm sum.splits) (drule stream_path(1); assumption)+

lemma writeRecord_ok:
  assumes run: "writeRecord k capacity job record outcome manifest w = (Inr (continue, outcome1, manifest1), w1)"
    and ok: "outcome_ok outcome1" and k: "pcd_local k" and m: "os_path manifest = directory job @ [''manifest.csv'']"
    and s: "streamed manifest w written" and enabled: "enabledFor job record"
  shows "continue \<and> outcome_ok outcome \<and> persistedRecords outcome1 = Suc (persistedRecords outcome) \<and>
     (\<exists>e. recorded k job (disk w1) record e \<and> streamed manifest1 w1 (written @ manifestLine e @ [newline]))"
proof -
  let ?base = "sensorPrefix (sd_type record) @ ''_'' @ int_to_string (timestampOf record)"
  obtain raw where raw: "serialize k record = Inr raw"
    using run enabled by (auto simp: writeRecord_def split: sum.splits)
  obtain n where n: "recordBaseName (disk w) (directory job) ?base 0 = numbered ?base n"
    using recordBaseName_spec by blast
  have stored: "storeRecord k capacity job record outcome manifest raw (numbered ?base n) w =
      (Inr (continue, outcome1, manifest1), w1)"
    using run enabled unfolding writeRecord_def raw by (simp only: Let_def sum.case andThen_observe n not_not if_False simp_thms)
  have "prefix (sensorPrefix (sd_type record) @ ''_'') (numbered ?base n)"
    using numbered_prefix [of ?base n] by (auto simp: prefix_def)
  from storeRecord_ok [OF stored ok k m this s] raw show ?thesis unfolding recorded_def by blast
qed

lemma keeps_recordLoop_all:
  assumes "\<And>r o' m. os_path m = target \<Longrightarrow> keeps P (writeRecord k capacity job r o' m)"
  shows "os_path manifest = target \<Longrightarrow> keeps P (recordLoop k capacity job rs outcome manifest)"
proof (induction rs arbitrary: outcome manifest)
  case (Cons r rs)
  have "keeps P (onError (writeRecord k capacity job r outcome manifest) (\<lambda>e. throw (e, manifest)))"
    by (intro keeps_rules assms Cons.prems)
  moreover have "os_path manifest1 = target"
    if "onError (writeRecord k capacity job r outcome manifest) (\<lambda>e. throw (e, manifest)) w = (Inr (c, o1, manifest1), w1)" for w w1 c o1 manifest1
    using that writeRecord_path [of k capacity job r outcome manifest w c o1 manifest1] Cons.prems
    by (auto simp: onError_def split: prod.splits sum.splits)
  ultimately show ?case using Cons.IH by (auto intro!: keeps_andThen_result keeps_basic)
qed (auto intro: keeps_basic)

lemma keeps_recordLoop:
  assumes "pcd_local k" "os_path manifest = directory job @ [''manifest.csv'']"
  shows "spared n x \<Longrightarrow> keeps (at (directory job @ [n]) x) (recordLoop k capacity job rs outcome manifest)"
    and "keeps all_tree (recordLoop k capacity job rs outcome manifest)"
  using assms by (auto intro!: keeps_recordLoop_all keeps_writeRecord keeps_all_tree_writeRecord)

lemma entry_spared:
  assumes "entryFor job record (numbered (sensorPrefix t @ ''_'' @ ts) n) e"
  shows "spared (me_file e) (Some x)"
  using assms
  by (auto simp: entryFor_def spared_def numbered_def sensorPrefix_def suffix_def split: if_splits)

lemma recorded_kept:
  assumes "recorded k job (disk w) record e" "\<And>x. keeps (at (directory job @ [me_file e]) (Some x)) m" "m w = (r, w')"
  shows "recorded k job (disk w') record e"
proof -
  have "readFile (disk w') (directory job @ [me_file e]) = Some c" if c: "readFile (disk w) (directory job @ [me_file e]) = Some c" for c
  proof -
    have "at (directory job @ [me_file e]) (Some (File c)) w" using c by (auto simp: at_def readFile_def split: option.splits node.splits)
    from keepsD [OF assms(2,3) this] show ?thesis by (rule readFile_at)
  qed
  with assms(1) show ?thesis unfolding recorded_def storedAs_def by blast
qed

abbreviation manifestText :: "ManifestEntry list \<Rightarrow> string" where
  "manifestText es \<equiv> concat (map (\<lambda>e. manifestLine e @ [newline]) es)"

lemma writeRecord_ok_mono:
  assumes "writeRecord k capacity job r outcome manifest w = (Inr (continue, outcome1, manifest1), w1)" "outcome_ok outcome1"
  shows "outcome_ok outcome"
  using assms
  by (auto simp: writeRecord_def storeRecord_def failOutcome_def Let_def elim!: andThen_Inr split: if_split_asm sum.splits)

lemma recordLoop_ok_mono:
  "recordLoop k capacity job rs outcome manifest w = (Inr (outcome1, manifest1), w1) \<Longrightarrow> outcome_ok outcome1 \<Longrightarrow> outcome_ok outcome"
proof (induction rs arbitrary: outcome manifest w)
  case (Cons r rs)
  obtain continue o1 m1 wa where step: "writeRecord k capacity job r outcome manifest w = (Inr (continue, o1, m1), wa)"
      and rest: "(if continue then recordLoop k capacity job rs o1 m1 else ret (o1, m1)) wa = (Inr (outcome1, manifest1), w1)"
    using Cons.prems(1) by (auto simp: onError_def split: prod.splits sum.splits elim!: andThen_Inr)
  have "outcome_ok o1" using rest Cons.IH [of o1 m1 wa] Cons.prems(2) by (cases continue) auto
  with writeRecord_ok_mono [OF step] show ?case .
qed auto

lemma recordLoop_ok:
  assumes "recordLoop k capacity job rs outcome manifest w = (Inr (outcome1, manifest1), w1)"
    and "outcome_ok outcome1" and k: "pcd_local k" and "os_path manifest = directory job @ [''manifest.csv'']"
    and "streamed manifest w written"
  shows "outcome_ok outcome \<and> os_path manifest1 = os_path manifest \<and>
     (\<exists>es. list_all2 (recorded k job (disk w1)) (filter (enabledFor job) rs) es \<and>
        persistedRecords outcome1 = persistedRecords outcome + length es \<and>
        streamed manifest1 w1 (written @ manifestText es))"
  using assms(1,2,4,5)
proof (induction rs arbitrary: outcome manifest w written)
  case (Cons r rs)
  obtain continue o1 m1 wa where step: "writeRecord k capacity job r outcome manifest w = (Inr (continue, o1, m1), wa)"
      and rest: "(if continue then recordLoop k capacity job rs o1 m1 else ret (o1, m1)) wa = (Inr (outcome1, manifest1), w1)"
    using Cons.prems(1) by (auto simp: onError_def split: prod.splits sum.splits elim!: andThen_Inr)
  have path: "os_path m1 = directory job @ [''manifest.csv'']" using writeRecord_path [OF step] Cons.prems(3) by simp
  show ?case
  proof (cases "enabledFor job r")
    case False
    then have "continue" "o1 = outcome" "m1 = manifest" "wa = w" using step by (auto simp: writeRecord_def)
    with Cons.IH [of outcome manifest w written] rest Cons.prems False show ?thesis by simp
  next
    case True
    have "continue"
    proof (rule ccontr)
      assume "\<not> continue"
      then have "outcome_ok o1" using rest Cons.prems(2) by simp
      from writeRecord_ok [OF step this k Cons.prems(3,4) True] \<open>\<not> continue\<close> show False by simp
    qed
    then have loop: "recordLoop k capacity job rs o1 m1 wa = (Inr (outcome1, manifest1), w1)" using rest by simp
    have "outcome_ok o1" by (rule recordLoop_ok_mono [OF loop Cons.prems(2)])
    from writeRecord_ok [OF step this k Cons.prems(3,4) True] obtain e where e: "outcome_ok outcome"
        "persistedRecords o1 = Suc (persistedRecords outcome)" "recorded k job (disk wa) r e"
        "streamed m1 wa (written @ manifestLine e @ [newline])" by blast
    from Cons.IH [OF loop Cons.prems(2) path e(4)] obtain es where es: "os_path manifest1 = os_path m1"
        "list_all2 (recorded k job (disk w1)) (filter (enabledFor job) rs) es"
        "persistedRecords outcome1 = persistedRecords o1 + length es"
        "streamed manifest1 w1 ((written @ manifestLine e @ [newline]) @ manifestText es)" by blast
    have "spared (me_file e) (Some x)" for x using e(3) entry_spared unfolding recorded_def by blast
    from recorded_kept [OF e(3) keeps_recordLoop(1) [OF k path this] loop]
    have "recorded k job (disk w1) r e" .
    then show ?thesis using e(1,2) es True path Cons.prems(3) by (intro conjI exI [of _ "e # es"]) auto
  qed
qed auto

text \<open>The text an appended file starts with: what was there, or the header.\<close>

definition startText :: "string option \<Rightarrow> string \<Rightarrow> string" where
  "startText old header = (case old of Some (c # cs) \<Rightarrow> c # cs | _ \<Rightarrow> header @ [newline])"

lemma appended_header:
  assumes "openAppend p w = (True, w1)" "p \<noteq> []"
    and "putStream capacity (if readFile (disk w1) p = Some [] then header @ [newline] else [])
      \<lparr>os_path = p, os_buffer = [], os_good = True\<rparr> w1 = (s, w2)"
  shows "streamed s w2 (startText (readFile (disk w) p) header)" "os_path s = p"
proof -
  have file_text: "readFile (disk w1) p = Some (case readFile (disk w) p of None \<Rightarrow> [] | Some c \<Rightarrow> c)"
    by (rule openAppend_file [OF assms(1,2)])
  then have "streamed \<lparr>os_path = p, os_buffer = [], os_good = True\<rparr> w1 (case readFile (disk w) p of None \<Rightarrow> [] | Some c \<Rightarrow> c)"
    by (simp add: streamed_def)
  from streamed_put [OF this assms(3)] file_text
  show "streamed s w2 (startText (readFile (disk w) p) header)"
    by (auto simp: startText_def split: option.splits list.splits if_splits)
  show "os_path s = p" using stream_path(1) [OF assms(3)] by simp
qed

lemma writePairs_ok:
  assumes "writePairs capacity dir ps w = (True, w')" "ps \<noteq> []"
  shows "readFile (disk w') (dir @ [''pairs.csv'']) =
    Some (startText (readFile (disk w) (dir @ [''pairs.csv''])) pairsHeader @ concat (map (\<lambda>r. pairLine r @ [newline]) ps))"
proof -
  let ?file = "dir @ [''pairs.csv'']"
  obtain opened w1 where a: "openAppend ?file w = (opened, w1)" by fastforce
  obtain s1 w2 where b: "putStream capacity (if readFile (disk w1) ?file = Some [] then pairsHeader @ [newline] else [])
      \<lparr>os_path = ?file, os_buffer = [], os_good = True\<rparr> w1 = (s1, w2)" by fastforce
  obtain s2 w3 where c: "putRows capacity (map (\<lambda>r. pairLine r @ [newline]) ps) s1 w2 = (s2, w3)" by fastforce
  obtain s3 w4 where d: "flushStream s2 w3 = (s3, w4)" by fastforce
  have run: "opened" "os_good s3" "w' = snd (closeStream s3 w4)"
    using assms by (auto simp: writePairs_def Let_def a b c d split: if_splits)
  note start = appended_header [OF a [unfolded eqTrueI [OF run(1)]] _ b]
  have "streamed s2 w3 (startText (readFile (disk w) ?file) pairsHeader @ concat (map (\<lambda>r. pairLine r @ [newline]) ps)) \<and> os_path s2 = ?file"
    using streamed_rows [OF start(1) c] start(2) by simp
  with streamed_flush [OF _ d run(2)] have "readFile (disk w4) ?file =
      Some (startText (readFile (disk w) ?file) pairsHeader @ concat (map (\<lambda>r. pairLine r @ [newline]) ps)) \<and> os_buffer s3 = []"
    by fastforce
  then show ?thesis using run(2,3) by (simp add: closeStream_def)
qed

lemma keeps_writePairs_all:
  assumes P: "keeps P (openAppend (dir @ [''pairs.csv'']))" "\<And>c. keeps P (appendContent (dir @ [''pairs.csv'']) c)"
  shows "keeps P (writePairs capacity dir ps)"
proof (rule keepsI)
  let ?file = "dir @ [''pairs.csv'']"
  fix w r w' assume w: "P w" and run: "writePairs capacity dir ps w = (r, w')"
  obtain opened w1 where a: "openAppend ?file w = (opened, w1)" by fastforce
  obtain s1 w2 where b: "putStream capacity (if readFile (disk w1) ?file = Some [] then pairsHeader @ [newline] else [])
      \<lparr>os_path = ?file, os_buffer = [], os_good = True\<rparr> w1 = (s1, w2)" by fastforce
  obtain s2 w3 where c: "putRows capacity (map (\<lambda>r. pairLine r @ [newline]) ps) s1 w2 = (s2, w3)" by fastforce
  obtain s3 w4 where d: "flushStream s2 w3 = (s3, w4)" by fastforce
  obtain ok w5 where e: "closeStream s3 w4 = (ok, w5)" by fastforce
  have p1: "os_path s1 = ?file" using stream_path(1) [OF b] by simp
  have p2: "os_path s2 = ?file" using rows_path [OF c] p1 by simp
  have p3: "os_path s3 = ?file" using stream_path(2) [OF d] p2 by simp
  have w1: "P w1" using keepsD [OF P(1) a w] .
  have "keeps P (putStream capacity t \<lparr>os_path = ?file, os_buffer = [], os_good = True\<rparr>)" for t
    by (rule keeps_stream) (simp add: P(2))
  from keepsD [OF this b w1] have w2: "P w2" .
  have "keeps P (putRows capacity rows s1)" for rows by (rule keeps_rows) (simp add: P(2) p1)
  from keepsD [OF this c w2] have w3: "P w3" .
  have "keeps P (flushStream s2)" by (rule keeps_stream(2)) (simp add: P(2) p2)
  from keepsD [OF this d w3] have w4: "P w4" .
  have "keeps P (closeStream s3)" by (rule keeps_stream(3)) (simp add: P(2) p3)
  from keepsD [OF this e w4] have w5: "P w5" .
  show "P w'" using run w w1 w5 by (auto simp: writePairs_def Let_def a b c d e split: if_splits)
qed

lemma keeps_writePairs:
  "n \<noteq> ''pairs.csv'' \<Longrightarrow> keeps (at (dir @ [n]) x) (writePairs capacity dir ps)"
  "keeps all_tree (writePairs capacity dir ps)"
  by (rule keeps_writePairs_all; intro keeps_rules; simp)+

lemma recordLoop_path:
  assumes "recordLoop k capacity job rs outcome m w = (r, w')"
  shows "os_path (case r of Inl (e, m') \<Rightarrow> m' | Inr (o', m') \<Rightarrow> m') = os_path m"
  using assms
proof (induction rs arbitrary: outcome m w)
  case (Cons record_head rs)
  obtain q w1 where q: "writeRecord k capacity job record_head outcome m w = (q, w1)" by fastforce
  show ?case
  proof (cases q)
    case (Inl e)
    with Cons.prems q show ?thesis by (auto simp: andThen_def onError_def)
  next
    case (Inr com)
    obtain c o1 m1 where com: "com = (c, o1, m1)" using prod_cases3 by blast
    with q Inr have path: "os_path m1 = os_path m" by (simp add: writeRecord_path)
    from Cons.prems q Inr com have "(if c then recordLoop k capacity job rs o1 m1 else ret (o1, m1)) w1 = (r, w')"
      by (simp add: andThen_def onError_def)
    then show ?thesis using Cons.IH [of o1 m1 w1] path by (cases c) auto
  qed
qed auto

lemma keeps_writeJobFiles_all:
  assumes P: "keeps P (createDirectories (directory job))" "keeps P (openAppend (directory job @ [''manifest.csv'']))"
    "\<And>c. keeps P (appendContent (directory job @ [''manifest.csv'']) c)"
    "keeps P (writePairs capacity (directory job) (job_pairs job))"
    "\<And>o' m. os_path m = directory job @ [''manifest.csv''] \<Longrightarrow> keeps P (recordLoop k capacity job (job_records job) o' m)"
  shows "keeps P (writeJobFiles k capacity job)"
proof -
  have close: "keeps P (closeStream m)" "keeps P (flushStream m)" "keeps P (putStream capacity t m)"
    if "os_path m = directory job @ [''manifest.csv'']" for m t
    using keeps_stream [of P m] P(3) that by simp_all
  have loop: "keeps P (writeRecords k capacity job outcome m)"
    if path: "os_path m = directory job @ [''manifest.csv'']" for m and outcome :: JobOutcome
  proof (rule keepsI)
    fix w r w' assume w: "P w" and run: "writeRecords k capacity job outcome m w = (r, w')"
    obtain q w1 where q: "recordLoop k capacity job (job_records job) outcome m w = (q, w1)" by fastforce
    have w1: "P w1" using keepsD [OF P(5) [OF path] q w] .
    show "P w'"
    proof (cases q)
      case (Inl em)
      obtain e m1 where em: "em = (e, m1)" by fastforce
      obtain c w2 where c: "closeStream m1 w1 = (c, w2)" by fastforce
      have "os_path m1 = directory job @ [''manifest.csv'']" using recordLoop_path [OF q] path Inl em by simp
      from keepsD [OF close(1) [OF this] c w1] show ?thesis
        using run q c by (simp add: writeRecords_def Inl em andThen_def onError_def lift_def throw_def)
    next
      case (Inr om)
      obtain o1 m1 where om: "om = (o1, m1)" by fastforce
      obtain m2 w2 where f: "flushStream m1 w1 = (m2, w2)" by fastforce
      obtain c w3 where c: "closeStream m2 w2 = (c, w3)" by fastforce
      have p1: "os_path m1 = directory job @ [''manifest.csv'']" using recordLoop_path [OF q] path Inr om by simp
      then have p2: "os_path m2 = directory job @ [''manifest.csv'']" using stream_path(2) [OF f] by simp
      from keepsD [OF close(1) [OF p2] c keepsD [OF close(2) [OF p1] f w1]] show ?thesis
        using run q f c by (simp add: writeRecords_def closeManifest_def Inr om andThen_def onError_def lift_def ret_def Let_def)
    qed
  qed
  have first: "keeps P (andThen (lift (putStream capacity t \<lparr>os_path = directory job @ [''manifest.csv''], os_buffer = [], os_good = True\<rparr>)) f)"
    if "\<And>m. os_path m = directory job @ [''manifest.csv''] \<Longrightarrow> keeps P (f m)" for t and f :: "ostream \<Rightarrow> (string, JobOutcome) action"
    using that by (intro keeps_andThen_result keeps_lift close(3)) (auto dest: stream_path(1))
  show ?thesis unfolding writeJobFiles_def Let_def
    by (intro keeps_if keeps_andThen keeps_lift keeps_basic P first loop) assumption+
qed

lemma keeps_writeJobFiles:
  assumes "pcd_local k"
  shows "spared n x \<Longrightarrow> n \<noteq> ''pairs.csv'' \<Longrightarrow> keeps (at (directory job @ [n]) x) (writeJobFiles k capacity job)"
    and "keeps all_tree (writeJobFiles k capacity job)"
proof -
  show "spared n x \<Longrightarrow> n \<noteq> ''pairs.csv'' \<Longrightarrow> keeps (at (directory job @ [n]) x) (writeJobFiles k capacity job)"
    by (intro keeps_writeJobFiles_all keeps_rules keeps_writePairs keeps_recordLoop assms) (auto simp: spared_def)
  show "keeps all_tree (writeJobFiles k capacity job)"
    by (intro keeps_writeJobFiles_all keeps_rules keeps_writePairs keeps_recordLoop assms)
qed

text \<open>A job that reports success leaves the complete manifest and pairs behind.\<close>

lemma job_recorded:
  assumes run: "writeJobFiles k capacity job w = (Inr outcome, w')" and ok: "outcome_ok outcome" and k: "pcd_local k"
  shows "\<exists>es. list_all2 (recorded k job (disk w')) (filter (enabledFor job) (job_records job)) es \<and>
     persistedRecords outcome = length es \<and>
     readFile (disk w') (directory job @ [''manifest.csv'']) =
       Some (startText (readFile (disk w) (directory job @ [''manifest.csv''])) manifestHeader @ manifestText es) \<and>
     (job_pairs job \<noteq> [] \<longrightarrow> readFile (disk w') (directory job @ [''pairs.csv'']) =
       Some (startText (readFile (disk w) (directory job @ [''pairs.csv''])) pairsHeader @
         concat (map (\<lambda>r. pairLine r @ [newline]) (job_pairs job))))"
proof -
  let ?m = "directory job @ [''manifest.csv'']" and ?p = "directory job @ [''pairs.csv'']"
  let ?s0 = "\<lparr>os_path = ?m, os_buffer = [], os_good = True\<rparr>"
  obtain wa wb m1 wc pairsOk wd where a: "createDirectories (directory job) w = (True, wa)"
      and b: "openAppend ?m wa = (True, wb)"
      and c: "putStream capacity (if readFile (disk wb) ?m = Some [] then manifestHeader @ [newline] else []) ?s0 wb = (m1, wc)"
      and d: "writePairs capacity (directory job) (job_pairs job) wc = (pairsOk, wd)"
      and e: "writeRecords k capacity job (if pairsOk then \<lparr>outcome_ok = True, persistedRecords = 0, outcome_reason = []\<rparr>
                  else failedOutcome ''pairs_write_failed'') m1 wd = (Inr outcome, w')"
    using run ok unfolding writeJobFiles_def Let_def
    by (auto simp: failedOutcome_def elim!: andThen_Inr split: if_split_asm)
  obtain o1 m2 we m3 wf where f: "recordLoop k capacity job (job_records job)
        (if pairsOk then \<lparr>outcome_ok = True, persistedRecords = 0, outcome_reason = []\<rparr>
         else failedOutcome ''pairs_write_failed'') m1 wd = (Inr (o1, m2), we)"
      and g: "flushStream m2 we = (m3, wf)" and h: "os_good m3" "outcome = o1" "w' = snd (closeStream m3 wf)"
    using e ok unfolding writeRecords_def closeManifest_def Let_def
    by (auto simp: onError_def throw_def lift_def andThen_def failOutcome_def
        split: prod.splits sum.splits if_split_asm)
  have pairsOk using recordLoop_ok_mono [OF f] ok h(2) by (cases pairsOk) (auto simp: failedOutcome_def)
  have start: "lookup (disk wa) q = lookup (disk w) q" if "q \<in> {?m, ?p}" for q
    using createDirectories_lookup [OF a, of q] that by auto
  have ne: "?m \<noteq> []" "''manifest.csv'' \<noteq> ''pairs.csv''" by simp_all
  note header = appended_header [OF b ne(1) c]
  have "at ?m (lookup (disk wc) ?m) wc" by (simp add: at_def)
  from keepsD [OF keeps_writePairs(1) [OF ne(2)] d this]
  have same: "lookup (disk wd) (os_path m1) = lookup (disk wc) (os_path m1)"
    unfolding at_def header(2) .
  have "readFile (disk wa) ?m = readFile (disk w) ?m" unfolding readFile_def by (subst start) simp_all
  with header(1) have "streamed m1 wd (startText (readFile (disk w) ?m) manifestHeader)"
    unfolding streamed_frame [OF same] by simp
  from recordLoop_ok [OF f _ k _ this] ok h(2) header(2) obtain es where
      es: "list_all2 (recorded k job (disk we)) (filter (enabledFor job) (job_records job)) es" "os_path m2 = ?m"
      and n: "persistedRecords o1 = length es"
      and body: "streamed m2 we (startText (readFile (disk w) ?m) manifestHeader @ manifestText es)"
    by (auto simp: \<open>pairsOk\<close>)
  have w': "w' = wf" and manifest: "readFile (disk wf) ?m = Some (startText (readFile (disk w) ?m) manifestHeader @ manifestText es)"
    using streamed_flush [OF body g h(1)] h es(2) by (simp_all add: closeStream_def)
  have kept: "keeps (at (directory job @ [x]) y) (flushStream m2)" if "x \<noteq> ''manifest.csv''" for x y
    by (rule keeps_stream(2)) (auto intro: keeps_rules simp: es(2) that)
  have later: "recorded k job (disk wf) r e" if "recorded k job (disk we) r e" for r e
  proof -
    have "spared (me_file e) None \<or> spared (me_file e) (Some Dir)"
      using that entry_spared unfolding recorded_def by blast
    then have "me_file e \<noteq> ''manifest.csv''" by (auto simp: spared_def)
    from recorded_kept [OF that kept [OF this] g] show ?thesis .
  qed
  have "readFile (disk wf) ?p = Some (startText (readFile (disk w) ?p) pairsHeader @
      concat (map (\<lambda>r. pairLine r @ [newline]) (job_pairs job)))" if some: "job_pairs job \<noteq> []"
  proof -
    have put: "keeps (at ?p x) (putStream capacity t ?s0)" for x t by (intro keeps_rules) simp
    have "at ?p (lookup (disk w) ?p) wb"
      using openAppend_lookup [OF b, of ?p] start [of ?p] by (simp add: at_def)
    from keepsD [OF put c this] have "at ?p (lookup (disk w) ?p) wc" .
    then have "readFile (disk wc) ?p = readFile (disk w) ?p" by (simp add: at_def readFile_def)
    with writePairs_ok [OF _ some] d \<open>pairsOk\<close>
    have "readFile (disk wd) ?p = Some (startText (readFile (disk w) ?p) pairsHeader @
      concat (map (\<lambda>r. pairLine r @ [newline]) (job_pairs job)))" by fastforce
    then obtain x where x: "at ?p (Some (File x)) wd" "x = startText (readFile (disk w) ?p) pairsHeader @
      concat (map (\<lambda>r. pairLine r @ [newline]) (job_pairs job))"
      by (auto simp: at_def readFile_def split: option.splits node.splits)
    have "at ?p (Some (File x)) we"
      by (rule keepsD [OF keeps_recordLoop(1) [OF k] f x(1)]) (simp_all add: header(2) spared_def suffix_def)
    from keepsD [OF kept g this] have "at ?p (Some (File x)) wf" by simp
    then show ?thesis using x(2) by (simp add: readFile_at)
  qed
  moreover have "list_all2 (recorded k job (disk wf)) (filter (enabledFor job) (job_records job)) es"
    using es(1) later by (rule list_all2_mono)
  ultimately show ?thesis using n h(2) manifest unfolding w' by blast
qed

section \<open>Properties\<close>

text \<open>A worker library that stores frames as they are, and a job with one frame.\<close>

definition plainCodec :: Codec where
  "plainCodec = \<lparr>serializeImage = (\<lambda>m. img_data m), serializeCloud = (\<lambda>m. pc_data m), zstdContext = True,
     compress2 = (\<lambda>level raw. Some raw), cvtColor = (\<lambda>c m. m), imencode = (\<lambda>e ps m. Inr None),
     savePcd = (\<lambda>cloud p. ret False)\<rparr>"

definition sampleJob :: Job where
  "sampleJob = \<lparr>directory = [''r'', ''e''],
     job_records = [cameraFrame \<lparr>img_stamp = 5, img_height = 1, img_width = 1, img_step = 1,
       img_encoding = ''mono8'', img_data = ''p''\<rparr>],
     recordCamera = True, recordLidar = True, compressionEnabled = True, compressionLevel = 3, keepRaw = False,
     conversionEnabled = False, imageFormat = ''jpg'', imageQuality = 90, pointCloudFormat = ''pcd'', job_pairs = [],
     finalJob = True\<rparr>"

lemma plainCodec_local: "pcd_local plainCodec"
  by (auto simp: pcd_local_def plainCodec_def intro: keeps_basic)

lemma sampleJob_run:
  "\<exists>w'. writeJobFiles plainCodec 100 sampleJob
     \<lparr>disk = [([''r''], Dir), ([''r'', ''e''], Dir), ([''r'', ''e'', ''.pending''], File ''x'')], script = []\<rparr> =
     (Inr \<lparr>outcome_ok = True, persistedRecords = 1, outcome_reason = []\<rparr>, w')"
proof -
  have "fst (writeJobFiles plainCodec 100 sampleJob
     \<lparr>disk = [([''r''], Dir), ([''r'', ''e''], Dir), ([''r'', ''e'', ''.pending''], File ''x'')], script = []\<rparr>) =
     Inr \<lparr>outcome_ok = True, persistedRecords = 1, outcome_reason = []\<rparr>"
    by code_simp
  then show ?thesis by (metis prod.collapse)
qed

text \<open>
  C35. Success means stored: a job that reports success, whatever else failed, leaves one
  manifest row per record of an enabled sensor, in order, appended to what the manifest
  held; the file named by each row holds the record's serialised message, or what the
  compressor made of it; and the pairs are appended to \<open>pairs.csv\<close>.
\<close>

theorem successful_job_is_stored:
  assumes "writeJobFiles k capacity job w = (Inr outcome, w')" "outcome_ok outcome" "pcd_local k"
  shows "\<exists>es. list_all2 (recorded k job (disk w')) (filter (enabledFor job) (job_records job)) es \<and>
     persistedRecords outcome = length es \<and>
     readFile (disk w') (directory job @ [''manifest.csv'']) =
       Some (startText (readFile (disk w) (directory job @ [''manifest.csv''])) manifestHeader @ manifestText es) \<and>
     (job_pairs job \<noteq> [] \<longrightarrow> readFile (disk w') (directory job @ [''pairs.csv'']) =
       Some (startText (readFile (disk w) (directory job @ [''pairs.csv''])) pairsHeader @
         concat (map (\<lambda>r. pairLine r @ [newline]) (job_pairs job))))"
  by (rule job_recorded [OF assms])

theorem successful_job_is_stored_witness:
  "\<exists>w' :: World. \<exists>es. length es = 1 \<and> list_all2 (recorded plainCodec sampleJob (disk w')) (job_records sampleJob) es"
proof -
  obtain w' where run: "writeJobFiles plainCodec 100 sampleJob
     \<lparr>disk = [([''r''], Dir), ([''r'', ''e''], Dir), ([''r'', ''e'', ''.pending''], File ''x'')], script = []\<rparr> =
     (Inr \<lparr>outcome_ok = True, persistedRecords = 1, outcome_reason = []\<rparr>, w')"
    using sampleJob_run by blast
  have "filter (enabledFor sampleJob) (job_records sampleJob) = job_records sampleJob"
    by (simp add: enabledFor_def sampleJob_def)
  with successful_job_is_stored [OF run _ plainCodec_local] show ?thesis by fastforce
qed



end
