(* ===== verification/Disk_Space.thy ===== *)
theory Disk_Space
  imports Event_State "HOL-Library.Word"
begin

text \<open>
  \<open>disk_space_manager.hpp\<close>: retention by age and capacity, and the free-space check
  before a write.  The file-system statistics of the operating system are an argument
  \<open>space\<close> (the free bytes for a path, \<open>None\<close> on error); the two clocks are
  arguments.  The cutoff is computed in 64-bit arithmetic, as the code does it.
\<close>

record DiskPolicy =
  minFreeBytes :: nat
  maxCapacityBytes :: nat
  retentionDays :: int
  cleanupInterval :: int
  protectUnuploaded :: bool

record DiskSpaceManager =
  recordRoot :: path
  diskPolicy :: DiskPolicy
  lastSweep :: int

record EventDir =
  ed_path :: path
  ed_timestampNs :: int
  ed_sizeBytes :: nat

definition newDiskSpaceManager :: "path \<Rightarrow> DiskPolicy \<Rightarrow> int \<Rightarrow> DiskSpaceManager" where
  "newDiskSpaceManager root p now = \<lparr>recordRoot = root, diskPolicy = p, lastSweep = now - cleanupInterval p\<rparr>"

section \<open>Event directories\<close>

text \<open>The digit loop: refuses other characters and values beyond \<open>int64\<close>.\<close>

fun timestampLoop :: "int \<Rightarrow> string \<Rightarrow> int" where
  "timestampLoop v [] = v"
| "timestampLoop v (c # cs) =
     (if \<not> isdigit c then - 1
      else
        let digit = int (code c) - 48
        in if v > (INT64_MAX - digit) div 10 then - 1 else timestampLoop (v * 10 + digit) cs)"

definition parseEventTimestamp :: "string \<Rightarrow> int" where
  "parseEventTimestamp name =
     (case find_last_of CHR ''_'' name of None \<Rightarrow> - 1
      | Some separator \<Rightarrow>
          if separator = 0 \<or> separator + 1 \<ge> length name then - 1
          else
            let digits = drop (separator + 1) name
            in if length digits < 9 then - 1 else timestampLoop 0 digits)"

definition directorySize :: "disk \<Rightarrow> path \<Rightarrow> nat" where
  "directorySize d p =
     sum_list (map (\<lambda>q. case readFile d q of None \<Rightarrow> 0 | Some c \<Rightarrow> length c) (below d p))"

text \<open>Whether retention may touch a directory, and as what.\<close>

definition collectable :: "DiskPolicy \<Rightarrow> disk \<Rightarrow> path \<Rightarrow> bool" where
  "collectable p d dir =
     (if \<not> isDirectory d dir then False
      else if pathExists d (dir @ [''.pending'']) \<or> pathExists d (dir @ [''.uploading'']) \<or>
              pathExists d (dir @ [''.uploading.tmp'']) then False
      else
        let completed = pathExists d (dir @ [''.complete'']); failed = pathExists d (dir @ [''.failed''])
        in if \<not> completed \<and> \<not> failed then False
           else if protectUnuploaded p \<and> completed \<and> \<not> pathExists d (dir @ [''.uploaded'']) then False
           else parseEventTimestamp (last dir) \<ge> 0)"

definition collectEventDirs :: "DiskSpaceManager \<Rightarrow> disk \<Rightarrow> EventDir list" where
  "collectEventDirs m d =
     sort_key ed_timestampNs
       (map (\<lambda>dir. \<lparr>ed_path = dir, ed_timestampNs = parseEventTimestamp (last dir), ed_sizeBytes = 0\<rparr>)
          (filter (collectable (diskPolicy m) d) (entries d (recordRoot m))))"

definition deleteDir :: "EventDir \<Rightarrow> World \<Rightarrow> bool \<times> World" where
  "deleteDir dir w = removeAll_tree (ed_path dir) w"

section \<open>Retention\<close>

text \<open>\<open>systemNowNs() - int64(days) * 24 * 3600 * 1000000000\<close>, wrapping.\<close>

definition cutoffNs :: "int \<Rightarrow> int \<Rightarrow> int" where
  "cutoffNs systemNowNs days =
     sint (word_of_int systemNowNs - word_of_int days * 24 * 3600 * 1000000000 :: 64 word)"

fun ageLoop :: "int \<Rightarrow> EventDir list \<Rightarrow> World \<Rightarrow> EventDir list \<times> World" where
  "ageLoop cutoff [] w = ([], w)"
| "ageLoop cutoff (dir # dirs) w =
     (if ed_timestampNs dir < cutoff then
        let (deleted, w1) = deleteDir dir w; (dirs', w2) = ageLoop cutoff dirs w1
        in (if deleted then dirs' else dir # dirs', w2)
      else (dir # dirs, w))"

fun capacityLoop :: "nat \<Rightarrow> nat \<Rightarrow> EventDir list \<Rightarrow> World \<Rightarrow> World" where
  "capacityLoop limit totalBytes [] w = w"
| "capacityLoop limit totalBytes (dir # dirs) w =
     (if totalBytes \<le> limit then w
      else
        let (deleted, w1) = deleteDir dir w
        in capacityLoop limit (if deleted then totalBytes - min totalBytes (ed_sizeBytes dir) else totalBytes) dirs w1)"

definition agePass :: "DiskPolicy \<Rightarrow> int \<Rightarrow> EventDir list \<Rightarrow> World \<Rightarrow> EventDir list \<times> World" where
  "agePass p systemNowNs eventDirs w =
     (if retentionDays p > 0 then ageLoop (cutoffNs systemNowNs (retentionDays p)) eventDirs w
      else (eventDirs, w))"

definition withSizes :: "disk \<Rightarrow> EventDir list \<Rightarrow> EventDir list" where
  "withSizes d eventDirs = map (\<lambda>dir. dir\<lparr>ed_sizeBytes := directorySize d (ed_path dir)\<rparr>) eventDirs"

definition capacityPass :: "DiskPolicy \<Rightarrow> EventDir list \<Rightarrow> World \<Rightarrow> World" where
  "capacityPass p eventDirs w =
     (if maxCapacityBytes p > 0 then
        let sized = withSizes (disk w) eventDirs
        in capacityLoop (maxCapacityBytes p) (sum_list (map ed_sizeBytes sized)) sized w
      else w)"

definition enforceRetention ::
  "bool \<Rightarrow> int \<Rightarrow> int \<Rightarrow> DiskSpaceManager \<Rightarrow> World \<Rightarrow> DiskSpaceManager \<times> World" where
  "enforceRetention force now systemNowNs m w =
     (let p = diskPolicy m in
      if \<not> retentionDays p > 0 \<and> \<not> maxCapacityBytes p > 0 then (m, w)
      else if \<not> force \<and> now - lastSweep m < cleanupInterval p then (m, w)
      else
        let m = m\<lparr>lastSweep := now\<rparr>;
            (eventDirs, w1) = agePass p systemNowNs (collectEventDirs m (disk w)) w
        in (m, capacityPass p eventDirs w1))"

section \<open>Free space\<close>

function probePath :: "disk \<Rightarrow> path \<Rightarrow> path" where
  "probePath d p = (if p \<noteq> [] \<and> \<not> pathExists d p then probePath d (parentPath p) else p)"
  by pat_completeness auto
termination by (relation "measure (\<lambda>(d, p). length p)") (auto simp: parentPath_def)

declare probePath.simps [simp del]

definition availableBytes :: "(disk \<Rightarrow> path \<Rightarrow> nat option) \<Rightarrow> DiskSpaceManager \<Rightarrow> disk \<Rightarrow> nat" where
  "availableBytes space m d =
     (case space d (probePath d (recordRoot m)) of None \<Rightarrow> 0 | Some available \<Rightarrow> available)"

definition prepareForWrite ::
  "(disk \<Rightarrow> path \<Rightarrow> nat option) \<Rightarrow> int \<Rightarrow> int \<Rightarrow> DiskSpaceManager \<Rightarrow> World \<Rightarrow>
   bool \<times> DiskSpaceManager \<times> World" where
  "prepareForWrite space now systemNowNs m w =
     (if minFreeBytes (diskPolicy m) = 0 then (True, m, w)
      else if availableBytes space m (disk w) \<ge> minFreeBytes (diskPolicy m) then (True, m, w)
      else
        let (m1, w1) = enforceRetention True now systemNowNs m w
        in if availableBytes space m1 (disk w1) \<ge> minFreeBytes (diskPolicy m1) then (True, m1, w1)
           else (False, m1, w1))"

section \<open>What retention may delete\<close>

lemma deleteDir_frame: "deleteDir dir w = (ok, w') \<Longrightarrow> \<not> prefix (ed_path dir) q \<Longrightarrow> lookup (disk w') q = lookup (disk w) q"
  unfolding deleteDir_def by (rule removeAll_lookup)

lemma ageLoop_frame:
  "\<forall>dir\<in>set dirs. \<not> prefix (ed_path dir) q \<Longrightarrow> lookup (disk (snd (ageLoop cutoff dirs w))) q = lookup (disk w) q"
proof (induction dirs arbitrary: w)
  case (Cons dir dirs)
  obtain b w1 where del: "deleteDir dir w = (b, w1)" by fastforce
  have "lookup (disk w1) q = lookup (disk w) q" using deleteDir_frame [OF del] Cons.prems by simp
  with Cons.IH [of w1] Cons.prems show ?case by (auto simp: del case_prod_beta Let_def)
qed simp

lemma ageLoop_subset: "set (fst (ageLoop cutoff dirs w)) \<subseteq> set dirs"
proof (induction dirs arbitrary: w)
  case (Cons dir dirs)
  obtain b w1 where del: "deleteDir dir w = (b, w1)" by fastforce
  show ?case using Cons.IH [of w1] by (auto simp: del case_prod_beta Let_def)
qed simp

lemma capacityLoop_frame:
  "\<forall>dir\<in>set dirs. \<not> prefix (ed_path dir) q \<Longrightarrow> lookup (disk (capacityLoop limit totalBytes dirs w)) q = lookup (disk w) q"
proof (induction dirs arbitrary: totalBytes w)
  case (Cons dir dirs)
  obtain b w1 where del: "deleteDir dir w = (b, w1)" by fastforce
  have "lookup (disk w1) q = lookup (disk w) q" using deleteDir_frame [OF del] Cons.prems by simp
  with Cons.IH [of _ w1] Cons.prems show ?case by (simp add: del)
qed simp

lemma agePass_frame:
  assumes "\<forall>dir\<in>set dirs. \<not> prefix (ed_path dir) q"
  shows "lookup (disk (snd (agePass p sys dirs w))) q = lookup (disk w) q"
    and "\<forall>dir\<in>set (fst (agePass p sys dirs w)). \<not> prefix (ed_path dir) q"
  using assms ageLoop_frame by (auto simp: agePass_def dest!: subsetD [OF ageLoop_subset])

lemma capacityPass_frame:
  assumes "\<forall>dir\<in>set dirs. \<not> prefix (ed_path dir) q"
  shows "lookup (disk (capacityPass p dirs w)) q = lookup (disk w) q"
  using assms unfolding capacityPass_def Let_def
  by (auto simp: withSizes_def intro!: capacityLoop_frame)

lemma collect_paths:
  "dir \<in> set (collectEventDirs m d) \<Longrightarrow>
   ed_path dir \<in> set (entries d (recordRoot m)) \<and> collectable (diskPolicy m) d (ed_path dir)"
  by (auto simp: collectEventDirs_def)

lemma retention_frame:
  assumes "\<forall>dir\<in>set (collectEventDirs m (disk w)). \<not> prefix (ed_path dir) q"
  shows "lookup (disk (snd (enforceRetention force now sys m w))) q = lookup (disk w) q"
proof -
  have "collectEventDirs (m\<lparr>lastSweep := now\<rparr>) (disk w) = collectEventDirs m (disk w)"
    by (simp add: collectEventDirs_def)
  with assms show ?thesis
    by (simp add: enforceRetention_def Let_def case_prod_beta capacityPass_frame agePass_frame)
qed

lemma same_length_prefix: "prefix a q \<Longrightarrow> prefix b q \<Longrightarrow> length a = length b \<Longrightarrow> a = b"
  by (auto simp: prefix_def)

lemma uncollected_untouched:
  assumes "childOf root dir" "recordRoot m = root" "\<not> collectable (diskPolicy m) (disk w) dir" "prefix dir q"
  shows "lookup (disk (snd (enforceRetention force now sys m w))) q = lookup (disk w) q"
proof (rule retention_frame, rule ballI, rule notI)
  fix e assume e: "e \<in> set (collectEventDirs m (disk w))" "prefix (ed_path e) q"
  then have "childOf root (ed_path e)" "collectable (diskPolicy m) (disk w) (ed_path e)"
    using collect_paths [OF e(1)] assms(2) by (auto simp: entries_def)
  moreover have len: "childOf root x \<Longrightarrow> length x = Suc (length root)" for x by (auto simp: childOf_def)
  ultimately have "ed_path e = dir"
    using e(2) assms(1,4) by (intro same_length_prefix [of _ q]) simp_all
  with \<open>collectable (diskPolicy m) (disk w) (ed_path e)\<close> show False using assms(3) by simp
qed

section \<open>Retention without failures\<close>

definition purge :: "path list \<Rightarrow> disk \<Rightarrow> disk" where
  "purge ps d = fold (\<lambda>p d. deleteAll (p # below d p) d) ps d"

lemma purge_simps [simp]:
  "purge [] d = d" "purge (p # ps) d = purge ps (deleteAll (p # below d p) d)"
  by (simp_all add: purge_def)

lemma purge_append: "purge (ps @ qs) d = purge qs (purge ps d)"
  by (simp add: purge_def)

lemma lookup_purge: "lookup (purge ps d) q = (if \<exists>p\<in>set ps. prefix p q then None else lookup d q)"
proof (induction ps arbitrary: d)
  case (Cons p ps)
  have "lookup (deleteAll (p # below d p) d) q = (if prefix p q then None else lookup d q)"
    using lookup_below [of p q d]
    by (cases "lookup d q") (auto simp: lookup_deleteAll strict_prefix_def below_def)
  with Cons show ?case by simp
qed simp

lemma deleteDir_healthy:
  "script w = [] \<Longrightarrow> deleteDir dir w = (True, w\<lparr>disk := deleteAll (ed_path dir # below (disk w) (ed_path dir)) (disk w)\<rparr>)"
  by (simp add: deleteDir_def removeAll_tree_def perform_healthy)

lemma ageLoop_healthy:
  "script w = [] \<Longrightarrow> ageLoop cutoff dirs w =
     (dropWhile (\<lambda>dir. ed_timestampNs dir < cutoff) dirs,
      w\<lparr>disk := purge (map ed_path (takeWhile (\<lambda>dir. ed_timestampNs dir < cutoff) dirs)) (disk w)\<rparr>)"
  by (induction dirs arbitrary: w) (auto simp: deleteDir_healthy case_prod_beta Let_def)

lemma capacityLoop_healthy:
  "script w = [] \<Longrightarrow> totalBytes = sum_list (map ed_sizeBytes dirs) \<Longrightarrow>
   \<exists>k\<le>length dirs. capacityLoop limit totalBytes dirs w = w\<lparr>disk := purge (map ed_path (take k dirs)) (disk w)\<rparr> \<and>
     sum_list (map ed_sizeBytes (drop k dirs)) \<le> limit \<and>
     (k > 0 \<longrightarrow> limit < sum_list (map ed_sizeBytes (drop (k - 1) dirs)))"
proof (induction dirs arbitrary: totalBytes w)
  case (Cons dir dirs)
  show ?case
  proof (cases "totalBytes \<le> limit")
    case True
    with Cons.prems show ?thesis by (intro exI [of _ 0]) simp
  next
    case False
    let ?w = "w\<lparr>disk := deleteAll (ed_path dir # below (disk w) (ed_path dir)) (disk w)\<rparr>"
    have "totalBytes - min totalBytes (ed_sizeBytes dir) = sum_list (map ed_sizeBytes dirs)"
      using Cons.prems(2) by simp
    then obtain k where k: "k \<le> length dirs"
      "capacityLoop limit (totalBytes - min totalBytes (ed_sizeBytes dir)) dirs ?w =
         ?w\<lparr>disk := purge (map ed_path (take k dirs)) (disk ?w)\<rparr>"
      "sum_list (map ed_sizeBytes (drop k dirs)) \<le> limit"
      "k > 0 \<longrightarrow> limit < sum_list (map ed_sizeBytes (drop (k - 1) dirs))"
      using Cons.IH [of ?w "totalBytes - min totalBytes (ed_sizeBytes dir)"] Cons.prems(1) by auto
    have "limit < sum_list (map ed_sizeBytes (drop (Suc k - 1) (dir # dirs)))"
      using k(4) False Cons.prems(2) by (cases k) auto
    with k False Cons.prems(1) show ?thesis
      by (intro exI [of _ "Suc k"]) (simp add: deleteDir_healthy)
  qed
qed simp

lemma below_deleteAll:
  assumes "\<forall>q\<in>set (below d p). q \<notin> set ps"
  shows "below (deleteAll ps d) p = below d p"
proof -
  have "map fst (deleteAll ps d) = filter (\<lambda>q. q \<notin> set ps) (map fst d)"
    by (induction d) (auto simp: deleteAll_def)
  moreover have "filter (\<lambda>q. q \<notin> set ps \<and> strict_prefix p q) (map fst d) = filter (strict_prefix p) (map fst d)"
    by (rule filter_cong [OF refl]) (use assms in \<open>auto simp: below_def\<close>)
  ultimately show ?thesis by (simp add: below_def conj_commute)
qed

lemma directorySize_deleteAll:
  "\<forall>q\<in>set (below d p). q \<notin> set ps \<Longrightarrow> directorySize (deleteAll ps d) p = directorySize d p"
  unfolding directorySize_def
  by (subst below_deleteAll) (auto simp: readFile_def lookup_deleteAll intro!: arg_cong [where f = sum_list] map_cong)

lemma directorySize_purge:
  "\<forall>p'\<in>set ps. length p' = length p \<and> p' \<noteq> p \<Longrightarrow> directorySize (purge ps d) p = directorySize d p"
proof (induction ps arbitrary: d)
  case (Cons p' ps)
  have "\<forall>q\<in>set (below d p). q \<notin> set (p' # below d p')"
    using Cons.prems same_length_prefix [of p _ p'] by (auto simp: below_def strict_prefix_def)
  with Cons show ?case by (simp add: directorySize_deleteAll)
qed simp

lemma collect_sorted: "sorted (map ed_timestampNs (collectEventDirs m d))"
  by (simp add: collectEventDirs_def)

lemma collect_distinct: "distinct (map ed_path (collectEventDirs m d))"
proof -
  let ?mk = "\<lambda>dir. \<lparr>ed_path = dir, ed_timestampNs = parseEventTimestamp (last dir), ed_sizeBytes = 0\<rparr>"
  have "distinct (map ed_path (map ?mk (filter (collectable (diskPolicy m) d) (entries d (recordRoot m)))))"
    by (simp add: comp_def entries_def)
  moreover have "mset (map ed_path (collectEventDirs m d)) =
      mset (map ed_path (map ?mk (filter (collectable (diskPolicy m) d) (entries d (recordRoot m)))))"
    unfolding collectEventDirs_def mset_map mset_sort ..
  ultimately show ?thesis using mset_eq_imp_distinct_iff by blast
qed

lemma collect_length: "dir \<in> set (collectEventDirs m d) \<Longrightarrow> length (ed_path dir) = Suc (length (recordRoot m))"
  using collect_paths entries_length by blast

lemma takeWhile_dropWhile_take:
  "takeWhile P xs @ take k (dropWhile P xs) = take (length (takeWhile P xs) + k) xs"
  "drop k (dropWhile P xs) = drop (length (takeWhile P xs) + k) xs"
  by (metis append_take_drop_id dropWhile_eq_drop take_add takeWhile_eq_take)
     (simp add: dropWhile_eq_drop add.commute)

text \<open>A sweep without failures deletes a prefix of the collected directories.\<close>

lemma agePass_healthy:
  assumes "script w = []" "sorted (map ed_timestampNs dirs)"
  shows "\<exists>j\<le>length dirs. agePass p sys dirs w =
       (drop j dirs, w\<lparr>disk := purge (map ed_path (take j dirs)) (disk w)\<rparr>) \<and>
     (retentionDays p > 0 \<longrightarrow> (\<forall>dir\<in>set (drop j dirs). cutoffNs sys (retentionDays p) \<le> ed_timestampNs dir)) \<and>
     (j > 0 \<longrightarrow> retentionDays p > 0 \<and> ed_timestampNs (dirs ! (j - 1)) < cutoffNs sys (retentionDays p))"
proof (cases "retentionDays p > 0")
  case True
  let ?P = "\<lambda>dir. ed_timestampNs dir < cutoffNs sys (retentionDays p)"
  let ?j = "length (takeWhile ?P dirs)"
  have "agePass p sys dirs w = (drop ?j dirs, w\<lparr>disk := purge (map ed_path (take ?j dirs)) (disk w)\<rparr>)"
    unfolding takeWhile_eq_take [symmetric] dropWhile_eq_drop [symmetric]
    using True ageLoop_healthy [OF assms(1)] by (simp add: agePass_def)
  moreover have "drop ?j dirs = filter (\<lambda>dir. cutoffNs sys (retentionDays p) \<le> ed_timestampNs dir) dirs"
    using dropWhile_less_eq_filter [OF assms(2)] by (simp add: dropWhile_eq_drop)
  moreover have "?P (dirs ! (?j - 1))" if "?j > 0"
  proof -
    have "?j - 1 < ?j" using that by simp
    then have "takeWhile ?P dirs ! (?j - 1) = dirs ! (?j - 1)" by (rule takeWhile_nth)
    moreover have "takeWhile ?P dirs ! (?j - 1) \<in> set (takeWhile ?P dirs)"
      using \<open>?j - 1 < ?j\<close> by (rule nth_mem)
    ultimately have "dirs ! (?j - 1) \<in> set (takeWhile ?P dirs)" by simp
    then show ?thesis by (auto dest: set_takeWhileD)
  qed
  ultimately show ?thesis using True length_takeWhile_le [of ?P dirs] by (intro exI [of _ ?j]) auto
next
  case False
  then show ?thesis by (intro exI [of _ 0]) (simp add: agePass_def)
qed

lemma capacityPass_healthy:
  assumes "script w = []"
  defines "bytes \<equiv> \<lambda>ds. sum_list (map (\<lambda>dir. directorySize (disk w) (ed_path dir)) ds)"
  shows "\<exists>k\<le>length dirs. capacityPass p dirs w = w\<lparr>disk := purge (map ed_path (take k dirs)) (disk w)\<rparr> \<and>
     (maxCapacityBytes p > 0 \<longrightarrow> bytes (drop k dirs) \<le> maxCapacityBytes p) \<and>
     (k > 0 \<longrightarrow> maxCapacityBytes p > 0 \<and> maxCapacityBytes p < bytes (drop (k - 1) dirs))"
proof (cases "maxCapacityBytes p > 0")
  case True
  let ?sized = "withSizes (disk w) dirs"
  have sizes: "sum_list (map ed_sizeBytes (drop n ?sized)) = bytes (drop n dirs)" for n
    by (simp add: bytes_def withSizes_def drop_map comp_def)
  have paths: "map ed_path (take n ?sized) = map ed_path (take n dirs)" for n
    by (simp add: withSizes_def take_map comp_def)
  have len: "length ?sized = length dirs" by (simp add: withSizes_def)
  have pass: "capacityPass p dirs w =
      capacityLoop (maxCapacityBytes p) (sum_list (map ed_sizeBytes ?sized)) ?sized w"
    using True unfolding capacityPass_def Let_def by simp
  from capacityLoop_healthy [OF assms(1) refl, of "?sized" "maxCapacityBytes p"] True
  show ?thesis unfolding pass sizes paths len by blast
next
  case False
  then show ?thesis by (intro exI [of _ 0]) (simp add: capacityPass_def)
qed

section \<open>The cutoff\<close>

lemma cutoff_exact:
  assumes "0 \<le> days" "days \<le> 106751" "0 \<le> sys" "sys \<le> INT64_MAX"
  shows "cutoffNs sys days = sys - days * 86400000000000"
proof -
  have "cutoffNs sys days = sint (word_of_int (sys - days * 86400000000000) :: 64 word)"
    by (simp add: cutoffNs_def mult.assoc)
  also have "\<dots> = sys - days * 86400000000000"
    unfolding int_word_sint using assms by (simp add: INT64_MAX_def)
  finally show ?thesis .
qed

section \<open>The sweep as a whole\<close>

lemma collect_lastSweep [simp]: "collectEventDirs (m\<lparr>lastSweep := t\<rparr>) d = collectEventDirs m d"
  by (simp add: collectEventDirs_def)

lemma sizes_after_purge:
  fixes m :: DiskSpaceManager and d :: disk
  assumes "i \<le> j"
  defines "dirs \<equiv> collectEventDirs m d"
  shows "map (\<lambda>dir. directorySize (purge (map ed_path (take i dirs)) d) (ed_path dir)) (drop j dirs) =
     map (\<lambda>dir. directorySize d (ed_path dir)) (drop j dirs)"
proof (rule map_cong [OF refl], rule directorySize_purge, rule ballI)
  fix dir p assume dir: "dir \<in> set (drop j dirs)" and p: "p \<in> set (map ed_path (take i dirs))"
  have "set (take i (map ed_path dirs)) \<inter> set (drop j (map ed_path dirs)) = {}"
    using collect_distinct [of m d] assms(1) unfolding dirs_def by (rule set_take_disj_set_drop_if_distinct)
  with dir p have "p \<noteq> ed_path dir" by (auto simp: take_map drop_map)
  moreover have "length p = length (ed_path dir)"
    using dir p collect_length unfolding dirs_def by (auto dest!: in_set_takeD in_set_dropD)
  ultimately show "length p = length (ed_path dir) \<and> p \<noteq> ed_path dir" by simp
qed

lemma retention_run:
  assumes "script w = []" "force \<or> cleanupInterval (diskPolicy m) \<le> now - lastSweep m"
  defines "dirs \<equiv> collectEventDirs m (disk w)" and "p \<equiv> diskPolicy m"
    and "bytes \<equiv> \<lambda>ds. sum_list (map (\<lambda>dir. directorySize (disk w) (ed_path dir)) ds)"
  shows "\<exists>k\<le>length dirs. snd (enforceRetention force now sys m w) = w\<lparr>disk := purge (map ed_path (take k dirs)) (disk w)\<rparr> \<and>
     (maxCapacityBytes p > 0 \<longrightarrow> bytes (drop k dirs) \<le> maxCapacityBytes p) \<and>
     (retentionDays p > 0 \<longrightarrow> (\<forall>dir\<in>set (drop k dirs). cutoffNs sys (retentionDays p) \<le> ed_timestampNs dir)) \<and>
     (k > 0 \<longrightarrow> retentionDays p > 0 \<and> ed_timestampNs (dirs ! (k - 1)) < cutoffNs sys (retentionDays p) \<or>
        maxCapacityBytes p > 0 \<and> maxCapacityBytes p < bytes (drop (k - 1) dirs))"
proof (cases "retentionDays p > 0 \<or> maxCapacityBytes p > 0")
  case True
  obtain j where j: "j \<le> length dirs"
      "agePass p sys dirs w = (drop j dirs, w\<lparr>disk := purge (map ed_path (take j dirs)) (disk w)\<rparr>)"
      "retentionDays p > 0 \<longrightarrow> (\<forall>dir\<in>set (drop j dirs). cutoffNs sys (retentionDays p) \<le> ed_timestampNs dir)"
      "j > 0 \<longrightarrow> retentionDays p > 0 \<and> ed_timestampNs (dirs ! (j - 1)) < cutoffNs sys (retentionDays p)"
    using agePass_healthy [OF assms(1) collect_sorted, of m "disk w" p sys] unfolding dirs_def by blast
  let ?w = "w\<lparr>disk := purge (map ed_path (take j dirs)) (disk w)\<rparr>"
  obtain k where k: "k \<le> length (drop j dirs)"
      "capacityPass p (drop j dirs) ?w = ?w\<lparr>disk := purge (map ed_path (take k (drop j dirs))) (disk ?w)\<rparr>"
      "maxCapacityBytes p > 0 \<longrightarrow>
         sum_list (map (\<lambda>dir. directorySize (disk ?w) (ed_path dir)) (drop k (drop j dirs))) \<le> maxCapacityBytes p"
      "k > 0 \<longrightarrow> maxCapacityBytes p > 0 \<and> maxCapacityBytes p <
         sum_list (map (\<lambda>dir. directorySize (disk ?w) (ed_path dir)) (drop (k - 1) (drop j dirs)))"
    using capacityPass_healthy [of ?w "drop j dirs" p] assms(1) by auto
  have same: "sum_list (map (\<lambda>dir. directorySize (disk ?w) (ed_path dir)) (drop n (drop j dirs))) = bytes (drop (j + n) dirs)" for n
    using arg_cong [OF sizes_after_purge [of j "j + n" m "disk w"], of sum_list]
    by (simp add: bytes_def dirs_def add.commute del: map_eq_conv)
  have run: "snd (enforceRetention force now sys m w) = w\<lparr>disk := purge (map ed_path (take (j + k) dirs)) (disk w)\<rparr>"
    using True assms(2) j(2) k(2)
    by (auto simp: enforceRetention_def p_def dirs_def Let_def take_add purge_append)
  have le: "j + k \<le> length dirs" using j(1) k(1) by simp
  have cap: "maxCapacityBytes p > 0 \<longrightarrow> bytes (drop (j + k) dirs) \<le> maxCapacityBytes p"
    using k(3) unfolding same .
  have old: "retentionDays p > 0 \<longrightarrow> (\<forall>dir\<in>set (drop (j + k) dirs). cutoffNs sys (retentionDays p) \<le> ed_timestampNs dir)"
    using j(3) set_drop_subset_set_drop [of j "j + k" dirs] by auto
  have last: "retentionDays p > 0 \<and> ed_timestampNs (dirs ! (j + k - 1)) < cutoffNs sys (retentionDays p) \<or>
        maxCapacityBytes p > 0 \<and> maxCapacityBytes p < bytes (drop (j + k - 1) dirs)" if "j + k > 0"
  proof (cases k)
    case 0
    with j(4) that show ?thesis by simp
  next
    case (Suc n)
    with k(4) show ?thesis unfolding same by simp
  qed
  show ?thesis
  proof (intro exI [of _ "j + k"] conjI)
    show "j + k > 0 \<longrightarrow> retentionDays p > 0 \<and> ed_timestampNs (dirs ! (j + k - 1)) < cutoffNs sys (retentionDays p) \<or>
        maxCapacityBytes p > 0 \<and> maxCapacityBytes p < bytes (drop (j + k - 1) dirs)" using last by blast
  qed (fact le, fact run, fact cap, fact old)
next
  case False
  then show ?thesis by (intro exI [of _ 0]) (auto simp: enforceRetention_def p_def Let_def)
qed

text \<open>A store with one event, over its capacity of one byte, used in the examples below.\<close>

definition crowdedEvent :: string where
  "crowdedEvent = ''e_100000000''"

definition crowdedStore :: disk where
  "crowdedStore = [([''r''], Dir), ([''r'', crowdedEvent], Dir), ([''r'', crowdedEvent, ''.complete''], File []),
     ([''r'', crowdedEvent, ''manifest.csv''], File ''xy'')]"

definition crowdedManager :: DiskSpaceManager where
  "crowdedManager = newDiskSpaceManager [''r'']
     \<lparr>minFreeBytes = 0, maxCapacityBytes = 1, retentionDays = 0, cleanupInterval = 60, protectUnuploaded = False\<rparr> 0"

lemma crowded_time: "parseEventTimestamp crowdedEvent = 100000000"
  by code_simp

lemma crowded_collected: "collectEventDirs crowdedManager crowdedStore = [\<lparr>ed_path = [''r'', crowdedEvent], ed_timestampNs = 100000000, ed_sizeBytes = 0\<rparr>]"
proof -
  have "collectable (diskPolicy crowdedManager) crowdedStore [''r'', crowdedEvent]"
    by (simp add: collectable_def crowdedManager_def newDiskSpaceManager_def crowdedStore_def isDirectory_def lookup_def pathExists_def crowded_time)
  moreover have "entries crowdedStore [''r''] = [[''r'', crowdedEvent]]" by (simp add: entries_def crowdedStore_def childOf_def)
  ultimately show ?thesis by (simp add: collectEventDirs_def crowdedManager_def newDiskSpaceManager_def crowded_time)
qed

lemma crowded_size: "directorySize crowdedStore [''r'', crowdedEvent] = 2"
  by (simp add: directorySize_def below_def crowdedStore_def readFile_def lookup_def)

lemma crowded_swept: "lookup (disk (snd (enforceRetention True 0 0 crowdedManager \<lparr>disk = crowdedStore, script = []\<rparr>)))
    [''r'', crowdedEvent, ''manifest.csv''] = None"
proof -
  let ?w = "\<lparr>disk = crowdedStore, script = []\<rparr>"
  have "script ?w = []" "True \<or> cleanupInterval (diskPolicy crowdedManager) \<le> 0 - lastSweep crowdedManager" by simp_all
  from retention_run [OF this, of 0] obtain k where k:
    "snd (enforceRetention True 0 0 crowdedManager ?w) = ?w\<lparr>disk := purge (map ed_path (take k (collectEventDirs crowdedManager crowdedStore))) crowdedStore\<rparr>"
    "(\<Sum>dir\<leftarrow>drop k (collectEventDirs crowdedManager crowdedStore). directorySize crowdedStore (ed_path dir)) \<le> 1"
    by (auto simp: crowdedManager_def newDiskSpaceManager_def)
  then have "0 < k" by (cases k) (simp_all add: crowded_collected crowded_size)
  then show ?thesis unfolding k(1) by (cases k) (simp_all add: crowded_collected lookup_purge del: purge_simps(2))
qed

text \<open>
  C32. Retention deletes only finished event directories.  Whatever the failures, a path
  that a sweep changed lies in a directory of the record root whose name carries a
  timestamp, which is marked complete or failed, is neither being recorded nor being
  uploaded, and, when unuploaded events are protected and it is complete, has been
  uploaded.
\<close>

theorem retention_spares:
  assumes "lookup (disk (snd (enforceRetention force now sys m w))) q \<noteq> lookup (disk w) q"
  shows "\<exists>name rest. q = (recordRoot m @ [name]) @ rest \<and>
     isDirectory (disk w) (recordRoot m @ [name]) \<and> parseEventTimestamp name \<ge> 0 \<and>
     (\<forall>busy\<in>{''.pending'', ''.uploading'', ''.uploading.tmp''}. \<not> pathExists (disk w) (recordRoot m @ [name, busy])) \<and>
     (pathExists (disk w) (recordRoot m @ [name, ''.failed'']) \<or> pathExists (disk w) (recordRoot m @ [name, ''.complete''])) \<and>
     (protectUnuploaded (diskPolicy m) \<longrightarrow> pathExists (disk w) (recordRoot m @ [name, ''.complete'']) \<longrightarrow>
        pathExists (disk w) (recordRoot m @ [name, ''.uploaded'']))"
proof -
  obtain dir where dir: "dir \<in> set (collectEventDirs m (disk w))" "prefix (ed_path dir) q"
    using assms retention_frame by blast
  then have coll: "collectable (diskPolicy m) (disk w) (ed_path dir)" and "butlast (ed_path dir) = recordRoot m" "ed_path dir \<noteq> []"
    using collect_paths [OF dir(1)] by (auto simp: entries_def childOf_def)
  then obtain name where name: "ed_path dir = recordRoot m @ [name]"
    by (metis append_butlast_last_id)
  obtain rest where "q = (recordRoot m @ [name]) @ rest" using dir(2) unfolding name prefix_def by auto
  with coll show ?thesis
    unfolding name collectable_def Let_def by (intro exI [of _ name] exI [of _ rest]) (auto split: if_splits)
qed

lemma retention_spares_witness:
  "\<exists>name rest. [''r'', crowdedEvent, ''manifest.csv''] = (recordRoot crowdedManager @ [name]) @ rest \<and>
     isDirectory crowdedStore (recordRoot crowdedManager @ [name]) \<and> parseEventTimestamp name \<ge> 0"
proof -
  let ?q = "[''r'', crowdedEvent, ''manifest.csv'']" and ?w = "\<lparr>disk = crowdedStore, script = []\<rparr>"
  have "lookup (disk ?w) ?q \<noteq> None" by (simp add: crowdedStore_def lookup_def)
  then have "lookup (disk (snd (enforceRetention True 0 0 crowdedManager ?w))) ?q \<noteq> lookup (disk ?w) ?q"
    unfolding crowded_swept by (rule not_sym)
  from retention_spares [OF this] show ?thesis
    unfolding World.select_convs by (elim exE conjE) (intro exI conjI; assumption)
qed

text \<open>
  C33. A sweep without failures deletes oldest first and no more than needed: what it
  removes is exactly the first \<open>k\<close> candidates by timestamp; afterwards the remaining
  candidates fit the capacity and are within the retention period; and the newest of the
  deleted was itself expired, or the capacity was still exceeded before its deletion.
\<close>

theorem retention_oldest_first:
  assumes "script w = []" "force \<or> cleanupInterval (diskPolicy m) \<le> now - lastSweep m"
  shows "\<exists>k\<le>length (collectEventDirs m (disk w)).
     (\<forall>q. lookup (disk (snd (enforceRetention force now sys m w))) q =
        (if \<exists>dir\<in>set (take k (collectEventDirs m (disk w))). prefix (ed_path dir) q then None else lookup (disk w) q)) \<and>
     (\<forall>dir\<in>set (take k (collectEventDirs m (disk w))). \<forall>kept\<in>set (drop k (collectEventDirs m (disk w))).
        ed_timestampNs dir \<le> ed_timestampNs kept) \<and>
     (maxCapacityBytes (diskPolicy m) > 0 \<longrightarrow>
        (\<Sum>dir\<leftarrow>drop k (collectEventDirs m (disk w)). directorySize (disk w) (ed_path dir)) \<le> maxCapacityBytes (diskPolicy m)) \<and>
     (retentionDays (diskPolicy m) > 0 \<longrightarrow>
        (\<forall>dir\<in>set (drop k (collectEventDirs m (disk w))). cutoffNs sys (retentionDays (diskPolicy m)) \<le> ed_timestampNs dir)) \<and>
     (k > 0 \<longrightarrow> retentionDays (diskPolicy m) > 0 \<and>
          ed_timestampNs (collectEventDirs m (disk w) ! (k - 1)) < cutoffNs sys (retentionDays (diskPolicy m)) \<or>
        maxCapacityBytes (diskPolicy m) > 0 \<and> maxCapacityBytes (diskPolicy m) <
          (\<Sum>dir\<leftarrow>drop (k - 1) (collectEventDirs m (disk w)). directorySize (disk w) (ed_path dir)))"
proof -
  let ?dirs = "collectEventDirs m (disk w)"
  from retention_run [OF assms, of sys] obtain k where k: "k \<le> length ?dirs"
      "snd (enforceRetention force now sys m w) = w\<lparr>disk := purge (map ed_path (take k ?dirs)) (disk w)\<rparr>"
      and rest: "maxCapacityBytes (diskPolicy m) > 0 \<longrightarrow>
        (\<Sum>dir\<leftarrow>drop k ?dirs. directorySize (disk w) (ed_path dir)) \<le> maxCapacityBytes (diskPolicy m)"
      "retentionDays (diskPolicy m) > 0 \<longrightarrow>
        (\<forall>dir\<in>set (drop k ?dirs). cutoffNs sys (retentionDays (diskPolicy m)) \<le> ed_timestampNs dir)"
      "k > 0 \<longrightarrow> retentionDays (diskPolicy m) > 0 \<and> ed_timestampNs (?dirs ! (k - 1)) < cutoffNs sys (retentionDays (diskPolicy m)) \<or>
        maxCapacityBytes (diskPolicy m) > 0 \<and> maxCapacityBytes (diskPolicy m) <
          (\<Sum>dir\<leftarrow>drop (k - 1) ?dirs. directorySize (disk w) (ed_path dir))"
    by (elim exE conjE, intro that) assumption+
  have "sorted (map ed_timestampNs (take k ?dirs @ drop k ?dirs))" using collect_sorted by simp
  then have "\<forall>dir\<in>set (take k ?dirs). \<forall>kept\<in>set (drop k ?dirs). ed_timestampNs dir \<le> ed_timestampNs kept"
    unfolding map_append sorted_append by auto
  moreover have "\<forall>q. lookup (disk (snd (enforceRetention force now sys m w))) q =
      (if \<exists>dir\<in>set (take k ?dirs). prefix (ed_path dir) q then None else lookup (disk w) q)"
    unfolding k(2) by (simp add: lookup_purge)
  ultimately show ?thesis using k(1) rest by (intro exI [of _ k] conjI) assumption+
qed

lemma retention_oldest_first_witness:
  "\<exists>k\<le>length (collectEventDirs crowdedManager crowdedStore). \<forall>q.
     lookup (disk (snd (enforceRetention True 0 0 crowdedManager \<lparr>disk = crowdedStore, script = []\<rparr>))) q =
       (if \<exists>dir\<in>set (take k (collectEventDirs crowdedManager crowdedStore)). prefix (ed_path dir) q then None else lookup crowdedStore q)"
proof -
  have healthy: "script \<lparr>disk = crowdedStore, script = []\<rparr> = []" "True \<or> cleanupInterval (diskPolicy crowdedManager) \<le> 0 - lastSweep crowdedManager"
    by simp_all
  from retention_oldest_first [OF healthy, of 0] show ?thesis
    unfolding World.select_convs by blast
qed

section \<open>The cutoff and the probe\<close>

text \<open>
  The cutoff of the age sweep is exact: up to 106751 days the 64-bit computation is the
  mathematical difference, so an event is expired if and only if it is older than the
  configured number of days.
\<close>

theorem retention_cutoff:
  assumes "0 \<le> days" "days \<le> 106751" "0 \<le> sys" "sys \<le> INT64_MAX" "0 \<le> ts"
  shows "ts < cutoffNs sys days \<longleftrightarrow> sys - ts > days * 86400000000000"
  unfolding cutoff_exact [OF assms(1-4)] by auto

lemma retention_cutoff_witness: "(100000000::int) < cutoffNs 200000000000000 1"
  using retention_cutoff [of 1 200000000000000 100000000] by (simp add: INT64_MAX_def)

text \<open>
  Beyond that the multiplication overflows.  \<open>retention_days\<close> is only clamped from below:
  213503 days wrap to a cutoff almost a day in the future, which every event is older than.
\<close>

lemma retention_days_overflow:
  assumes "0 \<le> sys" "sys \<le> 2 ^ 62"
  shows "cutoffNs sys 213503 = sys + 84873709551616"
proof -
  have "cutoffNs sys 213503 = sint (word_of_int (sys - 18446659200000000000) :: 64 word)"
    by (simp add: cutoffNs_def)
  also have "\<dots> = (sys + 9223456910564327424 - 18446744073709551616) mod 18446744073709551616 - 9223372036854775808"
    unfolding int_word_sint by (simp add: algebra_simps)
  also have "\<dots> = sys + 84873709551616"
    unfolding minus_mod_self2 using assms by simp
  finally show ?thesis .
qed

text \<open>
  The search for an existing directory ends, at the closest existing ancestor of the
  record root: every longer prefix of the root is missing.
\<close>

theorem probe_finds_ancestor:
  "pathExists d (probePath d p) \<and> prefix (probePath d p) p \<and>
   (\<forall>q. prefix q p \<and> pathExists d q \<longrightarrow> prefix q (probePath d p))"
proof (induction d p rule: probePath.induct)
  case (1 d p)
  show ?case
  proof (cases "p \<noteq> [] \<and> \<not> pathExists d p")
    case True
    then have step: "probePath d p = probePath d (butlast p)" by (subst probePath.simps) (simp add: parentPath_def)
    have IH: "pathExists d (probePath d (butlast p)) \<and> prefix (probePath d (butlast p)) (butlast p) \<and>
       (\<forall>q. prefix q (butlast p) \<and> pathExists d q \<longrightarrow> prefix q (probePath d (butlast p)))"
      using "1.IH" True by (simp add: parentPath_def)
    have "prefix q (butlast p)" if "prefix q p" "pathExists d q" for q
      using that True by (metis append_butlast_last_id prefix_snoc)
    with IH show ?thesis unfolding step using prefixeq_butlast prefix_order.trans by blast
  next
    case False
    then have "probePath d p = p" by (subst probePath.simps) auto
    with False show ?thesis by (auto simp: pathExists_def)
  qed
qed

lemma probe_finds_ancestor_witness:
  "prefix [''r''] (probePath crowdedStore [''r'', ''missing'', ''deep''])"
proof -
  have "prefix [''r''] [''r'', ''missing'', ''deep''] \<and> pathExists crowdedStore [''r'']" by code_simp
  then show ?thesis using probe_finds_ancestor [of crowdedStore "[''r'', ''missing'', ''deep'']"] by blast
qed

section \<open>The write gate\<close>

lemma enforceRetention_manager:
  "recordRoot (fst (enforceRetention force now sys m w)) = recordRoot m \<and>
   diskPolicy (fst (enforceRetention force now sys m w)) = diskPolicy m"
  by (simp add: enforceRetention_def Let_def case_prod_beta)

lemma availableBytes_manager: "recordRoot m' = recordRoot m \<Longrightarrow> availableBytes space m' = availableBytes space m"
  by (simp add: availableBytes_def fun_eq_iff)

text \<open>
  C34. The write gate fails closed: with a minimum configured, a write is admitted exactly
  when the space known to be free on the resulting disk reaches it, an unknown amount
  counting as none; and nothing is deleted when the space was sufficient at the start.
\<close>

theorem write_gate:
  assumes "prepareForWrite space now sys m w = (ok, m', w')" "minFreeBytes (diskPolicy m) > 0"
  shows "(ok \<longleftrightarrow> (\<exists>available\<ge>minFreeBytes (diskPolicy m). space (disk w') (probePath (disk w') (recordRoot m)) = Some available)) \<and>
    (availableBytes space m (disk w) \<ge> minFreeBytes (diskPolicy m) \<longrightarrow> w' = w)"
proof -
  obtain m1 w1 where sweep: "enforceRetention True now sys m w = (m1, w1)" by fastforce
  have m1: "recordRoot m1 = recordRoot m" "diskPolicy m1 = diskPolicy m"
    using enforceRetention_manager [of True now sys m w] by (simp_all add: sweep)
  have known: "minFreeBytes (diskPolicy m) \<le> availableBytes space m d \<longleftrightarrow>
      (\<exists>available\<ge>minFreeBytes (diskPolicy m). space d (probePath d (recordRoot m)) = Some available)" for d
    using assms(2) by (auto simp: availableBytes_def split: option.splits)
  show ?thesis
    using assms m1 unfolding known [symmetric]
    by (auto simp: prepareForWrite_def sweep availableBytes_manager [OF m1(1)] split: if_splits)
qed

lemma write_gate_witness:
  "\<not> fst (prepareForWrite (\<lambda>d p. None) 0 200000000000000
     (newDiskSpaceManager [''r''] \<lparr>minFreeBytes = 1, maxCapacityBytes = 0, retentionDays = 0, cleanupInterval = 60,
        protectUnuploaded = False\<rparr> 0) \<lparr>disk = crowdedStore, script = []\<rparr>)"
proof -
  let ?m = "newDiskSpaceManager [''r''] \<lparr>minFreeBytes = 1, maxCapacityBytes = 0, retentionDays = 0, cleanupInterval = 60,
        protectUnuploaded = False\<rparr> 0"
  have "minFreeBytes (diskPolicy ?m) > 0" by (simp add: newDiskSpaceManager_def)
  moreover obtain ok m' w' where run: "prepareForWrite (\<lambda>d p. None) 0 200000000000000 ?m \<lparr>disk = crowdedStore, script = []\<rparr> = (ok, m', w')"
    using prod_cases3 by blast
  ultimately have "\<not> ok" using write_gate [OF run] by simp
  then show ?thesis using run by simp
qed

end
