(* ===== verification/Storage_Worker.thy ===== *)
theory Storage_Worker
  imports Storage_Job Disk_Space
begin

text \<open>
  The storage worker as its clients and its thread see it (\<open>raw_storage_worker.hpp\<close>): the
  bounded queue with reservations, and the loop of \<open>run\<close>, one job per turn.  The mutex
  makes each queue operation one step.  Locale \<open>slot_provider\<close> is what clients rely on.
\<close>

section \<open>The interface of the queue\<close>

locale slot_provider =
  fixes reserve :: "'s \<Rightarrow> bool \<times> 's" and release :: "'s \<Rightarrow> 's" and enqueue :: "'j \<Rightarrow> bool \<Rightarrow> 's \<Rightarrow> bool \<times> 's"
    and queued :: "'s \<Rightarrow> 'j list" and held :: "'s \<Rightarrow> nat" and limit :: "'s \<Rightarrow> nat" and closed :: "'s \<Rightarrow> bool"
  assumes reserve_granted: "reserve s = (True, s') \<Longrightarrow> \<not> closed s \<and> queued s' = queued s \<and> held s' = Suc (held s) \<and>
      length (queued s) + held s < limit s"
    and reserve_refused: "reserve s = (False, s') \<Longrightarrow> s' = s \<and> (closed s \<or> limit s \<le> length (queued s) + held s)"
    and release_held: "queued (release s) = queued s \<and> held (release s) = held s - 1"
    and enqueue_reserved: "held s > 0 \<Longrightarrow> enqueue j True s = (ok, s') \<Longrightarrow>
      ok = (\<not> closed s) \<and> queued s' = queued s @ (if ok then [j] else []) \<and> held s' = held s - 1"
    and enqueue_free: "enqueue j False s = (ok, s') \<Longrightarrow>
      ok = (\<not> closed s \<and> length (queued s) + held s < limit s) \<and> queued s' = queued s @ (if ok then [j] else []) \<and> held s' = held s"
    and settings: "reserve s = (ok, s') \<Longrightarrow> limit s' = limit s \<and> closed s' = closed s"
      "limit (release s) = limit s \<and> closed (release s) = closed s"
      "enqueue j b s = (ok, s') \<Longrightarrow> limit s' = limit s \<and> closed s' = closed s"
begin

definition bounded :: "'s \<Rightarrow> bool" where
  "bounded s \<longleftrightarrow> length (queued s) + held s \<le> limit s"

lemma bounded_reserve: "bounded s \<Longrightarrow> reserve s = (ok, s') \<Longrightarrow> bounded s'"
  using settings(1) [of s ok s'] reserve_granted [of s s'] reserve_refused [of s s'] by (cases ok) (auto simp: bounded_def)

lemma bounded_release: "bounded s \<Longrightarrow> bounded (release s)"
  using settings(2) [of s] release_held [of s] by (auto simp: bounded_def)

lemma bounded_enqueue:
  assumes "bounded s" "enqueue j b s = (ok, s')" "b \<longrightarrow> held s > 0"
  shows "bounded s'"
  using assms settings(3) [OF assms(2)] enqueue_reserved [of s j ok s'] enqueue_free [of j s ok s']
  by (cases b) (auto simp: bounded_def)

text \<open>A reservation is honoured, whatever else is in the queue.\<close>

lemma reservation_honoured:
  "held s > 0 \<Longrightarrow> \<not> closed s \<Longrightarrow> \<exists>s'. enqueue j True s = (True, s') \<and> queued s' = queued s @ [j]"
  using enqueue_reserved [of s j] by (cases "enqueue j True s") auto

end

section \<open>State\<close>

record EventProgress =
  progress_failed :: bool
  progress_persisted :: nat
  progress_reason :: string

record Worker =
  stopping :: bool
  maxPendingJobs :: nat
  reservedJobs :: nat
  jobs :: "Job list"
  eventProgress :: "path \<Rightarrow> EventProgress option"
  diskManager :: "DiskSpaceManager option"

definition newWorker :: "nat \<Rightarrow> DiskSpaceManager option \<Rightarrow> Worker" where
  "newWorker maxPending dm = \<lparr>stopping = False, maxPendingJobs = maxPending, reservedJobs = 0, jobs = [],
     eventProgress = Map.empty, diskManager = dm\<rparr>"

definition stop :: "Worker \<Rightarrow> Worker" where
  "stop s = s\<lparr>stopping := True\<rparr>"

definition dropReservation :: "Worker \<Rightarrow> Worker" where
  "dropReservation s = (if reservedJobs s > 0 then s\<lparr>reservedJobs := reservedJobs s - 1\<rparr> else s)"

definition enqueue :: "Job \<Rightarrow> bool \<Rightarrow> Worker \<Rightarrow> bool \<times> Worker" where
  "enqueue job reserved s =
     (if stopping s \<or> \<not> reserved \<and> length (jobs s) + reservedJobs s \<ge> maxPendingJobs s
      then (False, if reserved then dropReservation s else s)
      else
        let s1 = s\<lparr>jobs := jobs s @ [job]\<rparr>
        in (True, if reserved then dropReservation s1 else s1))"

definition reserve :: "Worker \<Rightarrow> bool \<times> Worker" where
  "reserve s =
     (if stopping s \<or> length (jobs s) + reservedJobs s \<ge> maxPendingJobs s then (False, s)
      else (True, s\<lparr>reservedJobs := Suc (reservedJobs s)\<rparr>))"

definition releaseReservation :: "Worker \<Rightarrow> Worker" where
  "releaseReservation s = dropReservation s"

interpretation slots: slot_provider reserve releaseReservation enqueue jobs reservedJobs maxPendingJobs stopping
  by unfold_locales
    (auto simp: reserve_def releaseReservation_def dropReservation_def enqueue_def Let_def split: if_splits)

section \<open>The thread\<close>

text \<open>
  What the worker gets from outside: the libraries, the capacity of a stream buffer, the
  digest, the free space of the file system; and the clock readings of a turn.
\<close>

record Surroundings =
  codec :: Codec
  bufferCapacity :: nat
  digest :: "string \<Rightarrow> string option"
  freeSpace :: "disk \<Rightarrow> path \<Rightarrow> nat option"

record Clocks =
  steadyBefore :: int
  systemBefore :: int
  markerTime :: int
  steadyAfter :: int
  systemAfter :: int

definition admitWrite :: "Surroundings \<Rightarrow> Clocks \<Rightarrow> DiskSpaceManager option \<Rightarrow> World \<Rightarrow> bool \<times> DiskSpaceManager option \<times> World" where
  "admitWrite env t dm w =
     (case dm of None \<Rightarrow> (True, None, w)
      | Some m \<Rightarrow> (case prepareForWrite (freeSpace env) (steadyBefore t) (systemBefore t) m w of
          (ok, m', w') \<Rightarrow> (ok, Some m', w')))"

definition writeJob :: "Surroundings \<Rightarrow> Clocks \<Rightarrow> Job \<Rightarrow> DiskSpaceManager option \<Rightarrow> World \<Rightarrow>
    (string + JobOutcome) \<times> DiskSpaceManager option \<times> World" where
  "writeJob env t job dm w =
     (let (ok, dm', w1) = admitWrite env t dm w in
      if \<not> ok then (Inr (failedOutcome ''insufficient_disk_space''), dm', w1)
      else let (r, w2) = writeJobFiles (codec env) (bufferCapacity env) job w1 in (r, dm', w2))"

definition caughtOutcome :: "string + JobOutcome \<Rightarrow> JobOutcome" where
  "caughtOutcome r = (case r of Inl e \<Rightarrow> failedOutcome ''storage_exception'' | Inr outcome \<Rightarrow> outcome)"

definition noteOutcome :: "EventProgress option \<Rightarrow> JobOutcome \<Rightarrow> EventProgress" where
  "noteOutcome old outcome =
     (let p = (case old of Some p \<Rightarrow> p
          | None \<Rightarrow> \<lparr>progress_failed = False, progress_persisted = 0, progress_reason = []\<rparr>);
          p = p\<lparr>progress_persisted := progress_persisted p + persistedRecords outcome\<rparr>
      in if outcome_ok outcome then p
         else p\<lparr>progress_failed := True,
                progress_reason := (if progress_reason p = [] then outcome_reason outcome else progress_reason p)\<rparr>)"

definition failProgress :: "string \<Rightarrow> EventProgress \<Rightarrow> EventProgress" where
  "failProgress why p = p\<lparr>progress_failed := True, progress_reason := why\<rparr>"

text \<open>The checks before the markers; writing the checksums can throw.\<close>

definition sealEvent :: "Surroundings \<Rightarrow> path \<Rightarrow> EventProgress \<Rightarrow> (string, EventProgress) action" where
  "sealEvent env dir p =
     (let p = (if \<not> progress_failed p \<and> progress_persisted p = 0 then failProgress ''no_records_persisted'' p else p)
      in if progress_failed p then ret p
         else andThen (writeChecksumManifest (digest env) dir) (\<lambda>written.
           ret (if written then p else failProgress ''checksum_manifest_failed'' p)))"

text \<open>One turn with a job: \<open>Inl\<close> is an exception that leaves the thread, which terminates the process.\<close>

definition processJob :: "Surroundings \<Rightarrow> Clocks \<Rightarrow> Job \<Rightarrow> Worker \<Rightarrow> (string, Worker) action" where
  "processJob env t job s w =
     (let (r, dm, w1) = writeJob env t job (diskManager s) w;
          key = directory job;
          p = noteOutcome (eventProgress s key) (caughtOutcome r);
          s1 = s\<lparr>diskManager := dm, eventProgress := (eventProgress s)(key \<mapsto> p)\<rparr>
      in if \<not> finalJob job then (Inr s1, w1)
         else (case sealEvent env key p w1 of
             (Inl e, w2) \<Rightarrow> (Inl e, w2)
           | (Inr p', w2) \<Rightarrow>
               let w3 = finishEvent key (progress_failed p') (progress_persisted p') (progress_reason p') (markerTime t) w2;
                   s2 = s1\<lparr>eventProgress := (eventProgress s1)(key := None)\<rparr>
               in (case dm of None \<Rightarrow> (Inr s2, w3)
                   | Some m \<Rightarrow>
                       let (m', w4) = enforceRetention False (steadyAfter t) (systemAfter t) m w3
                       in (Inr (s2\<lparr>diskManager := Some m'\<rparr>), w4))))"

datatype Turn = Waiting | Exited | Terminated string | Worked Worker

definition run :: "Surroundings \<Rightarrow> Clocks \<Rightarrow> Worker \<Rightarrow> World \<Rightarrow> Turn \<times> World" where
  "run env t s w =
     (case jobs s of
        [] \<Rightarrow> (if stopping s then Exited else Waiting, w)
      | job # rest \<Rightarrow>
          (case processJob env t job (s\<lparr>jobs := rest\<rparr>) w of
             (Inl e, w') \<Rightarrow> (Terminated e, w')
           | (Inr s', w') \<Rightarrow> (Worked s', w')))"

section \<open>Completion is honest\<close>

text \<open>Retention only removes.\<close>

lemma deleteDir_removes: "deleteDir dir w = (ok, w') \<Longrightarrow> lookup (disk w) q = None \<Longrightarrow> lookup (disk w') q = None"
  unfolding deleteDir_def removeAll_tree_def by (erule perform_cases) (auto simp: lookup_deleteAll)

lemma ageLoop_removes: "lookup (disk w) q = None \<Longrightarrow> lookup (disk (snd (ageLoop c dirs w))) q = None"
proof (induction dirs arbitrary: w)
  case (Cons dir dirs)
  obtain b w1 where del: "deleteDir dir w = (b, w1)" by fastforce
  show ?case using Cons deleteDir_removes [OF del] by (simp add: del case_prod_beta Let_def)
qed simp

lemma capacityLoop_removes: "lookup (disk w) q = None \<Longrightarrow> lookup (disk (capacityLoop limit n dirs w)) q = None"
proof (induction dirs arbitrary: n w)
  case (Cons dir dirs)
  obtain b w1 where del: "deleteDir dir w = (b, w1)" by fastforce
  show ?case using Cons deleteDir_removes [OF del] by (simp add: del)
qed simp

lemma retention_removes: "lookup (disk w) q = None \<Longrightarrow> lookup (disk (snd (enforceRetention force now sys m w))) q = None"
  by (simp add: enforceRetention_def agePass_def capacityPass_def Let_def case_prod_beta ageLoop_removes capacityLoop_removes)

lemma admitWrite_removes:
  assumes "admitWrite env t dm w = (ok, dm', w')" "lookup (disk w) q = None"
  shows "lookup (disk w') q = None"
  using assms retention_removes [OF assms(2), of True]
  by (auto simp: admitWrite_def prepareForWrite_def Let_def case_prod_beta split: option.splits if_splits)

lemma event_fail_complete:
  assumes "lookup (disk w) (completeMark dir) = None"
  shows "lookup (disk (snd (event_fail dir why t w))) (completeMark dir) = None"
proof -
  obtain ok w1 where put: "writeAtomically (failedMark dir) (''reason='' @ why @ [newline] @ ''failed_at_ns='' @ int_to_string t @ [newline]) w = (ok, w1)"
    by fastforce
  have "lookup (disk w1) (completeMark dir) = None"
    using write_mark_frame [OF put, of "''.complete''"] assms by simp
  then show ?thesis
    using put removed_mark [of "completeMark dir" "snd (removePath (pendingMark dir) w1)"] by (auto simp: event_fail_def)
qed

lemma keeps_writeChecksum:
  "q \<noteq> dir @ [''manifest.sha256''] \<Longrightarrow> q \<noteq> dir @ [''manifest.sha256.tmp''] \<Longrightarrow> keeps (at q x) (writeChecksumManifest sha dir)"
  "keeps all_tree (writeChecksumManifest sha dir)"
proof -
  have all: "keeps P (writeChecksumManifest sha dir)" if "\<And>c. keeps P (storeAtomically (dir @ [''manifest.sha256'']) c)" for P
    using that by (auto simp: keeps_def writeChecksumManifest_def Let_def)
  show "q \<noteq> dir @ [''manifest.sha256''] \<Longrightarrow> q \<noteq> dir @ [''manifest.sha256.tmp''] \<Longrightarrow> keeps (at q x) (writeChecksumManifest sha dir)"
    by (intro all keeps_rules) auto
  show "keeps all_tree (writeChecksumManifest sha dir)" by (intro all keeps_rules)
qed

lemma sealEvent_good:
  assumes "sealEvent env dir p w = (Inr p', w')" "\<not> progress_failed p'"
  shows "\<not> progress_failed p \<and> 0 < progress_persisted p \<and> p' = p \<and> writeChecksumManifest (digest env) dir w = (Inr True, w')"
  using assms by (auto simp: sealEvent_def failProgress_def Let_def elim!: andThen_Inr split: if_split_asm)

lemma noteOutcome_good:
  "\<not> progress_failed (noteOutcome old outcome) \<longleftrightarrow> outcome_ok outcome \<and> (\<forall>p. old = Some p \<longrightarrow> \<not> progress_failed p)"
  by (auto simp: noteOutcome_def Let_def split: option.splits)

text \<open>Where the completion marker appears, nothing of the event had failed before it.\<close>

lemma completed_turn:
  assumes run: "processJob env t job s w = (Inr s', w')" and final: "finalJob job" and k: "pcd_local (codec env)"
    and fresh: "lookup (disk w) (completeMark (directory job)) = None"
    and marked: "lookup (disk w') (completeMark (directory job)) \<noteq> None"
  shows "\<exists>outcome dm w1 w2. writeJob env t job (diskManager s) w = (Inr outcome, dm, w1) \<and> outcome_ok outcome \<and>
     (\<forall>p. eventProgress s (directory job) = Some p \<longrightarrow> \<not> progress_failed p) \<and>
     0 < progress_persisted (noteOutcome (eventProgress s (directory job)) outcome) \<and>
     writeChecksumManifest (digest env) (directory job) w1 = (Inr True, w2) \<and>
     (let w3 = finishEvent (directory job) False (progress_persisted (noteOutcome (eventProgress s (directory job)) outcome)) [] (markerTime t) w2
      in lookup (disk w3) (completeMark (directory job)) \<noteq> None \<and>
         (w' = w3 \<or> (\<exists>m. dm = Some m \<and> w' = snd (enforceRetention False (steadyAfter t) (systemAfter t) m w3))))"
proof -
  let ?dir = "directory job"
  let ?q = "completeMark ?dir"
  obtain r dm w1 where job: "writeJob env t job (diskManager s) w = (r, dm, w1)" using prod_cases3 by blast
  let ?p = "noteOutcome (eventProgress s ?dir) (caughtOutcome r)"
  obtain sealed w2 where seal: "sealEvent env ?dir ?p w1 = (sealed, w2)" by fastforce
  obtain p' where p': "sealed = Inr p'" using run final job seal by (cases sealed) (auto simp: processJob_def Let_def)
  let ?w3 = "finishEvent ?dir (progress_failed p') (progress_persisted p') (progress_reason p') (markerTime t) w2"
  have swept: "w' = ?w3 \<or> (\<exists>m. dm = Some m \<and> w' = snd (enforceRetention False (steadyAfter t) (systemAfter t) m ?w3))"
    using run final job seal p' by (auto simp: processJob_def Let_def case_prod_beta split: option.splits)
  have "lookup (disk ?w3) ?q \<noteq> None"
  proof
    assume none: "lookup (disk ?w3) ?q = None"
    show False using swept retention_removes [OF none] none marked by auto
  qed
  have w1: "lookup (disk w1) ?q = None"
  proof -
    obtain ok dm0 w0 where admit: "admitWrite env t (diskManager s) w = (ok, dm0, w0)" using prod_cases3 by blast
    have w0: "at (?dir @ [''.complete'']) None w0" using admitWrite_removes [OF admit fresh] by (simp add: at_def)
    obtain r1 wj where files: "writeJobFiles (codec env) (bufferCapacity env) job w0 = (r1, wj)" by fastforce
    have "spared ''.complete'' None" "''.complete'' \<noteq> ''pairs.csv''" by (simp_all add: spared_def suffix_def)
    from keepsD [OF keeps_writeJobFiles(1) [OF k this] files w0] w0 show ?thesis
      using job admit files by (auto simp: writeJob_def at_def split: if_splits)
  qed
  have keep: "keeps (at ?q None) (sealEvent env ?dir p)" for p
    unfolding sealEvent_def Let_def by (intro keeps_rules keeps_writeChecksum) auto
  have w2: "lookup (disk w2) ?q = None" using keepsD [OF keep seal] w1 by (simp add: at_def)
  have good: "\<not> progress_failed p'"
  proof
    assume "progress_failed p'"
    then have "?w3 = snd (event_fail ?dir (if progress_reason p' = [] then ''storage_failed'' else progress_reason p') (markerTime t) w2)"
      by (simp add: finishEvent_def)
    then have "lookup (disk ?w3) ?q = None" using event_fail_complete [OF w2] by simp
    with \<open>lookup (disk ?w3) ?q \<noteq> None\<close> show False by simp
  qed
  note sealed = sealEvent_good [OF seal [unfolded p'] good]
  then obtain outcome where outcome: "r = Inr outcome" "outcome_ok outcome"
    by (cases r) (auto simp: noteOutcome_good caughtOutcome_def failedOutcome_def)
  moreover have "finishEvent ?dir (progress_failed p') (progress_persisted p') (progress_reason p') (markerTime t) w2 =
      finishEvent ?dir False (progress_persisted ?p) [] (markerTime t) w2"
    using good sealed by (simp add: finishEvent_def)
  ultimately show ?thesis
    using job sealed \<open>lookup (disk ?w3) ?q \<noteq> None\<close> swept
    by (intro exI [of _ outcome] exI [of _ dm] exI [of _ w1] exI [of _ w2]) (auto simp: noteOutcome_good caughtOutcome_def Let_def)
qed

section \<open>The queue over time\<close>

text \<open>
  The steps of the worker and of its clients, who enqueue with a reservation and release one
  only while one is held.
\<close>

inductive queueStep :: "Worker \<Rightarrow> Worker \<Rightarrow> bool" where
  reserving: "reserve s = (ok, s') \<Longrightarrow> queueStep s s'"
| releasing: "reservedJobs s > 0 \<Longrightarrow> queueStep s (releaseReservation s)"
| enqueueing: "enqueue job reserved s = (ok, s') \<Longrightarrow> (reserved \<longrightarrow> reservedJobs s > 0) \<Longrightarrow> queueStep s s'"
| stopped: "queueStep s (stop s)"
| working: "run env t s w = (Worked s', w') \<Longrightarrow> queueStep s s'"

lemma processJob_queue:
  assumes "processJob env t job s w = (Inr s', w')"
  shows "jobs s' = jobs s \<and> reservedJobs s' = reservedJobs s \<and> maxPendingJobs s' = maxPendingJobs s \<and> stopping s' = stopping s"
  using assms
  by (auto simp: processJob_def Let_def case_prod_beta split: prod.splits sum.splits option.splits if_split_asm)

lemma run_takes:
  assumes "run env t s w = (Worked s', w')"
  shows "jobs s' = tl (jobs s) \<and> jobs s \<noteq> [] \<and> reservedJobs s' = reservedJobs s \<and> maxPendingJobs s' = maxPendingJobs s"
  using assms
  by (auto simp: run_def dest: processJob_queue split: list.splits prod.splits sum.splits if_splits)

lemma queueStep_bounded:
  assumes "queueStep s s'" "slots.bounded s"
  shows "slots.bounded s' \<and> maxPendingJobs s' = maxPendingJobs s"
  using assms
proof (cases rule: queueStep.cases)
  case (reserving ok)
  then show ?thesis using slots.bounded_reserve [OF assms(2)] slots.settings(1) by blast
next
  case releasing
  then show ?thesis using slots.bounded_release [OF assms(2)] slots.settings(2) by blast
next
  case (enqueueing job reserved ok)
  then show ?thesis using slots.bounded_enqueue [OF assms(2)] slots.settings(3) by blast
next
  case stopped
  then show ?thesis using assms(2) by (simp add: stop_def slots.bounded_def)
next
  case (working env t w w')
  then show ?thesis using assms(2) run_takes [OF working] by (auto simp: slots.bounded_def)
qed

section \<open>Properties\<close>

text \<open>
  The queue is bounded and reservations are honoured: in every state the clients and the
  worker can reach, queued jobs and reservations together do not exceed the limit, and
  while the worker runs a held reservation lets any job in.
\<close>

theorem reservations_bounded_and_honoured:
  assumes "queueStep\<^sup>*\<^sup>* (newWorker n dm) s"
  shows "length (jobs s) + reservedJobs s \<le> n \<and>
     (reservedJobs s > 0 \<and> \<not> stopping s \<longrightarrow> (\<forall>job. \<exists>s'. enqueue job True s = (True, s') \<and> jobs s' = jobs s @ [job]))"
proof -
  have "slots.bounded s \<and> maxPendingJobs s = n"
    using assms
  proof (induction rule: rtranclp_induct)
    case base
    then show ?case by (simp add: newWorker_def slots.bounded_def)
  next
    case (step s s')
    then show ?case using queueStep_bounded by fastforce
  qed
  then show ?thesis using slots.reservation_honoured [of s] by (auto simp: slots.bounded_def)
qed

theorem reservations_bounded_and_honoured_witness:
  "\<exists>s. queueStep\<^sup>*\<^sup>* (newWorker 1 None) s \<and> reservedJobs s = 1 \<and> length (jobs s) + reservedJobs s \<le> 1"
proof -
  let ?s = "(newWorker 1 None)\<lparr>reservedJobs := 1\<rparr>"
  have "queueStep (newWorker 1 None) ?s"
    by (rule queueStep.reserving [of _ True]) (simp add: reserve_def newWorker_def)
  then have "queueStep\<^sup>*\<^sup>* (newWorker 1 None) ?s" by blast
  with reservations_bounded_and_honoured [OF this] show ?thesis by (intro exI [of _ ?s]) simp
qed


definition sampleSurroundings :: Surroundings where
  "sampleSurroundings = \<lparr>codec = plainCodec, bufferCapacity = 100, digest = sampleSha, freeSpace = (\<lambda>d p. None)\<rparr>"

definition sampleClocks :: Clocks where
  "sampleClocks = \<lparr>steadyBefore = 0, systemBefore = 0, markerTime = 0, steadyAfter = 0, systemAfter = 0\<rparr>"

definition pendingStore :: "outcome list \<Rightarrow> World" where
  "pendingStore failures = \<lparr>disk = [([''r''], Dir), ([''r'', ''e''], Dir), ([''r'', ''e'', ''.pending''], File ''x'')], script = failures\<rparr>"

lemma sample_completed:
  "\<exists>s' w'. processJob sampleSurroundings sampleClocks sampleJob (newWorker 3 None) (pendingStore []) = (Inr s', w') \<and>
     lookup (disk w') (completeMark (directory sampleJob)) \<noteq> None"
proof -
  have "case processJob sampleSurroundings sampleClocks sampleJob (newWorker 3 None) (pendingStore []) of
      (Inl e, w') \<Rightarrow> False | (Inr s', w') \<Rightarrow> lookup (disk w') (completeMark (directory sampleJob)) \<noteq> None"
    by code_simp
  then show ?thesis by (auto split: prod.splits sum.splits)
qed

lemma sample_pending: "lookup (disk (pendingStore [])) (completeMark (directory sampleJob)) = None"
  by (simp add: pendingStore_def sampleJob_def lookup_def)

lemma sample_final: "finalJob sampleJob" "pcd_local (codec sampleSurroundings)"
  by (simp_all add: sampleJob_def sampleSurroundings_def plainCodec_local)


text \<open>
  Writing the checksum manifest is outside the \<open>try\<close> block of \<open>run\<close>, and the clean-up
  after a failed rename throws when it fails too: that exception ends the process.
\<close>

lemma checksum_failure_terminates:
  "\<exists>w'. run sampleSurroundings sampleClocks ((newWorker 3 None)\<lparr>jobs := [sampleJob]\<rparr>)
     (pendingStore (replicate 8 Done @ [Failed 0, Failed 0])) = (Terminated ''filesystem_error'', w')"
proof -
  have "case run sampleSurroundings sampleClocks ((newWorker 3 None)\<lparr>jobs := [sampleJob]\<rparr>)
      (pendingStore (replicate 8 Done @ [Failed 0, Failed 0])) of (Terminated e, w') \<Rightarrow> e = ''filesystem_error'' | _ \<Rightarrow> False"
    by code_simp
  then show ?thesis by (auto split: prod.splits Turn.splits)
qed

end
