(* ===== verification/Sensor_Path.thy ===== *)
theory Sensor_Path
  imports Data_Buffer Approx_Sync Pair_Index Watchdog
begin

text \<open>
  The path of a sensor message through the cache node (\<open>datacache_node.cpp\<close>): the
  subscription callbacks feed the watchdog, the buffer and the synchronizer, whose callbacks
  fill the pair index.  \<open>Core\<close> is what the node shares with the event monitor.
\<close>

section \<open>State and operations\<close>

record Core =
  dataBuffer :: DataBuffer
  synchronizer :: Synchronizer
  pairIndex :: PairIndex

record SensorNode =
  watchdog :: "SensorWatchdog option"
  syncEnabled :: bool
  core :: Core

text \<open>The two lambdas the node gives the synchronizer.\<close>

fun indexCallback :: "callback \<Rightarrow> PairIndex \<Rightarrow> PairIndex" where
  "indexCallback (MatchCallback img cloud diff) p = addMatched p (img_stamp img) (pc_stamp cloud) diff"
| "indexCallback (DropCallback sensor timestamp n why) p = addSingle p sensor timestamp why"

definition deliver :: "sync \<Rightarrow> Core \<Rightarrow> Core" where
  "deliver \<sigma> c = c\<lparr>synchronizer := fst \<sigma>,
     pairIndex := fold indexCallback (dispatch (fst \<sigma>) (snd \<sigma>)) (pairIndex c)\<rparr>"

definition flushPendingPairs :: "Core \<Rightarrow> Core" where
  "flushPendingPairs c = deliver (flushUnmatched (synchronizer c) ''event window closed'') c"

definition noteSensor :: "string \<Rightarrow> int \<Rightarrow> SensorNode \<Rightarrow> SensorNode" where
  "noteSensor sensor now n = n\<lparr>watchdog := map_option (\<lambda>w. noteData w sensor now) (watchdog n)\<rparr>"

definition storeFrame :: "SensorData \<Rightarrow> SensorNode \<Rightarrow> SensorNode result" where
  "storeFrame d n = result_bind (addData (dataBuffer (core n)) d)
     (\<lambda>b. Inr (n\<lparr>core := (core n)\<lparr>dataBuffer := b\<rparr>\<rparr>))"

definition handleImage :: "int \<Rightarrow> Image \<Rightarrow> SensorNode \<Rightarrow> SensorNode result" where
  "handleImage now message n =
     result_bind (storeFrame (cameraFrame message) (noteSensor ''camera'' now n))
       (\<lambda>n. Inr (if syncEnabled n
          then n\<lparr>core := deliver (addImage (synchronizer (core n)) message) (core n)\<rparr> else n))"

definition handlePointCloud :: "int \<Rightarrow> PointCloud2 \<Rightarrow> SensorNode \<Rightarrow> SensorNode result" where
  "handlePointCloud now message n =
     result_bind (storeFrame (lidarFrame message) (noteSensor ''lidar'' now n))
       (\<lambda>n. Inr (if syncEnabled n
          then n\<lparr>core := deliver (addPointCloud (synchronizer (core n)) message) (core n)\<rparr> else n))"

text \<open>What can happen to the sensor state: a message of either kind, a flush by the event monitor.\<close>

datatype sensor_op = ImageArrives int Image | CloudArrives int PointCloud2 | PairsFlushed

fun sensorStep :: "SensorNode \<Rightarrow> sensor_op \<Rightarrow> SensorNode result" where
  "sensorStep n (ImageArrives now m) = handleImage now m n"
| "sensorStep n (CloudArrives now m) = handlePointCloud now m n"
| "sensorStep n PairsFlushed = Inr (n\<lparr>core := flushPendingPairs (core n)\<rparr>)"

primrec runSensors :: "SensorNode \<Rightarrow> sensor_op list \<Rightarrow> SensorNode result" where
  "runSensors n [] = Inr n"
| "runSensors n (op # ops) = result_bind (sensorStep n op) (\<lambda>n'. runSensors n' ops)"

lemma runSensors_snoc: "runSensors n (ops @ [op]) = result_bind (runSensors n ops) (\<lambda>n'. sensorStep n' op)"
  by (induction ops arbitrary: n) (auto simp: result_bind_def split: sum.splits)

section \<open>The synchronizer seen from the node\<close>

fun syncOp :: "sensor_op \<Rightarrow> sync_op" where
  "syncOp (ImageArrives now m) = AddImage m"
| "syncOp (CloudArrives now m) = AddCloud m"
| "syncOp PairsFlushed = Flush ''event window closed''"

lemma sensorStep_core:
  assumes "buffer_ok (dataBuffer (core n))" "syncEnabled n"
  shows "\<exists>n'. sensorStep n op = Inr n' \<and> syncEnabled n' \<and> buffer_ok (dataBuffer (core n')) \<and>
     synchronizer (core n') = fst (syncStep (synchronizer (core n)) (syncOp op)) \<and>
     pairIndex (core n') = pairIndex (deliver (syncStep (synchronizer (core n)) (syncOp op)) (core n))"
proof (cases op)
  case (ImageArrives now m)
  obtain b where "addData (dataBuffer (core n)) (cameraFrame m) = Inr b" "buffer_ok b"
    using addData_buffer_ok [OF assms(1), of "cameraFrame m"] by auto
  with ImageArrives assms(2) show ?thesis
    by (simp add: handleImage_def storeFrame_def noteSensor_def deliver_def)
next
  case (CloudArrives now m)
  obtain b where "addData (dataBuffer (core n)) (lidarFrame m) = Inr b" "buffer_ok b"
    using addData_buffer_ok [OF assms(1), of "lidarFrame m"] by auto
  with CloudArrives assms(2) show ?thesis
    by (simp add: handlePointCloud_def storeFrame_def noteSensor_def deliver_def)
next
  case PairsFlushed
  with assms show ?thesis by (simp add: flushPendingPairs_def deliver_def)
qed

text \<open>The records the callbacks of a run append, up to order.\<close>

definition pairOps :: "PendingResults \<Rightarrow> pair_op list" where
  "pairOps r = map (\<lambda>m. Matched (img_stamp (m_image m)) (pc_stamp (m_cloud m)) (m_difference m)) (matches r) @
     map (\<lambda>d. Single (d_sensor d) (d_timestamp d) (d_reason d)) (drops r)"

lemma fold_index:
  "hasDropCallback s \<Longrightarrow> fold indexCallback (dispatch s r) p = foldl applyPair p (pairOps r)"
proof -
  have matched: "fold indexCallback (map (\<lambda>m. MatchCallback (m_image m) (m_cloud m) (m_difference m)) ms) p =
      foldl applyPair p (map (\<lambda>m. Matched (img_stamp (m_image m)) (pc_stamp (m_cloud m)) (m_difference m)) ms)" for ms p
    by (induction ms arbitrary: p) simp_all
  have single: "fold indexCallback (map (\<lambda>d. DropCallback (d_sensor d) (d_timestamp d) (d_count d) (d_reason d)) ds) p =
      foldl applyPair p (map (\<lambda>d. Single (d_sensor d) (d_timestamp d) (d_reason d)) ds)" for ds p
    by (induction ds arbitrary: p) simp_all
  show "hasDropCallback s \<Longrightarrow> ?thesis" by (simp add: dispatch_def pairOps_def matched single)
qed

lemma mset_pairOps_after: "mset (pairOps (snd (after r \<sigma>))) = mset (pairOps r) + mset (pairOps (snd \<sigma>))"
  by (simp add: after_def pairOps_def)

text \<open>Every drop names one of the two sensors, and the callback stays set.\<close>

definition drops_named :: "bool \<Rightarrow> sync_op list \<Rightarrow> sync \<Rightarrow> bool" where
  "drops_named b ops \<sigma> \<longleftrightarrow> hasDropCallback (fst \<sigma>) = b \<and> (\<forall>d\<in>set (drops (snd \<sigma>)). d_sensor d = ''camera'' \<or> d_sensor d = ''lidar'')"

lemma drops_named_run: "drops_named (hasDropCallback s0) ops (runSync s0 ops)"
  by (rule runSync_rule [of "drops_named (hasDropCallback s0)"])
    (auto simp: drops_named_def noResults_def dropImage_def dropCloud_def recordDrop_def matchFronts_def Let_def)

lemma runSensors_core:
  assumes "buffer_ok (dataBuffer (core n))" "syncEnabled n" "hasDropCallback (synchronizer (core n))"
  shows "\<exists>n' ps. runSensors n ops = Inr n' \<and> syncEnabled n' \<and> buffer_ok (dataBuffer (core n')) \<and>
     synchronizer (core n') = fst (runSync (synchronizer (core n)) (map syncOp ops)) \<and>
     pairIndex (core n') = foldl applyPair (pairIndex (core n)) ps \<and>
     mset ps = mset (pairOps (snd (runSync (synchronizer (core n)) (map syncOp ops))))"
proof (induction ops rule: rev_induct)
  case Nil
  with assms(1,2) show ?case by (intro exI [of _ n] exI [of _ "[]"]) (simp add: pairOps_def noResults_def)
next
  case (snoc op ops)
  let ?\<sigma> = "runSync (synchronizer (core n)) (map syncOp ops)"
  from snoc obtain n1 ps where n1: "runSensors n ops = Inr n1" "syncEnabled n1" "buffer_ok (dataBuffer (core n1))"
      "synchronizer (core n1) = fst ?\<sigma>" "pairIndex (core n1) = foldl applyPair (pairIndex (core n)) ps"
      "mset ps = mset (pairOps (snd ?\<sigma>))" by blast
  from sensorStep_core [OF n1(3,2), of op] obtain n2 where n2: "sensorStep n1 op = Inr n2" "syncEnabled n2"
      "buffer_ok (dataBuffer (core n2))" "synchronizer (core n2) = fst (syncStep (fst ?\<sigma>) (syncOp op))"
      "pairIndex (core n2) = pairIndex (deliver (syncStep (fst ?\<sigma>) (syncOp op)) (core n1))"
    unfolding n1(4) by blast
  have "drops_named True (map syncOp (ops @ [op])) (runSync (synchronizer (core n)) (map syncOp (ops @ [op])))"
    using drops_named_run [of "synchronizer (core n)"] assms(3) by simp
  then have "hasDropCallback (fst (syncStep (fst ?\<sigma>) (syncOp op)))"
    by (simp add: drops_named_def runSync_snoc)
  then have "pairIndex (core n2) = foldl applyPair (pairIndex (core n)) (ps @ pairOps (snd (syncStep (fst ?\<sigma>) (syncOp op))))"
    using n2(5) n1(5) by (simp add: deliver_def fold_index)
  with n1 n2 show ?case
    by (intro exI [of _ n2] exI [of _ "ps @ pairOps (snd (syncStep (fst ?\<sigma>) (syncOp op)))"])
      (simp add: runSensors_snoc runSync_snoc mset_pairOps_after)
qed

section \<open>The stamps in the ledger\<close>

fun cameraPart :: "pair_op \<Rightarrow> int option" where
  "cameraPart (Matched camera lidar diff) = Some camera"
| "cameraPart (Single sensor timestamp why) = (if sensor = ''camera'' then Some timestamp else None)"

fun lidarPart :: "pair_op \<Rightarrow> int option" where
  "lidarPart (Matched camera lidar diff) = Some lidar"
| "lidarPart (Single sensor timestamp why) = (if sensor = ''camera'' then None else Some timestamp)"

lemma ledger_parts:
  "map cameraTimestamp (filter hasCamera (ledger ps)) = List.map_filter cameraPart ps"
  "map lidarTimestamp (filter hasLidar (ledger ps)) = List.map_filter lidarPart ps"
proof (induction ps rule: rev_induct)
  case Nil
  show "map cameraTimestamp (filter hasCamera (ledger [])) = List.map_filter cameraPart []"
    "map lidarTimestamp (filter hasLidar (ledger [])) = List.map_filter lidarPart []"
    by (simp_all add: ledger_def)
next
  case (snoc p ps)
  then show "map cameraTimestamp (filter hasCamera (ledger (ps @ [p]))) = List.map_filter cameraPart (ps @ [p])"
    "map lidarTimestamp (filter hasLidar (ledger (ps @ [p]))) = List.map_filter lidarPart (ps @ [p])"
    by (cases p; simp add: ledger_snoc map_filter_def Let_def)+
qed

lemma mset_map_filter: "mset xs = mset ys \<Longrightarrow> mset (List.map_filter f xs) = mset (List.map_filter f ys)"
  by (simp add: map_filter_def)

lemma pairOps_parts:
  "mset (List.map_filter cameraPart (pairOps r)) =
     mset (map (\<lambda>m. img_stamp (m_image m)) (matches r)) + mset (map d_timestamp (cameraDrops r))"
  "\<forall>d\<in>set (drops r). d_sensor d = ''camera'' \<or> d_sensor d = ''lidar'' \<Longrightarrow>
   mset (List.map_filter lidarPart (pairOps r)) =
     mset (map (\<lambda>m. pc_stamp (m_cloud m)) (matches r)) + mset (map d_timestamp (lidarDrops r))"
proof -
  have cam: "List.map_filter cameraPart (map (\<lambda>d. Single (d_sensor d) (d_timestamp d) (d_reason d)) ds) =
      map d_timestamp (filter (\<lambda>d. d_sensor d = ''camera'') ds)" for ds
    by (induction ds) (simp_all add: map_filter_def)
  have lid: "\<forall>d\<in>set ds. d_sensor d = ''camera'' \<or> d_sensor d = ''lidar'' \<Longrightarrow>
      List.map_filter lidarPart (map (\<lambda>d. Single (d_sensor d) (d_timestamp d) (d_reason d)) ds) =
      map d_timestamp (filter (\<lambda>d. d_sensor d = ''lidar'') ds)" for ds
    by (induction ds) (auto simp: map_filter_def)
  have both: "List.map_filter cameraPart (map (\<lambda>m. Matched (f m) (g m) (h m)) ms) = map f ms"
    "List.map_filter lidarPart (map (\<lambda>m. Matched (f m) (g m) (h m)) ms) = map g ms" for f g h and ms :: "MatchResult list"
    by (induction ms) (simp_all add: map_filter_def)
  have app: "List.map_filter f (xs @ ys) = List.map_filter f xs @ List.map_filter f ys" for f :: "pair_op \<Rightarrow> int option" and xs ys
    by (simp add: map_filter_def)
  show "mset (List.map_filter cameraPart (pairOps r)) =
     mset (map (\<lambda>m. img_stamp (m_image m)) (matches r)) + mset (map d_timestamp (cameraDrops r))"
    by (simp add: pairOps_def app both cam cameraDrops_def)
  show "\<forall>d\<in>set (drops r). d_sensor d = ''camera'' \<or> d_sensor d = ''lidar'' \<Longrightarrow>
     mset (List.map_filter lidarPart (pairOps r)) =
       mset (map (\<lambda>m. pc_stamp (m_cloud m)) (matches r)) + mset (map d_timestamp (lidarDrops r))"
    by (simp add: pairOps_def app both lid lidarDrops_def)
qed

lemma length_pairOps:
  assumes "\<forall>d\<in>set (drops r). d_sensor d = ''camera'' \<or> d_sensor d = ''lidar''"
  shows "length (pairOps r) = length (matches r) + length (cameraDrops r) + length (lidarDrops r)"
proof -
  have "\<forall>d\<in>set ds. d_sensor d = ''camera'' \<or> d_sensor d = ''lidar'' \<Longrightarrow>
      length ds = length (filter (\<lambda>d. d_sensor d = ''camera'') ds) + length (filter (\<lambda>d. d_sensor d = ''lidar'') ds)" for ds
    by (induction ds) auto
  from this [OF assms] show ?thesis by (simp add: pairOps_def cameraDrops_def lidarDrops_def)
qed

section \<open>Properties\<close>


definition sampleNode :: SensorNode where
  "sampleNode = \<lparr>watchdog = None, syncEnabled = True,
     core = \<lparr>dataBuffer = newDataBuffer 10 0 0, synchronizer = newSynchronizer 5 20 True, pairIndex = newPairIndex\<rparr>\<rparr>"


end
