(* ===== verification/Event_Monitor.thy ===== *)
theory Event_Monitor
  imports Sensor_Path Storage_Worker Config
begin

text \<open>
  \<open>event_monitor.hpp\<close>: captures around events.  A capture stores the window before the
  event at once, as one job, and holds a reservation of the storage queue until its window
  after the event is complete, when the last job goes in.  The mutexes make each operation one
  step; clock readings are arguments.  An event name becomes one component of the event
  directory: the names that \<open>registerEvents\<close> registers have no separator.
\<close>

section \<open>State\<close>

record CaptureResult =
  capture_accepted :: bool
  capture_directory :: path
  capture_message :: string

record EventCaptureTask =
  taskId :: string
  task_eventName :: string
  eventTime :: int
  endTime :: int
  wallDeadline :: int
  task_directory :: path

record EventMonitor =
  monitorConfig :: ConfigManager
  workingDirectory :: path
  hasFlush :: bool
  requireSyncedData :: bool
  maxActiveCaptures :: nat
  sensorStallGrace :: int
  activeCaptures :: "(string \<times> EventCaptureTask) list"
  nextCaptureId :: "64 word"
  storageWorker :: Worker

record CaptureClocks =
  nodeNow :: int
  systemNow :: int
  steadyNow :: int
  failNow :: int

section \<open>Configuration\<close>

text \<open>
  \<open>absolute\<close> does not normalise; a name that cannot be made absolute is resolved by the
  operating system, against the same working directory.
\<close>

definition absolutePath :: "path \<Rightarrow> string \<Rightarrow> path" where
  "absolutePath cwd name =
     (if name \<noteq> [] \<and> hd name = CHR ''/'' then [] else cwd) @
     filter (\<lambda>c. c \<noteq> [] \<and> c \<noteq> ''.'') (split_fields CHR ''/'' name)"

definition loadRecordRoot :: "path \<Rightarrow> ConfigManager \<Rightarrow> path" where
  "loadRecordRoot cwd cfg =
     (let configured = getConfig cfg ''record_directory''
      in absolutePath cwd (if configured = [] then ''records'' else configured))"

definition kMegabyte :: nat where
  "kMegabyte = 1024 * 1024"

definition loadDiskPolicy :: "ConfigManager \<Rightarrow> DiskPolicy" where
  "loadDiskPolicy cfg =
     \<lparr>minFreeBytes = nat (max 0 (getIntConfig cfg ''disk_min_free_mb'' 512)) * kMegabyte,
      maxCapacityBytes = nat (max 0 (getIntConfig cfg ''retention_max_capacity_mb'' 10240)) * kMegabyte,
      retentionDays = max 0 (getIntConfig cfg ''retention_days'' 30),
      cleanupInterval = max 1 (getIntConfig cfg ''disk_cleanup_interval_seconds'' 60) * 1000000000,
      protectUnuploaded = getBoolConfig cfg ''upload_enabled'' False\<rparr>"

definition newEventMonitor :: "ConfigManager \<Rightarrow> path \<Rightarrow> int \<Rightarrow> bool \<Rightarrow> bool \<Rightarrow> EventMonitor" where
  "newEventMonitor cfg cwd now flush synced =
     \<lparr>monitorConfig = cfg, workingDirectory = cwd, hasFlush = flush, requireSyncedData = synced,
      maxActiveCaptures = nat (max 1 (getIntConfig cfg ''max_active_event_captures'' 16)),
      sensorStallGrace = max 0 (getIntConfig cfg ''sensor_stall_grace_ms'' 5000) * 1000000,
      activeCaptures = [], nextCaptureId = 0,
      storageWorker = newWorker (nat (max 1 (getIntConfig cfg ''max_pending_storage_jobs'' 20)))
        (Some (newDiskSpaceManager (loadRecordRoot cwd cfg) (loadDiskPolicy cfg) now))\<rparr>"

definition getEventIntConfig :: "ConfigManager \<Rightarrow> string \<Rightarrow> string \<Rightarrow> string \<Rightarrow> int \<Rightarrow> int" where
  "getEventIntConfig cfg eventName ending fallbackKey defaultValue =
     getIntConfig cfg (''event_'' @ eventName @ ''_'' @ ending) (getIntConfig cfg fallbackKey defaultValue)"

definition getEventBoolConfig :: "ConfigManager \<Rightarrow> string \<Rightarrow> string \<Rightarrow> string \<Rightarrow> bool \<Rightarrow> bool" where
  "getEventBoolConfig cfg eventName ending fallbackKey defaultValue =
     getBoolConfig cfg (''event_'' @ eventName @ ''_'' @ ending) (getBoolConfig cfg fallbackKey defaultValue)"

section \<open>Jobs\<close>

definition makeJob :: "ConfigManager \<Rightarrow> path \<Rightarrow> string \<Rightarrow> SensorData list \<Rightarrow> PairRecord list \<Rightarrow> bool \<Rightarrow> Job" where
  "makeJob cfg dir eventName rs ps final =
     \<lparr>directory = dir, job_records = rs,
      recordCamera = getEventBoolConfig cfg eventName ''record_camera'' ''record_camera'' False,
      recordLidar = getEventBoolConfig cfg eventName ''record_lidar'' ''record_lidar'' False,
      compressionEnabled = getBoolConfig cfg ''compression_enabled'' True,
      compressionLevel = clamp (getIntConfig cfg ''compression_level'' 3) 1 19,
      keepRaw = getBoolConfig cfg ''keep_raw_after_compression'' False,
      conversionEnabled = getBoolConfig cfg ''conversion_enabled'' True,
      imageFormat = (if getConfig cfg ''image_format'' = [] then ''jpg'' else getConfig cfg ''image_format''),
      imageQuality = clamp (getIntConfig cfg ''image_quality'' 90) 1 100,
      pointCloudFormat = (if getConfig cfg ''pointcloud_format'' = [] then ''pcd'' else getConfig cfg ''pointcloud_format''),
      job_pairs = ps, finalJob = final\<rparr>"

definition enqueueRecords :: "path \<Rightarrow> string \<Rightarrow> SensorData list \<Rightarrow> PairRecord list \<Rightarrow> bool \<Rightarrow> bool \<Rightarrow> EventMonitor \<Rightarrow> bool \<times> EventMonitor" where
  "enqueueRecords dir eventName rs ps reserved final m =
     (let (ok, s) = enqueue (makeJob (monitorConfig m) dir eventName rs ps final) reserved (storageWorker m)
      in (ok, m\<lparr>storageWorker := s\<rparr>))"

definition reserveSlot :: "EventMonitor \<Rightarrow> bool \<times> EventMonitor" where
  "reserveSlot m = (let (ok, s) = reserve (storageWorker m) in (ok, m\<lparr>storageWorker := s\<rparr>))"

definition releaseSlot :: "EventMonitor \<Rightarrow> EventMonitor" where
  "releaseSlot m = m\<lparr>storageWorker := releaseReservation (storageWorker m)\<rparr>"

section \<open>Starting a capture\<close>

definition captureName :: "string \<Rightarrow> 64 word \<Rightarrow> int \<Rightarrow> string" where
  "captureName eventName n ns = eventName @ ''_'' @ nat_to_string (unat n) @ ''_'' @ int_to_string ns"

definition answer :: "bool \<Rightarrow> path \<Rightarrow> string \<Rightarrow> CaptureResult" where
  "answer accepted dir message = \<lparr>capture_accepted = accepted, capture_directory = dir, capture_message = message\<rparr>"

text \<open>Without a window after the event the only job is the last one.\<close>

definition captureAtOnce :: "CaptureClocks \<Rightarrow> string \<Rightarrow> path \<Rightarrow> SensorData list \<Rightarrow> PairRecord list \<Rightarrow>
    EventMonitor \<Rightarrow> World \<Rightarrow> CaptureResult \<times> EventMonitor \<times> World" where
  "captureAtOnce t eventName dir rs ps m w =
     (let (granted, m1) = reserveSlot m in
      if \<not> granted then (answer False dir ''storage queue unavailable'', m1, w)
      else
        let (begun, w1) = event_begin dir eventName (systemNow t) w in
        if \<not> begun then (answer False dir ''cannot create pending event state'', releaseSlot m1, w1)
        else
          let (ok, m2) = enqueueRecords dir eventName rs ps True True m1
          in (answer ok dir (if ok then ''accepted for storage'' else ''storage queue unavailable''), m2,
              if ok then w1 else snd (event_fail dir ''storage_queue_unavailable'' (failNow t) w1)))"

definition captureWindow :: "CaptureClocks \<Rightarrow> EventCaptureTask \<Rightarrow> SensorData list \<Rightarrow> PairRecord list \<Rightarrow>
    EventMonitor \<Rightarrow> World \<Rightarrow> CaptureResult \<times> EventMonitor \<times> World" where
  "captureWindow t task rs ps m w =
     (let dir = task_directory task;
          (granted, m1) = reserveSlot m
      in if \<not> granted then (answer False dir ''storage queue unavailable'', m1, w)
      else if length (activeCaptures m1) \<ge> maxActiveCaptures m1
      then (answer False dir ''maximum active captures reached'', releaseSlot m1, w)
      else
        let (begun, w1) = event_begin dir (task_eventName task) (systemNow t) w in
        if \<not> begun then (answer False dir ''cannot create pending event state'', releaseSlot m1, w1)
        else
          let m2 = m1\<lparr>activeCaptures := (if taskId task \<in> fst ` set (activeCaptures m1) then activeCaptures m1
                 else activeCaptures m1 @ [(taskId task, task)])\<rparr>;
              (ok, m3) = enqueueRecords dir (task_eventName task) rs ps False False m2
          in if ok then (answer True dir ''accepted for storage'', m3, w1)
             else (answer False dir ''pre-event storage queue unavailable'',
               releaseSlot (m3\<lparr>activeCaptures := AList.delete (taskId task) (activeCaptures m3)\<rparr>),
               snd (event_fail dir ''pre_event_queue_unavailable'' (failNow t) w1)))"

definition secondsNs :: "int \<Rightarrow> int" where
  "secondsNs s = s * 1000000000"

definition flushBefore :: "EventMonitor \<Rightarrow> Core \<Rightarrow> Core" where
  "flushBefore m c = (if hasFlush m then flushPendingPairs c else c)"

definition recordDataAroundEventDetailed :: "CaptureClocks \<Rightarrow> string \<Rightarrow> EventMonitor \<Rightarrow> Core \<Rightarrow> World \<Rightarrow>
    CaptureResult \<times> EventMonitor \<times> Core \<times> World" where
  "recordDataAroundEventDetailed t eventName m c0 w =
     (let c = flushBefore m c0;
          cfg = monitorConfig m;
          preSeconds = max 0 (getEventIntConfig cfg eventName ''pre_time'' ''event_pre_time'' 5);
          postSeconds = max 0 (getEventIntConfig cfg eventName ''post_time'' ''event_post_time'' 5);
          event_time = (case latestSensorTimestamp (dataBuffer c) of Some s \<Rightarrow> s | None \<Rightarrow> nodeNow t);
          startTime = event_time - secondsNs preSeconds;
          name = captureName eventName (nextCaptureId m) (systemNow t);
          dir = loadRecordRoot (workingDirectory m) cfg @ [name];
          m1 = m\<lparr>nextCaptureId := nextCaptureId m + 1\<rparr>;
          preWindowPairs = getPairsWithinTimeRange (pairIndex c) startTime event_time
      in if requireSyncedData m \<and> \<not> list_ex (\<lambda>record. status record = ''matched'') preWindowPairs
         then (answer False dir ''no synchronized data in pre-event window'', m1, c, w)
         else
           let rs = getDataWithinTimeRange (dataBuffer c) startTime event_time;
               (result, m2, w2) =
                 (if postSeconds \<le> 0 then captureAtOnce t eventName dir rs preWindowPairs m1 w
                  else captureWindow t
                    \<lparr>taskId = name, task_eventName = eventName, eventTime = event_time,
                     endTime = event_time + secondsNs postSeconds,
                     wallDeadline = steadyNow t + secondsNs postSeconds + sensorStallGrace m1,
                     task_directory = dir\<rparr> rs preWindowPairs m1 w)
           in (result, m2, c, w2))"

section \<open>Ending captures\<close>

definition dueCapture :: "int \<Rightarrow> int option \<Rightarrow> EventCaptureTask \<Rightarrow> bool" where
  "dueCapture steady sensorNow task \<longleftrightarrow>
     (case sensorNow of Some s \<Rightarrow> s \<ge> endTime task | None \<Rightarrow> False) \<or> steady \<ge> wallDeadline task"

definition harvest :: "int \<Rightarrow> EventCaptureTask \<Rightarrow> EventMonitor \<times> Core \<times> World \<Rightarrow> EventMonitor \<times> Core \<times> World" where
  "harvest failTime task = (\<lambda>(m, c0, w).
     let c = flushBefore m c0;
         rs = filter (\<lambda>record. timestampOf record \<noteq> eventTime task)
           (getDataWithinTimeRange (dataBuffer c) (eventTime task) (endTime task));
         ps = filter (\<lambda>record. recordStamp record \<noteq> eventTime task)
           (getPairsWithinTimeRange (pairIndex c) (eventTime task) (endTime task));
         (ok, m') = enqueueRecords (task_directory task) (task_eventName task) rs ps True True m
     in (m', c, if ok then w
           else snd (event_fail (task_directory task) ''post_event_queue_unavailable'' failTime w)))"

definition processExpiredCaptures :: "CaptureClocks \<Rightarrow> EventMonitor \<times> Core \<times> World \<Rightarrow> EventMonitor \<times> Core \<times> World" where
  "processExpiredCaptures t = (\<lambda>(m, c, w).
     let due = (\<lambda>(k, task). dueCapture (steadyNow t) (latestSensorTimestamp (dataBuffer c)) task);
         expired = map snd (filter due (activeCaptures m));
         m' = m\<lparr>activeCaptures := filter (\<lambda>e. \<not> due e) (activeCaptures m)\<rparr>
     in fold (harvest (failNow t)) expired (m', c, w))"

text \<open>The table of callbacks, each on the state of the monitor.\<close>

type_synonym monitor_state = "EventMonitor \<times> Core \<times> World"

type_synonym event_callbacks = "(string \<times> (monitor_state \<Rightarrow> bool \<times> monitor_state)) list"

definition recordDataAroundEvent :: "CaptureClocks \<Rightarrow> string \<Rightarrow> monitor_state \<Rightarrow> bool \<times> monitor_state" where
  "recordDataAroundEvent t eventName = (\<lambda>(m, c, w).
     case recordDataAroundEventDetailed t eventName m c w of (r, s) \<Rightarrow> (capture_accepted r, s))"

definition registerEvent :: "string \<Rightarrow> (monitor_state \<Rightarrow> bool \<times> monitor_state) \<Rightarrow> event_callbacks \<Rightarrow> event_callbacks" where
  "registerEvent eventName callback table = AList.update eventName callback table"

definition hasEvent :: "event_callbacks \<Rightarrow> string \<Rightarrow> bool" where
  "hasEvent table eventName \<longleftrightarrow> map_of table eventName \<noteq> None"

definition triggerEvent :: "event_callbacks \<Rightarrow> string \<Rightarrow> monitor_state \<Rightarrow> bool \<times> monitor_state" where
  "triggerEvent table eventName s =
     (case map_of table eventName of None \<Rightarrow> (False, s) | Some callback \<Rightarrow> callback s)"

section \<open>What a request for a capture does\<close>

lemma reserveSlot_granted:
  "reserveSlot m = (True, m') \<Longrightarrow> \<not> stopping (storageWorker m) \<and>
     length (jobs (storageWorker m)) + reservedJobs (storageWorker m) < maxPendingJobs (storageWorker m) \<and>
     m' = m\<lparr>storageWorker := (storageWorker m)\<lparr>reservedJobs := Suc (reservedJobs (storageWorker m))\<rparr>\<rparr>"
  by (auto simp: reserveSlot_def reserve_def split: if_splits)

lemma reserveSlot_refused: "reserveSlot m = (False, m') \<Longrightarrow> m' = m"
  by (auto simp: reserveSlot_def reserve_def split: if_splits)

lemma release_reserved [simp]: "releaseReservation (s\<lparr>reservedJobs := Suc n\<rparr>) = s\<lparr>reservedJobs := n\<rparr>"
  by (simp add: releaseReservation_def dropReservation_def)

lemma begin_marks_pending:
  "event_begin dir name ns w = (True, w') \<Longrightarrow> lookup (disk w') (dir @ [''.pending'']) =
     Some (File (''event='' @ name @ [newline] @ ''accepted_at_ns='' @ int_to_string ns @ [newline]))"
  by (auto simp: event_begin_def dest: write_done [rotated])

text \<open>The two forms of an accepted capture, and that a refused one changes nothing in memory.\<close>

definition admitted :: "EventMonitor \<Rightarrow> Job \<Rightarrow> (string \<times> EventCaptureTask) list \<Rightarrow> EventMonitor" where
  "admitted m job opened = m\<lparr>activeCaptures := activeCaptures m @ opened,
     storageWorker := (storageWorker m)\<lparr>jobs := jobs (storageWorker m) @ [job],
       reservedJobs := reservedJobs (storageWorker m) + length opened\<rparr>\<rparr>"

lemma captureAtOnce_outcome:
  assumes "captureAtOnce t eventName dir rs ps m w = (r, m', w')"
  shows "capture_directory r = dir \<and>
    (if capture_accepted r
     then m' = admitted m (makeJob (monitorConfig m) dir eventName rs ps True) [] \<and> \<not> stopping (storageWorker m) \<and>
       length (jobs (storageWorker m)) + reservedJobs (storageWorker m) < maxPendingJobs (storageWorker m) \<and>
       lookup (disk w') (dir @ [''.pending'']) =
         Some (File (''event='' @ eventName @ [newline] @ ''accepted_at_ns='' @ int_to_string (systemNow t) @ [newline]))
     else m' = m)"
proof -
  obtain granted m1 where slot: "reserveSlot m = (granted, m1)" by fastforce
  show ?thesis
  proof (cases granted)
    case False
    with assms slot show ?thesis by (auto simp: captureAtOnce_def answer_def dest: reserveSlot_refused)
  next
    case True
    with slot have slot: "reserveSlot m = (True, m1)" by simp
    note m1 = reserveSlot_granted [OF slot]
    obtain begun w1 where b: "event_begin dir eventName (systemNow t) w = (begun, w1)" by fastforce
    show ?thesis
    proof (cases begun)
      case True
      with assms slot \<open>granted\<close> m1 b show ?thesis
        by (auto simp: captureAtOnce_def answer_def enqueueRecords_def enqueue_def dropReservation_def Let_def admitted_def
            dest: begin_marks_pending)
    next
      case False
      with assms slot \<open>granted\<close> m1 b show ?thesis
        by (auto simp: captureAtOnce_def answer_def releaseSlot_def)
    qed
  qed
qed

lemma captureWindow_outcome:
  assumes "captureWindow t task rs ps m w = (r, m', w')" "taskId task \<notin> fst ` set (activeCaptures m)"
  shows "capture_directory r = task_directory task \<and>
    (if capture_accepted r
     then m' = admitted m (makeJob (monitorConfig m) (task_directory task) (task_eventName task) rs ps False) [(taskId task, task)] \<and>
       \<not> stopping (storageWorker m) \<and> length (activeCaptures m) < maxActiveCaptures m \<and>
       length (jobs (storageWorker m)) + reservedJobs (storageWorker m) + 1 < maxPendingJobs (storageWorker m) \<and>
       lookup (disk w') (task_directory task @ [''.pending'']) =
         Some (File (''event='' @ task_eventName task @ [newline] @ ''accepted_at_ns='' @ int_to_string (systemNow t) @ [newline]))
     else m' = m)"
proof -
  obtain granted m1 where slot: "reserveSlot m = (granted, m1)" by fastforce
  show ?thesis
  proof (cases granted)
    case False
    with assms slot show ?thesis by (auto simp: captureWindow_def answer_def Let_def dest: reserveSlot_refused)
  next
    case True
    with slot have slot: "reserveSlot m = (True, m1)" by simp
    note m1 = reserveSlot_granted [OF slot]
    obtain begun w1 where b: "event_begin (task_directory task) (task_eventName task) (systemNow t) w = (begun, w1)" by fastforce
    have del: "AList.delete (taskId task) (activeCaptures m @ [(taskId task, task)]) = activeCaptures m"
      using assms(2) by (simp add: AList.delete_eq) (metis (mono_tags, lifting) case_prod_beta filter_True image_eqI)
    show ?thesis
    proof (cases "begun \<and> length (activeCaptures m) < maxActiveCaptures m")
      case True
      with assms slot \<open>granted\<close> m1 b del show ?thesis
        by (auto simp: captureWindow_def answer_def enqueueRecords_def enqueue_def Let_def admitted_def releaseSlot_def
            dest: begin_marks_pending split: if_splits)
    next
      case False
      with assms slot \<open>granted\<close> m1 b show ?thesis
        by (auto simp: captureWindow_def answer_def releaseSlot_def Let_def split: if_splits)
    qed
  qed
qed

text \<open>The moment and the directory of a capture.\<close>

definition captureMoment :: "CaptureClocks \<Rightarrow> Core \<Rightarrow> int" where
  "captureMoment t c = (case latestSensorTimestamp (dataBuffer c) of Some s \<Rightarrow> s | None \<Rightarrow> nodeNow t)"

definition captureDirectory :: "CaptureClocks \<Rightarrow> string \<Rightarrow> EventMonitor \<Rightarrow> path" where
  "captureDirectory t eventName m =
     loadRecordRoot (workingDirectory m) (monitorConfig m) @ [captureName eventName (nextCaptureId m) (systemNow t)]"

definition preSeconds :: "ConfigManager \<Rightarrow> string \<Rightarrow> int" where
  "preSeconds cfg eventName = max 0 (getEventIntConfig cfg eventName ''pre_time'' ''event_pre_time'' 5)"

definition postSeconds :: "ConfigManager \<Rightarrow> string \<Rightarrow> int" where
  "postSeconds cfg eventName = max 0 (getEventIntConfig cfg eventName ''post_time'' ''event_post_time'' 5)"

text \<open>The first job and the task of a capture, as the request makes them.\<close>

definition firstJob :: "CaptureClocks \<Rightarrow> string \<Rightarrow> EventMonitor \<Rightarrow> Core \<Rightarrow> Job" where
  "firstJob t eventName m c =
     (let cfg = monitorConfig m; e = captureMoment t c; start = e - secondsNs (preSeconds cfg eventName)
      in makeJob cfg (captureDirectory t eventName m) eventName (getDataWithinTimeRange (dataBuffer c) start e)
           (getPairsWithinTimeRange (pairIndex c) start e) (postSeconds cfg eventName = 0))"

definition captureTask :: "CaptureClocks \<Rightarrow> string \<Rightarrow> EventMonitor \<Rightarrow> Core \<Rightarrow> EventCaptureTask" where
  "captureTask t eventName m c =
     (let post = secondsNs (postSeconds (monitorConfig m) eventName)
      in \<lparr>taskId = captureName eventName (nextCaptureId m) (systemNow t), task_eventName = eventName,
          eventTime = captureMoment t c, endTime = captureMoment t c + post,
          wallDeadline = steadyNow t + post + sensorStallGrace m, task_directory = captureDirectory t eventName m\<rparr>)"

lemma request_outcome:
  assumes run: "recordDataAroundEventDetailed t eventName m c w = (r, m', c', w')"
    and fresh: "captureName eventName (nextCaptureId m) (systemNow t) \<notin> fst ` set (activeCaptures m)"
  defines "opened \<equiv> (if postSeconds (monitorConfig m) eventName = 0 then []
      else [(captureName eventName (nextCaptureId m) (systemNow t), captureTask t eventName m (flushBefore m c))])"
  shows "c' = flushBefore m c \<and> capture_directory r = captureDirectory t eventName m \<and>
    (if capture_accepted r
     then m' = admitted (m\<lparr>nextCaptureId := nextCaptureId m + 1\<rparr>) (firstJob t eventName m c') opened \<and>
       \<not> stopping (storageWorker m) \<and> length opened + length (activeCaptures m) \<le> max (length (activeCaptures m)) (maxActiveCaptures m) \<and>
       length (jobs (storageWorker m)) + reservedJobs (storageWorker m) + length opened < maxPendingJobs (storageWorker m) \<and>
       lookup (disk w') (captureDirectory t eventName m @ [''.pending'']) =
         Some (File (''event='' @ eventName @ [newline] @ ''accepted_at_ns='' @ int_to_string (systemNow t) @ [newline]))
     else m' = m\<lparr>nextCaptureId := nextCaptureId m + 1\<rparr>)"
proof -
  let ?c = "flushBefore m c" and ?cfg = "monitorConfig m"
  let ?start = "captureMoment t ?c - secondsNs (preSeconds ?cfg eventName)"
  let ?rs = "getDataWithinTimeRange (dataBuffer ?c) ?start (captureMoment t ?c)"
  let ?ps = "getPairsWithinTimeRange (pairIndex ?c) ?start (captureMoment t ?c)"
  let ?m1 = "m\<lparr>nextCaptureId := nextCaptureId m + 1\<rparr>"
  let ?run = "if postSeconds ?cfg eventName \<le> 0
      then captureAtOnce t eventName (captureDirectory t eventName m) ?rs ?ps ?m1 w
      else captureWindow t (captureTask t eventName m ?c) ?rs ?ps ?m1 w"
  have unfolded: "recordDataAroundEventDetailed t eventName m c w =
      (if requireSyncedData m \<and> \<not> list_ex (\<lambda>record. status record = ''matched'') ?ps
       then (answer False (captureDirectory t eventName m) ''no synchronized data in pre-event window'', ?m1, ?c, w)
       else (fst ?run, fst (snd ?run), ?c, snd (snd ?run)))"
    by (simp add: recordDataAroundEventDetailed_def captureDirectory_def captureMoment_def preSeconds_def
        postSeconds_def captureTask_def Let_def case_prod_beta)
  have nonneg: "0 \<le> postSeconds ?cfg eventName" by (simp add: postSeconds_def)
  show ?thesis
  proof (cases "requireSyncedData m \<and> \<not> list_ex (\<lambda>record. status record = ''matched'') ?ps")
    case True
    with run show ?thesis unfolding unfolded by (auto simp: answer_def)
  next
    case False
    then have parts: "?run = (r, m', w')" "c' = ?c" using run unfolding unfolded by (auto simp del: split_paired_All)
    show ?thesis
    proof (cases "postSeconds ?cfg eventName = 0")
      case True
      with parts(1) have "captureAtOnce t eventName (captureDirectory t eventName m) ?rs ?ps ?m1 w = (r, m', w')" by simp
      from captureAtOnce_outcome [OF this] True parts(2) show ?thesis
        by (auto simp: opened_def firstJob_def Let_def)
    next
      case False
      with parts(1) nonneg have "captureWindow t (captureTask t eventName m ?c) ?rs ?ps ?m1 w = (r, m', w')" by simp
      from captureWindow_outcome [OF this] False parts(2) fresh show ?thesis
        by (auto simp: opened_def firstJob_def captureTask_def Let_def)
    qed
  qed
qed

section \<open>Flushing twice\<close>

lemma flushed_empty:
  "images (synchronizer (flushPendingPairs c)) = []" "clouds (synchronizer (flushPendingPairs c)) = []"
proof -
  show "images (synchronizer (flushPendingPairs c)) = []"
    using drop_loops_frame(4) flushImages_exit by (simp add: flushPendingPairs_def deliver_def flushUnmatched_def)
  show "clouds (synchronizer (flushPendingPairs c)) = []"
    by (simp add: flushPendingPairs_def deliver_def flushUnmatched_def flushClouds_exit)
qed

lemma flush_nothing:
  "images (synchronizer c) = [] \<Longrightarrow> clouds (synchronizer c) = [] \<Longrightarrow> flushPendingPairs c = c"
  by (simp add: flushPendingPairs_def deliver_def flushUnmatched_def flushImages.simps flushClouds.simps
      dispatch_def noResults_def)

lemma flush_twice [simp]: "flushBefore m' (flushBefore m c) = (if hasFlush m \<or> \<not> hasFlush m' then flushBefore m c else flushBefore m' c)"
  by (simp add: flushBefore_def flush_nothing flushed_empty)

lemma flushBefore_buffer [simp]: "dataBuffer (flushBefore m c) = dataBuffer c"
  by (simp add: flushBefore_def flushPendingPairs_def deliver_def)

section \<open>The end of the captures\<close>

definition lastJob :: "EventMonitor \<Rightarrow> Core \<Rightarrow> EventCaptureTask \<Rightarrow> Job" where
  "lastJob m c task = makeJob (monitorConfig m) (task_directory task) (task_eventName task)
     (filter (\<lambda>record. timestampOf record \<noteq> eventTime task)
        (getDataWithinTimeRange (dataBuffer c) (eventTime task) (endTime task)))
     (filter (\<lambda>record. recordStamp record \<noteq> eventTime task)
        (getPairsWithinTimeRange (pairIndex c) (eventTime task) (endTime task))) True"

definition handedIn :: "EventMonitor \<Rightarrow> Job list \<Rightarrow> EventMonitor" where
  "handedIn m js = m\<lparr>storageWorker := (storageWorker m)\<lparr>jobs := jobs (storageWorker m) @ js,
     reservedJobs := reservedJobs (storageWorker m) - length js\<rparr>\<rparr>"

lemma harvest_reserved:
  assumes "\<not> stopping (storageWorker m)" "reservedJobs (storageWorker m) > 0"
  shows "harvest ft task (m, c, w) = (handedIn m [lastJob m (flushBefore m c) task], flushBefore m c, w)"
  using assms by (simp add: harvest_def enqueueRecords_def enqueue_def dropReservation_def handedIn_def lastJob_def Let_def)

lemma handedIn_simps [simp]:
  "stopping (storageWorker (handedIn m js)) = stopping (storageWorker m)"
  "reservedJobs (storageWorker (handedIn m js)) = reservedJobs (storageWorker m) - length js"
  "flushBefore (handedIn m js) c = flushBefore m c" "hasFlush (handedIn m js) = hasFlush m"
  "handedIn (handedIn m js) ks = handedIn m (js @ ks)" "handedIn m [] = m"
  "lastJob (handedIn m js) = lastJob m"
  by (simp_all add: handedIn_def flushBefore_def lastJob_def fun_eq_iff)

lemma harvest_all:
  assumes "\<not> stopping (storageWorker m)" "length tasks \<le> reservedJobs (storageWorker m)"
  shows "fold (harvest ft) tasks (m, c, w) =
    (handedIn m (map (lastJob m (flushBefore m c)) tasks), if tasks = [] then c else flushBefore m c, w)"
  using assms
proof (induction tasks arbitrary: m c)
  case (Cons task tasks)
  then have "harvest ft task (m, c, w) = (handedIn m [lastJob m (flushBefore m c) task], flushBefore m c, w)"
    by (intro harvest_reserved) auto
  with Cons show ?case by (cases tasks) simp_all
qed simp

text \<open>Each active capture holds one reservation.\<close>

definition monitor_ok :: "nat \<Rightarrow> nat \<Rightarrow> EventMonitor \<Rightarrow> bool" where
  "monitor_ok limit captures m \<longleftrightarrow>
     \<not> stopping (storageWorker m) \<and> slots.bounded (storageWorker m) \<and> maxPendingJobs (storageWorker m) = limit \<and>
     reservedJobs (storageWorker m) = length (activeCaptures m) \<and>
     maxActiveCaptures m = captures \<and> length (activeCaptures m) \<le> captures \<and> distinct (map fst (activeCaptures m))"

definition dueIn :: "CaptureClocks \<Rightarrow> Core \<Rightarrow> string \<times> EventCaptureTask \<Rightarrow> bool" where
  "dueIn t c e = dueCapture (steadyNow t) (latestSensorTimestamp (dataBuffer c)) (snd e)"

lemma expired_result:
  assumes ok: "monitor_ok limit captures m"
  shows "\<exists>c'. processExpiredCaptures t (m, c, w) =
     (handedIn (m\<lparr>activeCaptures := filter (\<lambda>e. \<not> dueIn t c e) (activeCaptures m)\<rparr>)
        (map (\<lambda>e. lastJob m (flushBefore m c) (snd e)) (filter (dueIn t c) (activeCaptures m))), c', w) \<and>
     c' \<in> {c, flushBefore m c}"
proof -
  let ?m = "m\<lparr>activeCaptures := filter (\<lambda>e. \<not> dueIn t c e) (activeCaptures m)\<rparr>"
  have fits: "length (map snd (filter (dueIn t c) (activeCaptures m))) \<le> reservedJobs (storageWorker ?m)"
    using ok by (simp add: monitor_ok_def)
  have same: "lastJob ?m (flushBefore ?m c) = lastJob m (flushBefore m c)"
    by (simp add: lastJob_def flushBefore_def fun_eq_iff)
  have "processExpiredCaptures t (m, c, w) = fold (harvest (failNow t)) (map snd (filter (dueIn t c) (activeCaptures m))) (?m, c, w)"
    by (simp add: processExpiredCaptures_def dueIn_def [abs_def] case_prod_beta' Let_def)
  also have "\<dots> = (handedIn ?m (map (lastJob m (flushBefore m c)) (map snd (filter (dueIn t c) (activeCaptures m)))),
      if map snd (filter (dueIn t c) (activeCaptures m)) = [] then c else flushBefore ?m c, w)"
    by (subst harvest_all) (use ok fits same in \<open>simp_all add: monitor_ok_def\<close>)
  finally show ?thesis by (auto simp: comp_def flushBefore_def)
qed

lemma expired_ok:
  assumes "monitor_ok limit captures m" "processExpiredCaptures t (m, c, w) = (m', c', w')"
  shows "monitor_ok limit captures m'"
proof -
  have split: "length (activeCaptures m) = length (filter (dueIn t c) (activeCaptures m)) + length (filter (\<lambda>e. \<not> dueIn t c e) (activeCaptures m))"
    by (simp add: sum_length_filter_compl)
  from expired_result [OF assms(1), of t c w] assms(2) have
    "m' = handedIn (m\<lparr>activeCaptures := filter (\<lambda>e. \<not> dueIn t c e) (activeCaptures m)\<rparr>)
       (map (\<lambda>e. lastJob m (flushBefore m c) (snd e)) (filter (dueIn t c) (activeCaptures m)))" by auto
  with assms(1) split show ?thesis
    by (auto simp: monitor_ok_def handedIn_def slots.bounded_def distinct_map_filter)
qed

section \<open>The monitor over time\<close>

text \<open>
  The steps of the monitor, of the storage thread and of the sensors.  The name of a capture
  is new unless the 64-bit counter goes around within one nanosecond.
\<close>

inductive monitorStep :: "EventMonitor \<times> Core \<times> World \<Rightarrow> EventMonitor \<times> Core \<times> World \<Rightarrow> bool" where
  requested: "recordDataAroundEventDetailed t eventName m c w = (r, m', c', w') \<Longrightarrow>
    captureName eventName (nextCaptureId m) (systemNow t) \<notin> fst ` set (activeCaptures m) \<Longrightarrow>
    monitorStep (m, c, w) (m', c', w')"
| scheduled: "processExpiredCaptures t s = s' \<Longrightarrow> monitorStep s s'"
| stored: "run env clocks (storageWorker m) w = (Worked s', w') \<Longrightarrow>
    monitorStep (m, c, w) (m\<lparr>storageWorker := s'\<rparr>, c, w')"
| sensed: "sensorStep n op = Inr n' \<Longrightarrow> monitorStep (m, core n, w) (m, core n', w)"

inductive_cases monitorStepE: "monitorStep (m, c, w) (m', c', w')"

lemma run_frame: "run env t s w = (Worked s', w') \<Longrightarrow> stopping s' = stopping s"
  by (auto simp: run_def dest: processJob_queue split: list.splits prod.splits sum.splits if_splits)

lemma monitorStep_ok:
  assumes "monitorStep (m, c, w) (m', c', w')" "monitor_ok limit captures m"
  shows "monitor_ok limit captures m'"
  using assms(1)
proof (cases rule: monitorStep.cases)
  case (requested t eventName r)
  from request_outcome [OF requested(1,2)] requested(2) assms(2) show ?thesis
    by (auto simp: monitor_ok_def admitted_def slots.bounded_def simp del: append.simps split: if_splits)
next
  case (scheduled t)
  then show ?thesis by (intro expired_ok [OF assms(2)])
next
  case (stored env clocks s')
  with run_takes [OF stored(3)] run_frame [OF stored(3)] assms(2) show ?thesis
    by (auto simp: monitor_ok_def slots.bounded_def)
next
  case sensed
  with assms(2) show ?thesis by simp
qed

lemma reachable_ok:
  assumes "monitorStep\<^sup>*\<^sup>* (newEventMonitor cfg cwd now flush synced, c0, w0) (m, c, w)"
  shows "monitor_ok (nat (max 1 (getIntConfig cfg ''max_pending_storage_jobs'' 20)))
    (nat (max 1 (getIntConfig cfg ''max_active_event_captures'' 16))) m"
proof -
  let ?ok = "monitor_ok (nat (max 1 (getIntConfig cfg ''max_pending_storage_jobs'' 20)))
    (nat (max 1 (getIntConfig cfg ''max_active_event_captures'' 16)))"
  have "?ok (fst x)" if "monitorStep\<^sup>*\<^sup>* (newEventMonitor cfg cwd now flush synced, c0, w0) x" for x
    using that
  proof (induction rule: rtranclp_induct)
    case base
    then show ?case by (simp add: newEventMonitor_def newWorker_def monitor_ok_def slots.bounded_def)
  next
    case (step x y)
    then show ?case using monitorStep_ok by (cases x; cases y) auto
  qed
  from this [OF assms] show ?thesis by simp
qed

section \<open>Names of captures\<close>

lemma dec_value_Cons: "dec_value (d # ds) = (code d - 48) * 10 ^ length ds + dec_value ds"
proof (induction ds rule: rev_induct)
  case (snoc x xs)
  have "dec_value (d # xs @ [x]) = dec_value (d # xs) * 10 + (code x - 48)"
    using dec_value_snoc [of "d # xs" x] by simp
  with snoc show ?case by (simp add: dec_value_snoc algebra_simps)
qed (simp add: dec_value_def)

lemma timestampLoop_digits:
  assumes "\<forall>c\<in>set ds. isdigit c" "0 \<le> v" "v * 10 ^ length ds + int (dec_value ds) \<le> INT64_MAX"
  shows "timestampLoop v ds = v * 10 ^ length ds + int (dec_value ds)"
  using assms
proof (induction ds arbitrary: v)
  case (Cons d ds)
  let ?x = "int (code d) - 48"
  have digit: "0 \<le> ?x" "?x \<le> 9" using Cons.prems(1) by (auto simp: isdigit_def)
  have val: "v * 10 ^ length (d # ds) + int (dec_value (d # ds)) = (v * 10 + ?x) * 10 ^ length ds + int (dec_value ds)"
  proof -
    have "int (code d - 48) = ?x" using digit(1) by (simp add: of_nat_diff)
    then have "int (dec_value (d # ds)) = ?x * 10 ^ length ds + int (dec_value ds)"
      by (simp only: dec_value_Cons of_nat_add of_nat_mult of_nat_power of_nat_numeral)
    then show ?thesis by (simp add: algebra_simps)
  qed
  have "(v * 10 + ?x) * 1 \<le> (v * 10 + ?x) * 10 ^ length ds"
    using digit(1) Cons.prems(2) by (intro mult_left_mono) auto
  then have "v * 10 + ?x \<le> INT64_MAX" using Cons.prems(3) unfolding val by simp
  then have "\<not> v > (INT64_MAX - ?x) div 10" by simp
  moreover have "timestampLoop (v * 10 + ?x) ds = (v * 10 + ?x) * 10 ^ length ds + int (dec_value ds)"
    using Cons digit val by (intro Cons.IH) auto
  ultimately show ?case using Cons.prems(1) val by simp
qed (simp add: dec_value_def)

lemma dec_value_bound: "\<forall>c\<in>set ds. isdigit c \<Longrightarrow> dec_value ds < 10 ^ length ds"
proof (induction ds)
  case (Cons d ds)
  then have "code d - 48 \<le> 9" "dec_value ds < 10 ^ length ds" by (auto simp: isdigit_def)
  then have "(code d - 48) * 10 ^ length ds + dec_value ds < 9 * 10 ^ length ds + 10 ^ length ds"
    by (intro add_le_less_mono mult_right_mono) auto
  then show ?case by (simp add: dec_value_Cons)
qed (simp add: dec_value_def)

lemma nat_to_string_long: "10 ^ k \<le> n \<Longrightarrow> k < length (nat_to_string n)"
proof (rule ccontr)
  assume "10 ^ k \<le> n" "\<not> k < length (nat_to_string n)"
  moreover have "n < 10 ^ length (nat_to_string n)"
    using dec_value_bound [OF nat_to_string_digits [of n]] by simp
  moreover have "(10 :: nat) ^ length (nat_to_string n) \<le> 10 ^ k"
    using \<open>\<not> k < length (nat_to_string n)\<close> by (intro power_increasing) auto
  ultimately show False by simp
qed

lemma last_separator_unique:
  fixes u v u' v' :: string
  assumes "u @ c # v = u' @ c # v'" "c \<notin> set v" "c \<notin> set v'"
  shows "u = u' \<and> v = v'"
proof -
  have "length u = length u'"
    using find_last_of_append [OF assms(2), of u] find_last_of_append [OF assms(3), of u'] assms(1) by simp
  with assms(1) show ?thesis by simp
qed

lemma no_underscore: "CHR ''_'' \<notin> set (nat_to_string n)" "CHR ''_'' \<notin> set (int_to_string i)"
  using nat_to_string_plain [of n] int_to_string_chars [of "CHR ''_''" i] by (auto simp: isdigit_def code_def)

section \<open>Well-formed jobs\<close>

definition well_formed_job :: "Job \<Rightarrow> bool" where
  "well_formed_job job \<longleftrightarrow> (\<forall>d\<in>set (job_records job). well_typed d) \<and>
     1 \<le> compressionLevel job \<and> compressionLevel job \<le> 19 \<and> 1 \<le> imageQuality job \<and> imageQuality job \<le> 100 \<and>
     imageFormat job \<noteq> [] \<and> pointCloudFormat job \<noteq> []"

lemma makeJob_well_formed: "\<forall>d\<in>set rs. well_typed d \<Longrightarrow> well_formed_job (makeJob cfg dir name rs ps final)"
  by (simp add: well_formed_job_def makeJob_def clamp_def)

lemma window_well_typed: "buffer_ok b \<Longrightarrow> d \<in> set (getDataWithinTimeRange b s e) \<Longrightarrow> well_typed d"
  by (auto simp: getDataWithinTimeRange_def buffer_ok_def queue_ok_def)

lemma sensorStep_buffer:
  assumes "sensorStep n op = Inr n'" "buffer_ok (dataBuffer (core n))"
  shows "buffer_ok (dataBuffer (core n'))"
proof (cases op)
  case (ImageArrives now i)
  obtain b where "addData (dataBuffer (core n)) (cameraFrame i) = Inr b" "buffer_ok b"
    using addData_buffer_ok [OF assms(2), of "cameraFrame i"] by auto
  with ImageArrives assms(1) show ?thesis
    by (auto simp: handleImage_def storeFrame_def noteSensor_def deliver_def)
next
  case (CloudArrives now m)
  obtain b where "addData (dataBuffer (core n)) (lidarFrame m) = Inr b" "buffer_ok b"
    using addData_buffer_ok [OF assms(2), of "lidarFrame m"] by auto
  with CloudArrives assms(1) show ?thesis
    by (auto simp: handlePointCloud_def storeFrame_def noteSensor_def deliver_def)
next
  case PairsFlushed
  with assms show ?thesis by (auto simp: flushPendingPairs_def deliver_def)
qed

lemma request_jobs:
  assumes "recordDataAroundEventDetailed t eventName m c w = (r, m', c', w')"
    and "captureName eventName (nextCaptureId m) (systemNow t) \<notin> fst ` set (activeCaptures m)"
  shows "set (jobs (storageWorker m')) \<subseteq> insert (firstJob t eventName m c') (set (jobs (storageWorker m)))"
  using request_outcome [OF assms] by (auto simp: admitted_def split: if_splits)

lemma expired_jobs:
  assumes "monitor_ok limit captures m" "processExpiredCaptures t (m, c, w) = (m', c', w')"
  shows "set (jobs (storageWorker m')) \<subseteq> set (jobs (storageWorker m)) \<union> range (lastJob m (flushBefore m c)) \<and> dataBuffer c' = dataBuffer c"
  using expired_result [OF assms(1), of t c w] assms(2) by (auto simp: handedIn_def)

section \<open>Properties\<close>


text \<open>
  C14. Every active capture holds a reservation, and gets its last job in: in every state the
  monitor, the storage thread and the sensors can reach, there are exactly as many
  reservations as active captures, at most the configured number, and when the
  scheduler runs, the last job of each due capture is queued, in order, none is refused
  and no event is failed; the others stay active.
\<close>

theorem captures_get_their_last_job:
  assumes "monitorStep\<^sup>*\<^sup>* (newEventMonitor cfg cwd now flush synced, c0, w0) (m, c, w)"
    and "processExpiredCaptures t (m, c, w) = (m', c', w')"
  shows "reservedJobs (storageWorker m) = length (activeCaptures m) \<and>
    length (activeCaptures m) \<le> nat (max 1 (getIntConfig cfg ''max_active_event_captures'' 16)) \<and>
    jobs (storageWorker m') = jobs (storageWorker m) @
      map (\<lambda>e. lastJob m (flushBefore m c) (snd e)) (filter (dueIn t c) (activeCaptures m)) \<and>
    activeCaptures m' = filter (\<lambda>e. \<not> dueIn t c e) (activeCaptures m) \<and> w' = w"
proof -
  from reachable_ok [OF assms(1)] have ok: "monitor_ok (nat (max 1 (getIntConfig cfg ''max_pending_storage_jobs'' 20)))
    (nat (max 1 (getIntConfig cfg ''max_active_event_captures'' 16))) m" .
  from expired_result [OF this, of t c w] assms(2) ok show ?thesis
    by (auto simp: handedIn_def monitor_ok_def)
qed


text \<open>
  C16. The directory of a capture is dated and its own: retention reads back the time of the
  event from the name, whatever the event is called, and no other event, number or time
  gives the same name.
\<close>

theorem capture_names_dated_and_unique:
  assumes "100000000 \<le> ns" "ns \<le> INT64_MAX"
  shows "parseEventTimestamp (captureName eventName n ns) = ns \<and>
    (captureName eventName' n' ns' = captureName eventName n ns \<longrightarrow> eventName' = eventName \<and> n' = n \<and> ns' = ns)"
proof
  let ?u = "eventName @ ''_'' @ nat_to_string (unat n)"
  have name: "captureName eventName n ns = ?u @ CHR ''_'' # nat_to_string (nat ns)"
    using assms(1) by (simp add: captureName_def int_to_string_def)
  have "8 < length (nat_to_string (nat ns))" using assms(1) by (intro nat_to_string_long) simp
  moreover have "find_last_of CHR ''_'' (captureName eventName n ns) = Some (length ?u)"
    unfolding name by (rule find_last_of_append [OF no_underscore(1)])
  moreover have "timestampLoop 0 (nat_to_string (nat ns)) = ns"
    using timestampLoop_digits [OF nat_to_string_digits, of 0 "nat ns"] assms by simp
  ultimately show "parseEventTimestamp (captureName eventName n ns) = ns"
    by (simp add: parseEventTimestamp_def name)
  show "captureName eventName' n' ns' = captureName eventName n ns \<longrightarrow> eventName' = eventName \<and> n' = n \<and> ns' = ns"
  proof
    assume "captureName eventName' n' ns' = captureName eventName n ns"
    then have "(eventName' @ ''_'' @ nat_to_string (unat n')) @ CHR ''_'' # int_to_string ns' =
        (eventName @ ''_'' @ nat_to_string (unat n)) @ CHR ''_'' # int_to_string ns"
      by (simp add: captureName_def)
    from last_separator_unique [OF this no_underscore(2) no_underscore(2)]
    have "eventName' @ CHR ''_'' # nat_to_string (unat n') = eventName @ CHR ''_'' # nat_to_string (unat n)" "ns' = ns"
      by simp_all
    with last_separator_unique [OF this(1) no_underscore(1) no_underscore(1)]
    show "eventName' = eventName \<and> n' = n \<and> ns' = ns" by (simp add: word_unat_eq_iff)
  qed
qed

text \<open>
  C17. Every queued job is well formed: in every reachable state its messages carry the
  alternative their tag names, the compression level and the image quality are in the range of
  the libraries, and both formats are set, whatever the configuration says.
\<close>

theorem queued_jobs_well_formed:
  assumes "monitorStep\<^sup>*\<^sup>* (newEventMonitor cfg cwd now flush synced, c0, w0) (m, c, w)"
    and "buffer_ok (dataBuffer c0)" "job \<in> set (jobs (storageWorker m))"
  shows "well_formed_job job"
proof -
  let ?good = "\<lambda>(m, c, w). buffer_ok (dataBuffer c) \<and> (\<forall>job\<in>set (jobs (storageWorker m)). well_formed_job job)"
  have made: "well_formed_job (firstJob t name m c)" "well_formed_job (lastJob m c task)"
    if "buffer_ok (dataBuffer c)" for t name m c task
    using window_well_typed [OF that] by (auto simp: firstJob_def lastJob_def Let_def intro!: makeJob_well_formed)
  have "?good x" if "monitorStep\<^sup>*\<^sup>* (newEventMonitor cfg cwd now flush synced, c0, w0) x" for x
    using that
  proof (induction rule: rtranclp_induct)
    case base
    with assms(2) show ?case by (simp add: newEventMonitor_def newWorker_def)
  next
    case (step x y)
    from step(2) show ?case
    proof (cases rule: monitorStep.cases)
      case (requested t name m c w r m' c' w')
      with request_outcome [OF requested(3,4)] request_jobs [OF requested(3,4)] step(3) made(1) show ?thesis by auto
    next
      case (scheduled t)
      obtain m c w m' c' w' where x: "x = (m, c, w)" and y: "y = (m', c', w')" by (cases x; cases y) auto
      from expired_jobs [OF reachable_ok [OF step(1) [unfolded x]] scheduled [unfolded x y]] step(3) made(2) show ?thesis
        by (auto simp: x y)
    next
      case (stored env clocks m w s' w' c)
      with run_takes [OF stored(3)] step(3) show ?thesis by (auto dest: list.set_sel(2))
    next
      case (sensed n op n' m w)
      with sensorStep_buffer [OF sensed(3)] step(3) show ?thesis by simp
    qed
  qed
  from this [OF assms(1)] assms(3) show ?thesis by simp
qed

text \<open>
  A queue of one: a capture with a window after the event needs two slots at once, its
  reservation and its first job, so with \<open>max_pending_storage_jobs\<close> 1, which the
  configuration accepts, every such request is refused.
\<close>

lemma single_slot_refuses:
  assumes "recordDataAroundEventDetailed t eventName m c w = (r, m', c', w')" "maxPendingJobs (storageWorker m) = 1"
    and "postSeconds (monitorConfig m) eventName > 0"
    and "captureName eventName (nextCaptureId m) (systemNow t) \<notin> fst ` set (activeCaptures m)"
  shows "\<not> capture_accepted r"
  using request_outcome [OF assms(1,4)] assms(2,3) by (auto split: if_splits)

section \<open>A sample capture\<close>

definition sampleMonitor :: EventMonitor where
  "sampleMonitor = newEventMonitor newConfigManager [] 0 True False"

definition sampleTimes :: CaptureClocks where
  "sampleTimes = \<lparr>nodeNow = 7000000000, systemNow = 5, steadyNow = 0, failNow = 6\<rparr>"

definition sampleRoot :: World where
  "sampleRoot = \<lparr>disk = [([''records''], Dir)], script = []\<rparr>"

lemma sampleMonitor_simps:
  "activeCaptures sampleMonitor = []" "nextCaptureId sampleMonitor = 0" "monitorConfig sampleMonitor = newConfigManager"
  "maxActiveCaptures sampleMonitor = 16" "requireSyncedData sampleMonitor = False" "workingDirectory sampleMonitor = []"
  "stopping (storageWorker sampleMonitor) = False" "maxPendingJobs (storageWorker sampleMonitor) = 20"
  "reservedJobs (storageWorker sampleMonitor) = 0" "jobs (storageWorker sampleMonitor) = []"
  by (simp_all add: sampleMonitor_def newEventMonitor_def newWorker_def getIntConfig_def newConfigManager_def)

lemma sample_begun: "\<exists>w. event_begin [''records'', n] name k sampleRoot = (True, w)"
  by (simp add: event_begin_def writeAtomically_def createDirectories_def openTrunc_def writeContent_def renameFile_def
      perform_def parentPath_def temporaryOf_def ancestors_def readFile_def lookup_def isDirectory_def sampleRoot_def
      numeral_eq_Suc)

lemma sample_request:
  "\<exists>r m c w. recordDataAroundEventDetailed sampleTimes ''e'' sampleMonitor (core sampleNode) sampleRoot = (r, m, c, w) \<and> capture_accepted r"
proof -
  have root: "loadRecordRoot [] newConfigManager = [''records'']"
    by (simp add: loadRecordRoot_def getConfig_def newConfigManager_def absolutePath_def)
  have post: "getEventIntConfig newConfigManager ''e'' a b d = d" for a b d
    by (simp add: getEventIntConfig_def getIntConfig_def newConfigManager_def)
  obtain w where begun: "event_begin [''records'', captureName ''e'' 0 5] ''e'' 5 sampleRoot = (True, w)"
    using sample_begun by blast
  show ?thesis
    by (simp add: recordDataAroundEventDetailed_def captureWindow_def reserveSlot_def reserve_def enqueueRecords_def
        enqueue_def sampleMonitor_simps post root sampleTimes_def begun Let_def answer_def)
qed


theorem captures_get_their_last_job_witness:
  "\<exists>r m c w. recordDataAroundEventDetailed sampleTimes ''e'' sampleMonitor (core sampleNode) sampleRoot = (r, m, c, w) \<and>
     capture_accepted r \<and> reservedJobs (storageWorker m) = length (activeCaptures m)"
proof -
  obtain r m c w where run: "recordDataAroundEventDetailed sampleTimes ''e'' sampleMonitor (core sampleNode) sampleRoot = (r, m, c, w)"
    and acc: "capture_accepted r" using sample_request by blast
  have "monitorStep (sampleMonitor, core sampleNode, sampleRoot) (m, c, w)"
    by (rule monitorStep.requested [OF run]) (simp add: sampleMonitor_simps)
  then have "monitorStep\<^sup>*\<^sup>* (newEventMonitor newConfigManager [] 0 True False, core sampleNode, sampleRoot) (m, c, w)"
    by (simp add: sampleMonitor_def)
  moreover obtain m' c' w' where "processExpiredCaptures sampleTimes (m, c, w) = (m', c', w')" using prod_cases3 by blast
  ultimately show ?thesis using captures_get_their_last_job run acc by blast
qed

definition coreWith :: "int list \<Rightarrow> Core" where
  "coreWith stamps = (core sampleNode)\<lparr>dataBuffer := (newDataBuffer 10 0 0)\<lparr>
     queues := (\<lambda>t. if t = CAMERA then map (\<lambda>s. cameraFrame (mkImage s)) stamps else []),
     latestTimestamp := 100, hasLatestTimestamp := True\<rparr>\<rparr>"


theorem capture_names_dated_and_unique_witness:
  "parseEventTimestamp (captureName ''hard_brake'' 3 1700000000000000000) = 1700000000000000000"
  using capture_names_dated_and_unique [of 1700000000000000000 "''hard_brake''" 3] by (simp add: INT64_MAX_def)

theorem queued_jobs_well_formed_witness:
  "\<exists>r m c w. recordDataAroundEventDetailed sampleTimes ''e'' sampleMonitor (core sampleNode) sampleRoot = (r, m, c, w) \<and>
     jobs (storageWorker m) \<noteq> [] \<and> well_formed_job (hd (jobs (storageWorker m)))"
proof -
  obtain r m c w where run: "recordDataAroundEventDetailed sampleTimes ''e'' sampleMonitor (core sampleNode) sampleRoot = (r, m, c, w)"
    and acc: "capture_accepted r" using sample_request by blast
  have fresh: "captureName ''e'' (nextCaptureId sampleMonitor) (systemNow sampleTimes) \<notin> fst ` set (activeCaptures sampleMonitor)"
    by (simp add: sampleMonitor_simps)
  have "jobs (storageWorker m) \<noteq> []" using request_outcome [OF run fresh] acc by (auto simp: admitted_def)
  moreover have "monitorStep (sampleMonitor, core sampleNode, sampleRoot) (m, c, w)"
    by (rule monitorStep.requested [OF run fresh])
  then have "monitorStep\<^sup>*\<^sup>* (newEventMonitor newConfigManager [] 0 True False, core sampleNode, sampleRoot) (m, c, w)"
    by (simp add: sampleMonitor_def)
  moreover have "buffer_ok (dataBuffer (core sampleNode))" by (simp add: sampleNode_def buffer_ok_new)
  ultimately have "well_formed_job (hd (jobs (storageWorker m)))"
    by (intro queued_jobs_well_formed [of newConfigManager "[]" 0 True False "core sampleNode" sampleRoot m c w]) simp_all
  with run \<open>jobs (storageWorker m) \<noteq> []\<close> show ?thesis by blast
qed

end
