(* ===== verification/Cache_Node.thy ===== *)
theory Cache_Node
  imports Event_Monitor Event_Messages Trigger_Policy
begin

text \<open>
  \<open>DataCacheNode\<close> of datacache\_node.hpp and datacache\_node.cpp: start-up from the
  configuration, the trigger service with its response cache, and the timer that reports what
  became of accepted events.  A callback returns what it publishes, in order.  The ROS
  executor runs one callback at a time; the \<open>std::unordered_map\<close> members are
  association lists, visited in list order.
\<close>

section \<open>State\<close>

record EventLifecycle =
  lc_eventName :: string
  lc_triggerId :: string
  lc_source :: string
  lc_captureId :: string
  lc_directory :: path
  lc_acceptedAt :: int
  storedPublished :: bool
  uploadFailurePublished :: bool

record CachedTriggerResponse =
  cached_response :: TriggerResponse
  expiresAt :: int

record CacheNode =
  nodeConfig :: ConfigManager
  sensorNode :: SensorNode
  eventMonitor :: EventMonitor
  eventCallbacks :: event_callbacks
  uploadEnabled :: bool
  uploadFailureAutoRetry :: bool
  triggerDedupeTtl :: int
  eventLifecycles :: "(string \<times> EventLifecycle) list"
  triggerResponses :: "(string \<times> CachedTriggerResponse) list"
  nextDirectTriggerId :: "64 word"

text \<open>The clock readings of a callback; the second steady one is taken at its end.\<close>

record NodeClocks =
  rosNow :: int
  steadyStart :: int
  steadyEnd :: int
  captureClocks :: CaptureClocks

text \<open>\<open>path::string\<close> of an absolute path, and of a default-constructed one.\<close>

definition pathText :: "path \<Rightarrow> string" where
  "pathText p = concat (map (\<lambda>c. CHR ''/'' # c) p)"

section \<open>Start-up\<close>

definition syncRequiredForRecording :: "ConfigManager \<Rightarrow> bool" where
  "syncRequiredForRecording cfg \<longleftrightarrow>
     getBoolConfig cfg ''sync_required_for_recording'' False \<and> getBoolConfig cfg ''sync_enabled'' True"

definition createCoreComponents :: "ConfigManager \<Rightarrow> Core" where
  "createCoreComponents cfg =
     (let configuredBufferSize = getIntConfig cfg ''buffer_size'' 1000;
          bufferSeconds = max 0 (getIntConfig cfg ''buffer_duration_seconds'' 30);
          bufferMaxMb = max 0 (getIntConfig cfg ''buffer_max_mb'' 1024);
          syncQueueSize = getIntConfig cfg ''sync_queue_size'' 100;
          syncToleranceMs = max 0 (getIntConfig cfg ''sync_tolerance_ms'' 20)
      in \<lparr>dataBuffer = newDataBuffer (if configuredBufferSize > 0 then nat configuredBufferSize else 0)
            (secondsNs bufferSeconds) (nat bufferMaxMb * kMegabyte),
          synchronizer = newSynchronizer (nat (max 1 syncQueueSize)) (syncToleranceMs * 1000000) True,
          pairIndex = newPairIndex\<rparr>)"

definition createWatchdog :: "ConfigManager \<Rightarrow> int \<Rightarrow> SensorWatchdog option" where
  "createWatchdog cfg now =
     (if \<not> getBoolConfig cfg ''watchdog_enabled'' True then None
      else
        let fallback = getIntConfig cfg ''watchdog_stale_timeout_ms'' 1000;
            register = (\<lambda>w sensor. registerSensor w sensor
              (max 1 (getIntConfig cfg (''watchdog_'' @ sensor @ ''_stale_timeout_ms'') fallback)) now)
        in Some (register (register newWatchdog ''camera'') ''lidar''))"

definition registerEvents :: "ConfigManager \<Rightarrow> (string \<Rightarrow> monitor_state \<Rightarrow> bool \<times> monitor_state) \<Rightarrow> event_callbacks" where
  "registerEvents cfg recordingEvent =
     (let parsed = parseEventNames (getConfig cfg ''event_names'');
          names = (if parsed = [] then [''collision'', ''hard_brake''] else parsed)
      in fold (\<lambda>name table.
           if getBoolConfig cfg (''enable_'' @ name @ ''_event'') False
           then registerEvent name (recordingEvent name) table else table) names [])"

text \<open>
  The constructor: the name and content of the configuration file (\<open>None\<close> where it cannot be
  opened), the working directory, the two clocks, and what the callbacks of the
  registered events do.
\<close>

definition newCacheNode :: "string \<Rightarrow> string option \<Rightarrow> path \<Rightarrow> int \<Rightarrow> int \<Rightarrow> (string \<Rightarrow> monitor_state \<Rightarrow> bool \<times> monitor_state) \<Rightarrow>
    World \<Rightarrow> (string + CacheNode) \<times> World" where
  "newCacheNode configPath content cwd steady systemNs recordingEvent w =
     (case loadConfig newConfigManager content of
        (False, cfg) \<Rightarrow> (Inl (''Failed to load config file: '' @ configPath), w)
      | (True, cfg) \<Rightarrow>
          let (result, w') = reconcile (loadRecordRoot cwd cfg) systemNs w;
              upload = getBoolConfig cfg ''upload_enabled'' False
          in (Inr \<lparr>nodeConfig = cfg,
                sensorNode = \<lparr>watchdog = createWatchdog cfg steady,
                  syncEnabled = getBoolConfig cfg ''sync_enabled'' True, core = createCoreComponents cfg\<rparr>,
                eventMonitor = newEventMonitor cfg cwd steady True (syncRequiredForRecording cfg),
                eventCallbacks = registerEvents cfg recordingEvent,
                uploadEnabled = upload,
                uploadFailureAutoRetry =
                  (upload \<longrightarrow> max 0 (getIntConfig cfg ''upload_failed_rescan_period_ms'' 1800000) > 0),
                triggerDedupeTtl = max 1 (getIntConfig cfg ''trigger_dedupe_ttl_ms'' 60000) * 1000000,
                eventLifecycles = [], triggerResponses = [], nextDirectTriggerId = 0\<rparr>, w'))"

section \<open>The trigger service\<close>

definition eventStatus :: "int \<Rightarrow> string \<Rightarrow> string \<Rightarrow> string \<Rightarrow> StatusCode \<Rightarrow> string \<Rightarrow> string \<Rightarrow> path \<Rightarrow> EventStatus" where
  "eventStatus now eventName triggerId src st message captureId dir =
     \<lparr>st_status = st, st_event_name = eventName, st_trigger_id = triggerId, st_source = src,
      st_capture_id = captureId, st_record_directory = pathText dir, st_message = message, st_updated_at = now\<rparr>"

definition pruneResponses :: "int \<Rightarrow> (string \<times> CachedTriggerResponse) list \<Rightarrow> (string \<times> CachedTriggerResponse) list" where
  "pruneResponses now cache = filter (\<lambda>(k, cached). \<not> expiresAt cached \<le> now) cache"

definition cacheResponse :: "string \<Rightarrow> TriggerResponse \<Rightarrow> int \<Rightarrow> CacheNode \<Rightarrow> CacheNode" where
  "cacheResponse triggerId response now n = n\<lparr>triggerResponses :=
     AList.update triggerId \<lparr>cached_response = response, expiresAt = now + triggerDedupeTtl n\<rparr> (triggerResponses n)\<rparr>"

definition rejectTrigger :: "NodeClocks \<Rightarrow> string \<Rightarrow> string \<Rightarrow> string \<Rightarrow> string \<Rightarrow> CacheNode \<Rightarrow>
    TriggerResponse \<times> EventStatus list \<times> CacheNode" where
  "rejectTrigger t eventName triggerId src message n =
     (let response = emptyResponse\<lparr>rs_success := False, rs_message := message\<rparr>
      in (response, [eventStatus (rosNow t) eventName triggerId src REJECTED message [] []],
          cacheResponse triggerId response (steadyEnd t) n))"

definition sensorStatus :: "NodeClocks \<Rightarrow> CacheNode \<Rightarrow> string" where
  "sensorStatus t n = (case watchdog (sensorNode n) of None \<Rightarrow> []
     | Some w \<Rightarrow> '' ['' @ describeStatus w (steadyEnd t) @ '']'')"

definition captureTrigger :: "NodeClocks \<Rightarrow> string \<Rightarrow> string \<Rightarrow> string \<Rightarrow> CacheNode \<Rightarrow> World \<Rightarrow>
    TriggerResponse \<times> EventStatus list \<times> CacheNode \<times> World" where
  "captureTrigger t eventName triggerId src n w =
     (case recordDataAroundEventDetailed (captureClocks t) eventName (eventMonitor n) (core (sensorNode n)) w of
        (capture, m, c, w') \<Rightarrow>
          let n1 = n\<lparr>eventMonitor := m, sensorNode := (sensorNode n)\<lparr>core := c\<rparr>\<rparr>;
              response = \<lparr>rs_success = capture_accepted capture,
                rs_message = (if capture_accepted capture
                  then ''Event '' @ [CHR 0x27] @ eventName @ [CHR 0x27] @ '' accepted for storage'' @ sensorStatus t n1
                  else ''Event '' @ [CHR 0x27] @ eventName @ [CHR 0x27] @ '' rejected: '' @ capture_message capture @ sensorStatus t n1),
                rs_capture_id = last (capture_directory capture),
                rs_record_directory = pathText (capture_directory capture)\<rparr>;
              lifecycle = \<lparr>lc_eventName = eventName, lc_triggerId = triggerId, lc_source = src,
                lc_captureId = rs_capture_id response, lc_directory = capture_directory capture,
                lc_acceptedAt = steadyEnd t, storedPublished = False, uploadFailurePublished = False\<rparr>;
              n2 = (if capture_accepted capture
                then n1\<lparr>eventLifecycles := AList.update triggerId lifecycle (eventLifecycles n1)\<rparr> else n1)
          in (response,
              [eventStatus (rosNow t) eventName triggerId src (if capture_accepted capture then ACCEPTED else REJECTED)
                 (rs_message response) (rs_capture_id response) (capture_directory capture)],
              cacheResponse triggerId response (steadyEnd t) n2, w'))"

definition triggerSource :: "TriggerRequest \<Rightarrow> string" where
  "triggerSource rq = (if rq_source rq = [] then ''direct_rpc'' else rq_source rq)"

definition identifyTrigger :: "TriggerRequest \<Rightarrow> int \<Rightarrow> CacheNode \<Rightarrow> string \<times> CacheNode" where
  "identifyTrigger rq now n =
     (if rq_trigger_id rq = []
      then (generatedId (triggerSource rq) now (nextDirectTriggerId n),
            n\<lparr>nextDirectTriggerId := nextDirectTriggerId n + 1\<rparr>)
      else (rq_trigger_id rq, n))"

definition handleTrigger :: "NodeClocks \<Rightarrow> TriggerRequest \<Rightarrow> CacheNode \<Rightarrow> World \<Rightarrow>
    TriggerResponse \<times> EventStatus list \<times> CacheNode \<times> World" where
  "handleTrigger t rq n0 w =
     (let eventName = rq_event_name rq; src = triggerSource rq;
          (triggerId, n1) = identifyTrigger rq (rosNow t) n0;
          n = n1\<lparr>triggerResponses := pruneResponses (steadyStart t) (triggerResponses n1)\<rparr>
      in case map_of (triggerResponses n) triggerId of
           Some cached \<Rightarrow> (cached_response cached, [], n, w)
         | None \<Rightarrow>
             if eventName = []
             then (case rejectTrigger t eventName triggerId src ''Event name must not be empty'' n of
                 (r, es, n') \<Rightarrow> (r, es, n', w))
             else if \<not> hasEvent (eventCallbacks n) eventName
             then (case rejectTrigger t eventName triggerId src
                   (''Event '' @ [CHR 0x27] @ eventName @ [CHR 0x27] @ '' is not registered'') n of
                 (r, es, n') \<Rightarrow> (r, es, n', w))
             else captureTrigger t eventName triggerId src n w)"

section \<open>The lifecycle timer\<close>

text \<open>The markers of an event directory, as one poll sees them.\<close>

record Markers =
  seen_complete :: bool
  seen_failed :: bool
  seen_uploaded :: bool
  seen_upload_failed :: bool

definition seenMarkers :: "disk \<Rightarrow> path \<Rightarrow> Markers" where
  "seenMarkers d dir =
     \<lparr>seen_complete = pathExists d (dir @ [''.complete'']), seen_failed = pathExists d (dir @ [''.failed'']),
      seen_uploaded = pathExists d (dir @ [''.uploaded'']), seen_upload_failed = pathExists d (dir @ [''.upload_failed''])\<rparr>"

text \<open>One lifecycle: what is published, and the lifecycle if it is kept.\<close>

definition fiveMinutes :: int where
  "fiveMinutes = 5 * 60 * 1000000000"

definition pollLifecycle :: "bool \<Rightarrow> bool \<Rightarrow> int \<Rightarrow> Markers \<Rightarrow> EventLifecycle \<Rightarrow>
    (StatusCode \<times> string) list \<times> EventLifecycle option" where
  "pollLifecycle upload autoRetry now s lc0 =
     (let newlyStored = (seen_complete s \<and> \<not> storedPublished lc0);
          es = (if newlyStored then [(STORED, ''recording complete'')] else []);
          lc = (if newlyStored then lc0\<lparr>storedPublished := True\<rparr> else lc0)
      in if seen_failed s then (es @ [(RECORD_FAILED, ''recording failed during persistence'')], None)
         else if seen_uploaded s then (es @ [(UPLOADED, ''RPC upload complete'')], None)
         else
           let newlyFailed = (seen_upload_failed s \<and> \<not> uploadFailurePublished lc);
               es = (if newlyFailed
                 then es @ [if autoRetry then (UPLOAD_RETRYING, ''RPC upload delayed; automatic retry scheduled'')
                   else (UPLOAD_FAILED, ''RPC upload retries exhausted'')] else es);
               lc = (if newlyFailed then lc\<lparr>uploadFailurePublished := True\<rparr>
                 else if \<not> seen_upload_failed s then lc\<lparr>uploadFailurePublished := False\<rparr> else lc)
           in if newlyFailed \<and> \<not> autoRetry then (es, None)
              else if \<not> upload \<and> storedPublished lc then (es, None)
              else if \<not> seen_complete s \<and> now - lc_acceptedAt lc > fiveMinutes
              then (es @ [(RECORD_FAILED, ''recording did not complete before timeout'')], None)
              else (es, Some lc))"

primrec pollEntries :: "int \<Rightarrow> int \<Rightarrow> bool \<Rightarrow> bool \<Rightarrow> disk \<Rightarrow> (string \<times> EventLifecycle) list \<Rightarrow>
    EventStatus list \<times> (string \<times> EventLifecycle) list" where
  "pollEntries ros now upload autoRetry d [] = ([], [])"
| "pollEntries ros now upload autoRetry d (entry # rest) =
     (let lc = snd entry;
          (es, kept) = pollLifecycle upload autoRetry now (seenMarkers d (lc_directory lc)) lc;
          (es', rest') = pollEntries ros now upload autoRetry d rest
      in (map (\<lambda>(st, message). eventStatus ros (lc_eventName lc) (lc_triggerId lc) (lc_source lc) st message
            (lc_captureId lc) (lc_directory lc)) es @ es',
          case kept of None \<Rightarrow> rest' | Some lc' \<Rightarrow> (fst entry, lc') # rest'))"

definition pollEventLifecycles :: "int \<Rightarrow> int \<Rightarrow> CacheNode \<Rightarrow> World \<Rightarrow> EventStatus list \<times> CacheNode" where
  "pollEventLifecycles ros now n w =
     (let (es, kept) = pollEntries ros now (uploadEnabled n) (uploadFailureAutoRetry n) (disk w) (eventLifecycles n)
      in (es, n\<lparr>eventLifecycles := kept\<rparr>))"

section \<open>The response cache\<close>

lemma map_of_prune_live: "map_of cache k = Some v \<Longrightarrow> now < expiresAt v \<Longrightarrow> map_of (pruneResponses now cache) k = Some v"
  by (induction cache) (auto simp: pruneResponses_def split: if_splits)

lemma captureTrigger_responses:
  "captureTrigger t e k src n w = (r, es, n', w') \<Longrightarrow>
     map_of (triggerResponses n') = (map_of (triggerResponses n))(k \<mapsto> \<lparr>cached_response = r, expiresAt = steadyEnd t + triggerDedupeTtl n\<rparr>) \<and>
     triggerDedupeTtl n' = triggerDedupeTtl n \<and> eventCallbacks n' = eventCallbacks n"
  by (auto simp: captureTrigger_def cacheResponse_def Let_def update_conv split: prod.splits)

lemma rejectTrigger_responses:
  "rejectTrigger t e k src message n = (r, es, n') \<Longrightarrow>
     n' = n\<lparr>triggerResponses := AList.update k \<lparr>cached_response = r, expiresAt = steadyEnd t + triggerDedupeTtl n\<rparr> (triggerResponses n)\<rparr> \<and>
     r = emptyResponse\<lparr>rs_message := message\<rparr> \<and> es = [eventStatus (rosNow t) e k src REJECTED message [] []]"
  by (auto simp: rejectTrigger_def cacheResponse_def emptyResponse_def Let_def)

text \<open>The request after its identifier is settled and the cache is pruned.\<close>

definition settled :: "NodeClocks \<Rightarrow> TriggerRequest \<Rightarrow> CacheNode \<Rightarrow> string \<times> CacheNode" where
  "settled t rq n = (let (k, n1) = identifyTrigger rq (rosNow t) n
     in (k, n1\<lparr>triggerResponses := pruneResponses (steadyStart t) (triggerResponses n1)\<rparr>))"

lemma settled_simps:
  assumes "settled t rq n = (k, n')"
  shows "triggerResponses n' = pruneResponses (steadyStart t) (triggerResponses n)" "triggerDedupeTtl n' = triggerDedupeTtl n"
    "eventMonitor n' = eventMonitor n" "sensorNode n' = sensorNode n" "eventLifecycles n' = eventLifecycles n"
    "eventCallbacks n' = eventCallbacks n" "rq_trigger_id rq \<noteq> [] \<Longrightarrow> k = rq_trigger_id rq"
    "k \<noteq> []"
  using assms by (auto simp: settled_def identifyTrigger_def Let_def split: if_splits)

lemma handleTrigger_cached:
  "settled t rq n = (k, n') \<Longrightarrow> map_of (triggerResponses n') k = Some cached \<Longrightarrow>
   handleTrigger t rq n w = (cached_response cached, [], n', w)"
  by (auto simp: handleTrigger_def settled_def Let_def split: prod.splits)

lemma handleTrigger_new:
  "settled t rq n = (k, n') \<Longrightarrow> map_of (triggerResponses n') k = None \<Longrightarrow>
   handleTrigger t rq n w =
     (if rq_event_name rq = []
      then (case rejectTrigger t (rq_event_name rq) k (triggerSource rq) ''Event name must not be empty'' n' of (r, es, n'') \<Rightarrow> (r, es, n'', w))
      else if \<not> hasEvent (eventCallbacks n') (rq_event_name rq)
      then (case rejectTrigger t (rq_event_name rq) k (triggerSource rq)
          (''Event '' @ [CHR 0x27] @ rq_event_name rq @ [CHR 0x27] @ '' is not registered'') n' of (r, es, n'') \<Rightarrow> (r, es, n'', w))
      else captureTrigger t (rq_event_name rq) k (triggerSource rq) n' w)"
  by (auto simp: handleTrigger_def settled_def Let_def split: prod.splits)

lemma handleTrigger_stores:
  assumes "settled t rq n = (k, n0)" "map_of (triggerResponses n0) k = None" "handleTrigger t rq n w = (r, es, n', w')"
  shows "map_of (triggerResponses n') = (map_of (triggerResponses n0))(k \<mapsto> \<lparr>cached_response = r, expiresAt = steadyEnd t + triggerDedupeTtl n\<rparr>)"
    "triggerDedupeTtl n' = triggerDedupeTtl n"
  using assms(3) handleTrigger_new [OF assms(1,2), of w] settled_simps [OF assms(1)]
  by (auto dest!: rejectTrigger_responses captureTrigger_responses simp: update_conv split: if_splits prod.splits)

text \<open>A cached response stays until it expires, whatever is requested in between.\<close>

lemma handleTrigger_keeps:
  assumes "map_of (triggerResponses n) k = Some cached" "steadyStart t < expiresAt cached"
    and "handleTrigger t rq n w = (r, es, n', w')"
  shows "map_of (triggerResponses n') k = Some cached"
proof -
  obtain k' n0 where s: "settled t rq n = (k', n0)" by fastforce
  have kept: "map_of (triggerResponses n0) k = Some cached"
    using settled_simps(1) [OF s] map_of_prune_live [OF assms(1,2)] by simp
  show ?thesis
  proof (cases "map_of (triggerResponses n0) k'")
    case None
    then have "k' \<noteq> k" using kept by auto
    with handleTrigger_stores(1) [OF s None assms(3)] kept show ?thesis by simp
  next
    case (Some c)
    with handleTrigger_cached [OF s Some, of w] assms(3) kept show ?thesis by auto
  qed
qed

text \<open>A sequence of requests, each with its clocks.\<close>

primrec serveTriggers :: "(NodeClocks \<times> TriggerRequest) list \<Rightarrow> CacheNode \<times> World \<Rightarrow> CacheNode \<times> World" where
  "serveTriggers [] s = s"
| "serveTriggers (x # xs) s = serveTriggers xs (snd (snd (handleTrigger (fst x) (snd x) (fst s) (snd s))))"

lemma serveTriggers_keeps:
  "map_of (triggerResponses (fst s)) k = Some cached \<Longrightarrow> \<forall>x\<in>set xs. steadyStart (fst x) < expiresAt cached \<Longrightarrow>
   map_of (triggerResponses (fst (serveTriggers xs s))) k = Some cached"
proof (induction xs arbitrary: s)
  case (Cons x xs)
  obtain r es n' w' where h: "handleTrigger (fst x) (snd x) (fst s) (snd s) = (r, es, n', w')" using prod_cases4 by blast
  with Cons handleTrigger_keeps [OF _ _ h] show ?case by simp
qed simp

section \<open>One request\<close>

lemma captureTrigger_outcome:
  assumes "captureTrigger t e k src n w = (r, es, n', w')"
    and "captureName e (nextCaptureId (eventMonitor n)) (systemNow (captureClocks t)) \<notin> fst ` set (activeCaptures (eventMonitor n))"
  shows "\<exists>dir. es = [eventStatus (rosNow t) e k src (if rs_success r then ACCEPTED else REJECTED) (rs_message r) (rs_capture_id r) dir] \<and>
    rs_record_directory r = pathText dir \<and> rs_capture_id r = last dir \<and>
    (if rs_success r
     then map_of (eventLifecycles n') = (map_of (eventLifecycles n))(k \<mapsto> \<lparr>lc_eventName = e, lc_triggerId = k, lc_source = src,
         lc_captureId = last dir, lc_directory = dir, lc_acceptedAt = steadyEnd t, storedPublished = False, uploadFailurePublished = False\<rparr>) \<and>
       length (jobs (storageWorker (eventMonitor n'))) = Suc (length (jobs (storageWorker (eventMonitor n)))) \<and>
       lookup (disk w') (dir @ [''.pending'']) \<noteq> None
     else eventLifecycles n' = eventLifecycles n \<and> storageWorker (eventMonitor n') = storageWorker (eventMonitor n) \<and>
       activeCaptures (eventMonitor n') = activeCaptures (eventMonitor n))"
proof -
  obtain q m c w1 where q: "recordDataAroundEventDetailed (captureClocks t) e (eventMonitor n) (core (sensorNode n)) w = (q, m, c, w1)"
    using prod_cases4 by blast
  from request_outcome [OF q assms(2)] assms(1) show ?thesis
    by (intro exI [of _ "capture_directory q"])
      (auto simp: captureTrigger_def q cacheResponse_def update_conv admitted_def Let_def split: if_splits)
qed

section \<open>What a lifecycle reports over time\<close>

text \<open>
  The polls of one lifecycle until it is dropped: times and the markers each poll sees.
\<close>

fun followLifecycle :: "bool \<Rightarrow> bool \<Rightarrow> (int \<times> Markers) list \<Rightarrow> EventLifecycle \<Rightarrow> StatusCode list \<times> EventLifecycle option" where
  "followLifecycle upload autoRetry [] lc = ([], Some lc)"
| "followLifecycle upload autoRetry ((now, s) # polls) lc =
     (case pollLifecycle upload autoRetry now s lc of
        (es, None) \<Rightarrow> (map fst es, None)
      | (es, Some lc') \<Rightarrow> (case followLifecycle upload autoRetry polls lc' of
          (codes, kept) \<Rightarrow> (map fst es @ codes, kept)))"

definition terminal :: "StatusCode \<Rightarrow> bool" where
  "terminal st \<longleftrightarrow> st \<in> {RECORD_FAILED, UPLOADED, UPLOAD_FAILED}"

lemma pollLifecycle_kept:
  "pollLifecycle upload autoRetry now s lc = (es, Some lc') \<Longrightarrow>
     map fst es \<in> {[], [STORED], [UPLOAD_RETRYING], [STORED, UPLOAD_RETRYING]} \<and>
     (STORED \<in> set (map fst es) \<longleftrightarrow> seen_complete s \<and> \<not> storedPublished lc) \<and>
     (UPLOAD_RETRYING \<in> set (map fst es) \<longrightarrow> autoRetry) \<and>
     storedPublished lc' = (storedPublished lc \<or> seen_complete s) \<and> lc_acceptedAt lc' = lc_acceptedAt lc \<and>
     \<not> seen_failed s \<and> \<not> seen_uploaded s \<and> (upload \<or> \<not> storedPublished lc') \<and>
     (seen_complete s \<or> now - lc_acceptedAt lc \<le> fiveMinutes)"
  by (auto simp: pollLifecycle_def Let_def split: if_splits)

lemma pollLifecycle_dropped:
  "pollLifecycle upload autoRetry now s lc = (es, None) \<Longrightarrow>
     (STORED \<in> set (map fst es) \<longleftrightarrow> seen_complete s \<and> \<not> storedPublished lc) \<and> count_list (map fst es) STORED \<le> 1 \<and>
     (\<forall>st\<in>set (map fst es). terminal st \<longrightarrow> st = last (map fst es)) \<and> length (filter terminal (map fst es)) \<le> 1 \<and>
     ((es = [] \<or> \<not> terminal (last (map fst es))) \<longrightarrow> \<not> upload \<and> (storedPublished lc \<or> seen_complete s)) \<and>
     (UPLOADED \<in> set (map fst es) \<longrightarrow> seen_uploaded s) \<and> (UPLOAD_RETRYING \<in> set (map fst es) \<longrightarrow> autoRetry)"
  by (auto simp: pollLifecycle_def Let_def terminal_def split: if_splits)

lemma follow_reports:
  assumes "followLifecycle upload autoRetry polls lc = (codes, kept)"
  shows "count_list codes STORED \<le> (if storedPublished lc then 0 else 1) \<and>
    (STORED \<in> set codes \<longrightarrow> (\<exists>x\<in>set polls. seen_complete (snd x))) \<and>
    (UPLOADED \<in> set codes \<longrightarrow> (\<exists>x\<in>set polls. seen_uploaded (snd x))) \<and>
    length (filter terminal codes) \<le> 1 \<and> (\<forall>st\<in>set codes. terminal st \<longrightarrow> st = last codes \<and> kept = None) \<and>
    (kept = None \<longrightarrow> (codes \<noteq> [] \<and> terminal (last codes)) \<or> \<not> upload \<and> (storedPublished lc \<or> STORED \<in> set codes)) \<and>
    (UPLOAD_RETRYING \<in> set codes \<longrightarrow> autoRetry)"
  using assms
proof (induction polls arbitrary: lc codes kept)
  case (Cons p polls)
  obtain now s where p: "p = (now, s)" by (cases p)
  obtain es r where one: "pollLifecycle upload autoRetry now s lc = (es, r)" by fastforce
  show ?case
  proof (cases r)
    case None
    have c: "codes = map fst es" "kept = None" using Cons.prems by (auto simp: p one None)
    note D = pollLifecycle_dropped [OF one [unfolded None]]
    have "STORED \<notin> set (map fst es)" if "storedPublished lc" using D that by blast
    then have stored: "count_list codes STORED \<le> (if storedPublished lc then 0 else 1)"
      using D unfolding c(1) by (metis count_list_0_iff le_refl)
    have seen: "STORED \<in> set codes \<longrightarrow> (\<exists>x\<in>set (p # polls). seen_complete (snd x))"
      "UPLOADED \<in> set codes \<longrightarrow> (\<exists>x\<in>set (p # polls). seen_uploaded (snd x))"
      using D unfolding c(1) p by (metis list.set_intros(1) snd_conv)+
    have ended: "(codes \<noteq> [] \<and> terminal (last codes)) \<or> \<not> upload \<and> (storedPublished lc \<or> STORED \<in> set codes)"
      using D unfolding c(1) by (metis list.map_disc_iff)
    show ?thesis using D stored seen ended unfolding c by blast
  next
    case (Some lc')
    obtain rest where c: "codes = map fst es @ rest" and rest: "followLifecycle upload autoRetry polls lc' = (rest, kept)"
      using Cons.prems by (auto simp: p one Some split: prod.splits)
    note first = pollLifecycle_kept [OF one [unfolded Some]]
    note later = Cons.IH [OF rest]
    have quiet: "filter terminal (map fst es) = []" using first by (auto simp: terminal_def)
    have once: "\<forall>st\<in>set codes. terminal st \<longrightarrow> st = last codes \<and> kept = None"
      using later quiet by (auto simp: c filter_empty_conv last_append)
    have stored: "count_list codes STORED \<le> (if storedPublished lc then 0 else 1)"
      using later first by (auto simp: c split: if_splits)
    have single: "length (filter terminal codes) \<le> 1" using later quiet by (simp add: c)
    have ended: "kept = None \<longrightarrow> (codes \<noteq> [] \<and> terminal (last codes)) \<or> \<not> upload \<and> (storedPublished lc \<or> STORED \<in> set codes)"
    proof
      assume "kept = None"
      then consider "rest \<noteq> []" "terminal (last rest)" | "\<not> upload" "storedPublished lc' \<or> STORED \<in> set rest"
        using later by blast
      then show "(codes \<noteq> [] \<and> terminal (last codes)) \<or> \<not> upload \<and> (storedPublished lc \<or> STORED \<in> set codes)"
        by cases (use first in \<open>auto simp: c\<close>)
    qed
    have seen: "STORED \<in> set codes \<longrightarrow> (\<exists>x\<in>set (p # polls). seen_complete (snd x))"
      "UPLOADED \<in> set codes \<longrightarrow> (\<exists>x\<in>set (p # polls). seen_uploaded (snd x))"
      "UPLOAD_RETRYING \<in> set codes \<longrightarrow> autoRetry"
    proof -
      have parts: "STORED \<in> set (map fst es) \<longrightarrow> seen_complete s" "UPLOADED \<notin> set (map fst es)"
        "UPLOAD_RETRYING \<in> set (map fst es) \<longrightarrow> autoRetry"
        using first by auto
      have within: "set codes = set (map fst es) \<union> set rest" by (simp only: c set_append)
      show "STORED \<in> set codes \<longrightarrow> (\<exists>x\<in>set (p # polls). seen_complete (snd x))"
        unfolding within p using parts(1) later by (metis UnE list.set_intros(1,2) snd_conv)
      show "UPLOADED \<in> set codes \<longrightarrow> (\<exists>x\<in>set (p # polls). seen_uploaded (snd x))"
        unfolding within p using parts(2) later by (metis UnE list.set_intros(2))
      show "UPLOAD_RETRYING \<in> set codes \<longrightarrow> autoRetry"
        unfolding within using parts(3) later by blast
    qed
    show ?thesis by (intro conjI stored seen single once ended)
  qed
qed auto

lemma pollEntries_kept:
  "(k, lc') \<in> set (snd (pollEntries ros now upload autoRetry d xs)) \<Longrightarrow>
   \<exists>lc es. (k, lc) \<in> set xs \<and> pollLifecycle upload autoRetry now (seenMarkers d (lc_directory lc)) lc = (es, Some lc')"
proof (induction xs)
  case (Cons e xs)
  obtain es r where one: "pollLifecycle upload autoRetry now (seenMarkers d (lc_directory (snd e))) (snd e) = (es, r)" by fastforce
  show ?case
  proof (cases r)
    case None
    with Cons show ?thesis by (auto simp: one case_prod_beta Let_def)
  next
    case (Some lc)
    then have "(k, lc') = (fst e, lc) \<or> (k, lc') \<in> set (snd (pollEntries ros now upload autoRetry d xs))"
      using Cons.prems by (auto simp: one case_prod_beta Let_def)
    then show ?thesis
    proof
      assume "(k, lc') = (fst e, lc)"
      with one Some show ?thesis by (intro exI [of _ "snd e"] exI [of _ es]) (auto simp: prod_eq_iff)
    qed (use Cons.IH in auto)
  qed
qed simp

lemma pollEntries_reported:
  "(k, lc) \<in> set xs \<Longrightarrow> pollLifecycle upload autoRetry now (seenMarkers d (lc_directory lc)) lc = (es, kept) \<Longrightarrow>
   (st, message) \<in> set es \<Longrightarrow>
   eventStatus ros (lc_eventName lc) (lc_triggerId lc) (lc_source lc) st message (lc_captureId lc) (lc_directory lc)
     \<in> set (fst (pollEntries ros now upload autoRetry d xs))"
  by (induction xs) (force simp: case_prod_beta Let_def)+

lemma pollLifecycle_directory: "pollLifecycle upload autoRetry now s lc = (es, Some lc') \<Longrightarrow> lc_directory lc' = lc_directory lc"
  by (auto simp: pollLifecycle_def Let_def split: if_splits)

section \<open>Properties\<close>

text \<open>
  C18. A trigger is acted on once: while the answer to a trigger identifier is cached, every
  repetition, after whatever other requests, gets the same answer, publishes nothing,
  starts no capture and touches neither the disk nor the reported lifecycles.
\<close>

theorem trigger_answered_once:
  assumes "settled t rq n = (k, n0)" "map_of (triggerResponses n0) k = None" "handleTrigger t rq n w = (r, es, n1, w1)"
    and "serveTriggers others (n1, w1) = (n2, w2)" "\<forall>x\<in>set others. steadyStart (fst x) < steadyEnd t + triggerDedupeTtl n"
    and "rq_trigger_id rq' = k" "steadyStart t' < steadyEnd t + triggerDedupeTtl n" "handleTrigger t' rq' n2 w2 = (r', es', n3, w3)"
  shows "r' = r \<and> es' = [] \<and> w3 = w2 \<and> eventMonitor n3 = eventMonitor n2 \<and> sensorNode n3 = sensorNode n2 \<and>
    eventLifecycles n3 = eventLifecycles n2"
proof -
  let ?c = "\<lparr>cached_response = r, expiresAt = steadyEnd t + triggerDedupeTtl n\<rparr>"
  have "map_of (triggerResponses n1) k = Some ?c"
    using handleTrigger_stores(1) [OF assms(1-3)] by simp
  with serveTriggers_keeps [of "(n1, w1)" k ?c others] assms(4,5) have kept: "map_of (triggerResponses n2) k = Some ?c" by simp
  obtain k' n' where s: "settled t' rq' n2 = (k', n')" by fastforce
  have k': "k' = k" using settled_simps(7) [OF s] settled_simps(8) [OF assms(1)] assms(6) by simp
  have "map_of (triggerResponses n') k' = Some ?c"
    using settled_simps(1) [OF s] map_of_prune_live [OF kept] assms(7) k' by simp
  from handleTrigger_cached [OF s this] assms(8) settled_simps [OF s] show ?thesis by simp
qed

text \<open>
  C19. A new trigger gets exactly one status, and it is true: \<open>ACCEPTED\<close> comes exactly with a
  successful response for a registered event, and then one job is queued, the pending marker
  is on disk and the lifecycle is followed under the trigger's identifier; with
  \<open>REJECTED\<close> no capture, job, reservation or lifecycle is left.
\<close>

theorem new_trigger_reported:
  assumes "settled t rq n = (k, n0)" "map_of (triggerResponses n0) k = None" "handleTrigger t rq n w = (r, es, n1, w1)"
    and "captureName (rq_event_name rq) (nextCaptureId (eventMonitor n)) (systemNow (captureClocks t)) \<notin>
      fst ` set (activeCaptures (eventMonitor n))"
  shows "\<exists>dir. es = [eventStatus (rosNow t) (rq_event_name rq) k (triggerSource rq)
        (if rs_success r then ACCEPTED else REJECTED) (rs_message r) (rs_capture_id r) dir] \<and>
    (if rs_success r
     then rq_event_name rq \<noteq> [] \<and> hasEvent (eventCallbacks n) (rq_event_name rq) \<and>
       (\<exists>lc. map_of (eventLifecycles n1) k = Some lc \<and> lc_directory lc = dir \<and> \<not> storedPublished lc) \<and>
       length (jobs (storageWorker (eventMonitor n1))) = Suc (length (jobs (storageWorker (eventMonitor n)))) \<and>
       lookup (disk w1) (dir @ [''.pending'']) \<noteq> None
     else eventLifecycles n1 = eventLifecycles n \<and> storageWorker (eventMonitor n1) = storageWorker (eventMonitor n) \<and>
       activeCaptures (eventMonitor n1) = activeCaptures (eventMonitor n))"
proof (cases "rq_event_name rq = [] \<or> \<not> hasEvent (eventCallbacks n0) (rq_event_name rq)")
  case True
  with assms(3) settled_simps [OF assms(1)] show ?thesis
    unfolding handleTrigger_new [OF assms(1,2)]
    by (intro exI [of _ "[]"]) (auto dest!: rejectTrigger_responses simp: emptyResponse_def split: if_splits prod.splits)
next
  case False
  then have "captureTrigger t (rq_event_name rq) k (triggerSource rq) n0 w = (r, es, n1, w1)"
    using assms(3) unfolding handleTrigger_new [OF assms(1,2)] by simp
  from captureTrigger_outcome [OF this] assms(4) settled_simps [OF assms(1)] obtain dir where dir:
    "es = [eventStatus (rosNow t) (rq_event_name rq) k (triggerSource rq) (if rs_success r then ACCEPTED else REJECTED) (rs_message r) (rs_capture_id r) dir]"
    "if rs_success r
     then map_of (eventLifecycles n1) = (map_of (eventLifecycles n0))(k \<mapsto> \<lparr>lc_eventName = rq_event_name rq, lc_triggerId = k,
         lc_source = triggerSource rq, lc_captureId = last dir, lc_directory = dir, lc_acceptedAt = steadyEnd t,
         storedPublished = False, uploadFailurePublished = False\<rparr>) \<and>
       length (jobs (storageWorker (eventMonitor n1))) = Suc (length (jobs (storageWorker (eventMonitor n0)))) \<and>
       lookup (disk w1) (dir @ [''.pending'']) \<noteq> None
     else eventLifecycles n1 = eventLifecycles n0 \<and> storageWorker (eventMonitor n1) = storageWorker (eventMonitor n0) \<and>
       activeCaptures (eventMonitor n1) = activeCaptures (eventMonitor n0)"
    by auto
  with False settled_simps [OF assms(1)] show ?thesis by (intro exI [of _ dir]) (auto split: if_splits)
qed

text \<open>
  C20. What a lifecycle reports is consistent: over any sequence of polls, \<open>STORED\<close> is
  reported at most once and only after \<open>.complete\<close> was seen, \<open>UPLOADED\<close> only after
  \<open>.uploaded\<close>, there is at most one final status, nothing follows it, and a lifecycle is
  dropped only with a final status or, without upload, once \<open>STORED\<close> was reported.
\<close>

theorem lifecycle_reports_consistent:
  assumes "followLifecycle upload autoRetry polls lc = (codes, kept)" "\<not> storedPublished lc"
  shows "count_list codes STORED \<le> 1 \<and>
    (STORED \<in> set codes \<longrightarrow> (\<exists>x\<in>set polls. seen_complete (snd x))) \<and>
    (UPLOADED \<in> set codes \<longrightarrow> (\<exists>x\<in>set polls. seen_uploaded (snd x))) \<and>
    length (filter terminal codes) \<le> 1 \<and> (\<forall>st\<in>set codes. terminal st \<longrightarrow> st = last codes \<and> kept = None) \<and>
    (kept = None \<longrightarrow> (codes \<noteq> [] \<and> terminal (last codes)) \<or> \<not> upload \<and> STORED \<in> set codes)"
  using follow_reports [OF assms(1)] assms(2) by simp

text \<open>
  C21. No accepted event is forgotten: after a poll a lifecycle is still followed only if its
  event is neither failed nor uploaded on disk, is not yet reported stored where there is
  nothing to upload, and is complete or at most five minutes old.
\<close>

theorem poll_keeps_only_open:
  assumes "pollEventLifecycles ros now n w = (es, n')" "(k, lc) \<in> set (eventLifecycles n')"
  shows "\<not> pathExists (disk w) (lc_directory lc @ [''.failed'']) \<and> \<not> pathExists (disk w) (lc_directory lc @ [''.uploaded'']) \<and>
    (uploadEnabled n \<or> \<not> storedPublished lc) \<and>
    (pathExists (disk w) (lc_directory lc @ [''.complete'']) \<or> now - lc_acceptedAt lc \<le> fiveMinutes)"
proof -
  have "(k, lc) \<in> set (snd (pollEntries ros now (uploadEnabled n) (uploadFailureAutoRetry n) (disk w) (eventLifecycles n)))"
    using assms by (auto simp: pollEventLifecycles_def case_prod_beta)
  from pollEntries_kept [OF this] obtain lc0 codes where
    kept: "pollLifecycle (uploadEnabled n) (uploadFailureAutoRetry n) now (seenMarkers (disk w) (lc_directory lc0)) lc0 = (codes, Some lc)"
    by blast
  from pollLifecycle_kept [OF kept] pollLifecycle_directory [OF kept] show ?thesis by (auto simp: seenMarkers_def)
qed

text \<open>
  The time-out does not know the length of the window: an event whose window after the event
  is longer than five minutes is reported failed while it is still being captured, and
  no longer followed when it completes.
\<close>

lemma long_window_reported_failed:
  assumes "(k, lc) \<in> set (eventLifecycles n)" "now - lc_acceptedAt lc > fiveMinutes"
    and "\<not> pathExists (disk w) (lc_directory lc @ [''.complete''])" "\<not> pathExists (disk w) (lc_directory lc @ [''.failed''])"
    and "\<not> pathExists (disk w) (lc_directory lc @ [''.uploaded''])" "\<not> pathExists (disk w) (lc_directory lc @ [''.upload_failed''])"
    and "\<not> storedPublished lc"
  shows "eventStatus ros (lc_eventName lc) (lc_triggerId lc) (lc_source lc) RECORD_FAILED
      ''recording did not complete before timeout'' (lc_captureId lc) (lc_directory lc) \<in> set (fst (pollEventLifecycles ros now n w))"
proof -
  have "pollLifecycle (uploadEnabled n) (uploadFailureAutoRetry n) now (seenMarkers (disk w) (lc_directory lc)) lc =
      ([(RECORD_FAILED, ''recording did not complete before timeout'')], None)"
    using assms by (simp add: pollLifecycle_def seenMarkers_def Let_def)
  from pollEntries_reported [OF assms(1) this] show ?thesis by (simp add: pollEventLifecycles_def case_prod_beta)
qed

lemma window_not_due:
  "postSeconds (monitorConfig m) e = 400 \<Longrightarrow> 0 \<le> sensorStallGrace m \<Longrightarrow> steadyNow t + 350 * 1000000000 > s \<Longrightarrow>
   \<not> dueCapture s (Some (captureMoment t c + 350 * 1000000000)) (captureTask t e m c)"
  by (simp add: dueCapture_def captureTask_def secondsNs_def Let_def)

section \<open>A sample node\<close>

definition sampleCacheNode :: CacheNode where
  "sampleCacheNode = \<lparr>nodeConfig = newConfigManager, sensorNode = sampleNode, eventMonitor = sampleMonitor,
     eventCallbacks = registerEvent ''e'' (recordDataAroundEvent sampleTimes ''e'') [], uploadEnabled = True,
     uploadFailureAutoRetry = True, triggerDedupeTtl = 1000, eventLifecycles = [], triggerResponses = [],
     nextDirectTriggerId = 0\<rparr>"

definition sampleNodeClocks :: "int \<Rightarrow> NodeClocks" where
  "sampleNodeClocks s = \<lparr>rosNow = s, steadyStart = s, steadyEnd = s, captureClocks = sampleTimes\<rparr>"

definition sampleTrigger :: TriggerRequest where
  "sampleTrigger = \<lparr>rq_event_name = ''e'', rq_trigger_id = ''id'', rq_source = ''test''\<rparr>"

lemma sample_settled: "settled (sampleNodeClocks s) sampleTrigger sampleCacheNode = (''id'', sampleCacheNode)"
  by (simp add: settled_def identifyTrigger_def sampleTrigger_def pruneResponses_def sampleCacheNode_def)

lemma sample_accepted:
  "\<exists>r es n w. handleTrigger (sampleNodeClocks s) sampleTrigger sampleCacheNode sampleRoot = (r, es, n, w) \<and> rs_success r"
proof -
  obtain q m c w where q: "recordDataAroundEventDetailed sampleTimes ''e'' sampleMonitor (core sampleNode) sampleRoot = (q, m, c, w)"
    "capture_accepted q" using sample_request by blast
  have new: "map_of (triggerResponses sampleCacheNode) ''id'' = None" by (simp add: sampleCacheNode_def)
  have "handleTrigger (sampleNodeClocks s) sampleTrigger sampleCacheNode sampleRoot =
      captureTrigger (sampleNodeClocks s) ''e'' ''id'' ''test'' sampleCacheNode sampleRoot"
    by (subst handleTrigger_new [OF sample_settled new])
      (simp add: sampleTrigger_def triggerSource_def sampleCacheNode_def hasEvent_def registerEvent_def)
  moreover have "recordDataAroundEventDetailed (captureClocks (sampleNodeClocks s)) ''e'' (eventMonitor sampleCacheNode)
      (core (sensorNode sampleCacheNode)) sampleRoot = (q, m, c, w)"
    by (simp add: sampleNodeClocks_def sampleCacheNode_def q)
  ultimately show ?thesis using q(2) by (auto simp: captureTrigger_def Let_def)
qed

lemma sample_fresh: "captureName e k ns \<notin> fst ` set (activeCaptures (eventMonitor sampleCacheNode))"
  by (simp add: sampleCacheNode_def sampleMonitor_simps)

theorem trigger_answered_once_witness:
  "\<exists>r es n w n' w'. handleTrigger (sampleNodeClocks 1) sampleTrigger sampleCacheNode sampleRoot = (r, es, n, w) \<and> rs_success r \<and>
     handleTrigger (sampleNodeClocks 900) sampleTrigger n w = (r, [], n', w') \<and> eventMonitor n' = eventMonitor n"
proof -
  obtain r es n w where one: "handleTrigger (sampleNodeClocks 1) sampleTrigger sampleCacheNode sampleRoot = (r, es, n, w)" "rs_success r"
    using sample_accepted by blast
  obtain r' es' n' w' where two: "handleTrigger (sampleNodeClocks 900) sampleTrigger n w = (r', es', n', w')" using prod_cases4 by blast
  have new: "map_of (triggerResponses sampleCacheNode) ''id'' = None" by (simp add: sampleCacheNode_def)
  from trigger_answered_once [OF sample_settled new one(1) serveTriggers.simps(1) _ _ _ two] one two show ?thesis
    by (fastforce simp: sampleNodeClocks_def sampleCacheNode_def sampleTrigger_def)
qed

theorem new_trigger_reported_witness:
  "\<exists>r es n w. handleTrigger (sampleNodeClocks 1) sampleTrigger sampleCacheNode sampleRoot = (r, es, n, w) \<and>
     map st_status es = [ACCEPTED] \<and> map_of (eventLifecycles n) ''id'' \<noteq> None"
proof -
  obtain r es n w where one: "handleTrigger (sampleNodeClocks 1) sampleTrigger sampleCacheNode sampleRoot = (r, es, n, w)" "rs_success r"
    using sample_accepted by blast
  have new: "map_of (triggerResponses sampleCacheNode) ''id'' = None" by (simp add: sampleCacheNode_def)
  from new_trigger_reported [OF sample_settled new one(1) sample_fresh] one show ?thesis
    by (auto simp: eventStatus_def)
qed

definition sampleLifecycle :: EventLifecycle where
  "sampleLifecycle = \<lparr>lc_eventName = ''e'', lc_triggerId = ''id'', lc_source = ''test'', lc_captureId = ''e_0_5'',
     lc_directory = [''records'', ''e_0_5''], lc_acceptedAt = 0, storedPublished = False, uploadFailurePublished = False\<rparr>"

theorem lifecycle_reports_consistent_witness:
  "\<exists>codes kept. followLifecycle True True [(1, \<lparr>seen_complete = True, seen_failed = False, seen_uploaded = False, seen_upload_failed = True\<rparr>),
       (2, \<lparr>seen_complete = True, seen_failed = False, seen_uploaded = True, seen_upload_failed = False\<rparr>)] sampleLifecycle = (codes, kept) \<and>
     codes = [STORED, UPLOAD_RETRYING, UPLOADED] \<and> length (filter terminal codes) \<le> 1"
proof -
  have run: "followLifecycle True True [(1, \<lparr>seen_complete = True, seen_failed = False, seen_uploaded = False, seen_upload_failed = True\<rparr>),
       (2, \<lparr>seen_complete = True, seen_failed = False, seen_uploaded = True, seen_upload_failed = False\<rparr>)] sampleLifecycle =
      ([STORED, UPLOAD_RETRYING, UPLOADED], None)"
    by (simp add: pollLifecycle_def sampleLifecycle_def)
  from lifecycle_reports_consistent [OF run] run show ?thesis by (simp add: sampleLifecycle_def)
qed

theorem poll_keeps_only_open_witness:
  "\<exists>es n. pollEventLifecycles 3 3 (sampleCacheNode\<lparr>eventLifecycles := [(''id'', sampleLifecycle)]\<rparr>) sampleRoot = (es, n) \<and>
     eventLifecycles n = [(''id'', sampleLifecycle)] \<and> 3 - lc_acceptedAt sampleLifecycle \<le> fiveMinutes"
proof -
  let ?n = "sampleCacheNode\<lparr>eventLifecycles := [(''id'', sampleLifecycle)]\<rparr>"
  have run: "pollEventLifecycles 3 3 ?n sampleRoot = ([], ?n)"
    by (simp add: pollEventLifecycles_def pollLifecycle_def seenMarkers_def sampleLifecycle_def sampleRoot_def pathExists_def
        lookup_def sampleCacheNode_def fiveMinutes_def)
  from poll_keeps_only_open [OF run, of "''id''" sampleLifecycle] run show ?thesis
    by (auto simp: sampleRoot_def pathExists_def lookup_def)
qed

end
