(* ===== verification/Upload_Worker.thy ===== *)
theory Upload_Worker
  imports Checksum Disk_Space Config Event_Messages
begin

text \<open>
  \<open>upload_worker.hpp\<close>: the thread that sends complete event directories to a receiver by
  the \<open>UploadStore\<close> service, with a lease per directory, retries and a failure marker.
  The receiver and the ROS client are an argument \<open>client\<close>: for a request it gives what the
  waiting loop of \<open>call\<close> sees.  What the file streams deliver during a transfer is an
  argument as well, so that files that change or cannot be read are covered.
\<close>

section \<open>Requests and state\<close>

datatype Opcode = BEGIN | FILE_CHUNK | END

record UploadRequest =
  up_event_name :: string
  up_transfer_id :: string
  up_opcode :: Opcode
  up_file_path :: string
  up_offset :: nat
  up_total_bytes :: nat
  up_file_count :: nat
  up_data :: string

definition emptyRequest :: "string \<Rightarrow> string \<Rightarrow> Opcode \<Rightarrow> UploadRequest" where
  "emptyRequest event transferId opcode =
     \<lparr>up_event_name = event, up_transfer_id = transferId, up_opcode = opcode, up_file_path = [],
      up_offset = 0, up_total_bytes = 0, up_file_count = 0, up_data = []\<rparr>"

record UploadResponse =
  ur_success :: bool
  ur_message :: string
  ur_received_bytes :: nat

record UploadConfig =
  serviceName :: string
  timeoutSeconds :: int
  maxRetries :: int
  scanPeriod :: int
  retryBackoff :: int
  chunkBytes :: nat
  leaseTimeout :: int
  failedRescanPeriod :: int

record RetryState =
  attempts :: nat
  nextAttempt :: int

record UploadWorker =
  uploadRoot :: path
  uploadConfig :: UploadConfig
  pendingUploads :: "path \<Rightarrow> RetryState option"
  uploadStopping :: bool
  uploadStarted :: bool
  nextTransferId :: "64 word"

definition kMaxChunkBytes :: nat where
  "kMaxChunkBytes = 1024 * 1024"

definition newUploadWorker :: "path \<Rightarrow> UploadConfig \<Rightarrow> UploadWorker" where
  "newUploadWorker root cfg =
     \<lparr>uploadRoot = root,
      uploadConfig = (if chunkBytes cfg = 0 \<or> chunkBytes cfg > kMaxChunkBytes
        then cfg\<lparr>chunkBytes := max 1 (min (chunkBytes cfg) kMaxChunkBytes)\<rparr> else cfg),
      pendingUploads = Map.empty, uploadStopping = False, uploadStarted = False, nextTransferId = 0\<rparr>"

text \<open>Starting is possible once and not after a stop; the result is whether a thread starts.\<close>

definition startUploads :: "UploadWorker \<Rightarrow> bool \<times> UploadWorker" where
  "startUploads u = (if uploadStarted u \<or> uploadStopping u then (False, u) else (True, u\<lparr>uploadStarted := True\<rparr>))"

definition stopUploads :: "UploadWorker \<Rightarrow> UploadWorker" where
  "stopUploads u = u\<lparr>uploadStopping := True\<rparr>"

text \<open>The settings the cache node reads; periods in nanoseconds.\<close>

definition uploaderConfig :: "ConfigManager \<Rightarrow> UploadConfig" where
  "uploaderConfig cfg =
     \<lparr>serviceName = (if getConfig cfg ''upload_service_name'' = [] then ''/upload_store'' else getConfig cfg ''upload_service_name''),
      timeoutSeconds = max 1 (getIntConfig cfg ''upload_timeout_s'' 30),
      maxRetries = max 0 (getIntConfig cfg ''upload_max_retries'' 5),
      scanPeriod = max 100 (getIntConfig cfg ''upload_scan_period_ms'' 2000) * 1000000,
      retryBackoff = max 1000 (getIntConfig cfg ''upload_retry_backoff_ms'' 15000) * 1000000,
      chunkBytes = 512 * 1024,
      leaseTimeout = max 30 (getIntConfig cfg ''upload_lease_timeout_s'' 300) * 1000000000,
      failedRescanPeriod = max 0 (getIntConfig cfg ''upload_failed_rescan_period_ms'' 1800000) * 1000000\<rparr>"

section \<open>The lease\<close>

definition leaseStart :: "string \<Rightarrow> int option" where
  "leaseStart content =
     (let key = takeWhile (\<lambda>c. c \<noteq> CHR ''='') content
      in if content \<noteq> [] \<and> key = ''started_at_ns'' then map_option fst (stoll (drop (Suc (length key)) content)) else None)"

definition leaseActive :: "int \<Rightarrow> int \<Rightarrow> path \<Rightarrow> World \<Rightarrow> bool \<times> World" where
  "leaseActive timeout now directory w =
     (case readFile (disk w) (directory @ [''.uploading'']) of None \<Rightarrow> (False, w)
      | Some content \<Rightarrow>
          (case leaseStart content of
             Some startedAt \<Rightarrow>
               if now - startedAt \<ge> 0 \<and> now - startedAt < timeout then (True, w)
               else (False, snd (removePath (directory @ [''.uploading'']) w))
           | None \<Rightarrow> (False, snd (removePath (directory @ [''.uploading'']) w))))"

definition acquireLease :: "int \<Rightarrow> int \<Rightarrow> path \<Rightarrow> World \<Rightarrow> bool \<times> World" where
  "acquireLease timeout now directory w =
     (case leaseActive timeout now directory w of
        (True, w') \<Rightarrow> (False, w')
      | (False, w') \<Rightarrow> writeAtomically (directory @ [''.uploading'']) (''started_at_ns='' @ int_to_string now @ [newline]) w')"

section \<open>Candidates\<close>

text \<open>
  One entry of the scan.  \<open>markerAge\<close> is the time since a file was last written, \<open>None\<close>
  where it cannot be read.
\<close>

definition candidateEntry :: "UploadConfig \<Rightarrow> int \<Rightarrow> (path \<Rightarrow> int option) \<Rightarrow> path \<Rightarrow> path list \<times> World \<Rightarrow> path list \<times> World" where
  "candidateEntry cfg now markerAge directory = (\<lambda>(candidates, w).
     if \<not> isDirectory (disk w) directory then (candidates, w)
     else (case leaseActive (leaseTimeout cfg) now directory w of
         (True, w1) \<Rightarrow> (candidates, w1)
       | (False, w1) \<Rightarrow>
           let failedMarker = directory @ [''.upload_failed''] in
           if pathExists (disk w1) (directory @ [''.uploaded'']) \<or> \<not> pathExists (disk w1) (directory @ [''.complete''])
           then (candidates, w1)
           else if \<not> pathExists (disk w1) failedMarker then (candidates @ [directory], w1)
           else if failedRescanPeriod cfg \<le> 0 then (candidates, w1)
           else (case markerAge failedMarker of None \<Rightarrow> (candidates, w1)
               | Some age \<Rightarrow>
                   if age < failedRescanPeriod cfg then (candidates, w1)
                   else (case removePath failedMarker w1 of
                       (False, w2) \<Rightarrow> (candidates, w2)
                     | (True, w2) \<Rightarrow> (candidates @ [directory], w2)))))"

definition findUploadCandidates :: "UploadConfig \<Rightarrow> int \<Rightarrow> (path \<Rightarrow> int option) \<Rightarrow> path \<Rightarrow> World \<Rightarrow> path list \<times> World" where
  "findUploadCandidates cfg now markerAge root w =
     fold (candidateEntry cfg now markerAge) (entries (disk w) root) ([], w)"

section \<open>One call of the service\<close>

text \<open>
  What \<open>call\<close> sees: whether the service is known, the time of sending, its wake-ups and the
  future's content.  Where the wake-ups end before the loop does there is no response.
\<close>

record CallTick =
  tick_ready :: bool
  tick_stopping :: bool
  tick_now :: int

record Exchange =
  ex_serviceReady :: bool
  ex_sentAt :: int
  ex_ticks :: "CallTick list"
  ex_reply :: "string + UploadResponse"

fun awaitReply :: "int \<Rightarrow> CallTick list \<Rightarrow> bool option" where
  "awaitReply deadline [] = None"
| "awaitReply deadline (t # ts) =
     (if tick_ready t then Some True
      else if tick_stopping t then Some False
      else if tick_now t \<ge> deadline then Some False
      else awaitReply deadline ts)"

definition callResult :: "UploadConfig \<Rightarrow> Exchange \<Rightarrow> UploadResponse option" where
  "callResult cfg ex =
     (if \<not> ex_serviceReady ex then None
      else if awaitReply (ex_sentAt ex + timeoutSeconds cfg * 1000000000) (ex_ticks ex) = Some True
      then (case ex_reply ex of Inl e \<Rightarrow> None | Inr response \<Rightarrow> Some response)
      else None)"

type_synonym 'r client = "UploadRequest \<Rightarrow> 'r \<Rightarrow> Exchange \<times> 'r"

definition call :: "UploadConfig \<Rightarrow> 'r client \<Rightarrow> UploadRequest \<Rightarrow> 'r \<Rightarrow> UploadResponse option \<times> 'r" where
  "call cfg client request r = (let (ex, r') = client request r in (callResult cfg ex, r'))"

definition callOk :: "UploadConfig \<Rightarrow> 'r client \<Rightarrow> UploadRequest \<Rightarrow> 'r \<Rightarrow> bool \<times> 'r" where
  "callOk cfg client request r =
     (let (response, r') = call cfg client request r
      in (case response of None \<Rightarrow> False | Some response \<Rightarrow> ur_success response, r'))"

section \<open>A transfer\<close>

text \<open>What the program learns of a file: its size before, what the stream delivers, its size after.\<close>

record FileView =
  view_size :: "nat option"
  view_bytes :: "string option"
  view_final :: "nat option"

record UploadView =
  walkComplete :: bool
  fileView :: "path \<Rightarrow> FileView"

definition quietView :: "disk \<Rightarrow> UploadView" where
  "quietView d = \<lparr>walkComplete = True, fileView = (\<lambda>p.
     \<lparr>view_size = map_option length (readFile d p), view_bytes = readFile d p,
      view_final = map_option length (readFile d p)\<rparr>)\<rparr>"

definition isMarkerOrTemp :: "string \<Rightarrow> bool" where
  "isMarkerOrTemp name \<longleftrightarrow> (length name > 1 \<and> hd name = CHR ''.'') \<or> extension name = ''.tmp''"

definition collectFiles :: "disk \<Rightarrow> path \<Rightarrow> path list" where
  "collectFiles d directory =
     sort (filter (\<lambda>q. readFile d q \<noteq> None \<and> \<not> isMarkerOrTemp (last q)) (below d directory))"

definition transferIdFor :: "int \<Rightarrow> path \<Rightarrow> UploadWorker \<Rightarrow> World \<Rightarrow> string \<times> UploadWorker \<times> World" where
  "transferIdFor now directory u w =
     (let marker = directory @ [''.upload_id''];
          old = (case readFile (disk w) marker of None \<Rightarrow> [] | Some content \<Rightarrow> takeWhile (\<lambda>c. c \<noteq> newline) content)
      in if old \<noteq> [] then (old, u, w)
         else
           let transferId = int_to_string now @ ''-'' @ nat_to_string (unat (nextTransferId u));
               u' = u\<lparr>nextTransferId := nextTransferId u + 1\<rparr>;
               (written, w') = writeAtomically marker (transferId @ [newline]) w
           in (if written then transferId else [], u', w'))"

record FileInfo =
  fi_path :: path
  fi_relative :: string
  fi_size :: nat

text \<open>The sizes, refused where one is unknown or the 64-bit sum would overflow.\<close>

primrec measureFiles :: "(path \<Rightarrow> FileView) \<Rightarrow> path \<Rightarrow> path list \<Rightarrow> nat \<Rightarrow> (FileInfo list \<times> nat) option" where
  "measureFiles v directory [] totalBytes = Some ([], totalBytes)"
| "measureFiles v directory (f # fs) totalBytes =
     (case view_size (v f) of None \<Rightarrow> None
      | Some n \<Rightarrow>
          if n > SIZE_MAX - totalBytes then None
          else map_option (\<lambda>(infos, total). (\<lparr>fi_path = f, fi_relative = relativeText directory f, fi_size = n\<rparr> # infos, total))
                 (measureFiles v directory fs (totalBytes + n)))"

definition chunkRequest :: "string \<Rightarrow> string \<Rightarrow> FileInfo \<Rightarrow> nat \<Rightarrow> string \<Rightarrow> UploadRequest" where
  "chunkRequest event transferId f offset data =
     (emptyRequest event transferId FILE_CHUNK)\<lparr>up_file_path := fi_relative f, up_offset := offset,
        up_total_bytes := fi_size f, up_data := data\<rparr>"

text \<open>The reading loop: the bytes still to come; \<open>None\<close> where a request fails.\<close>

function sendChunks :: "UploadConfig \<Rightarrow> 'r client \<Rightarrow> (nat \<Rightarrow> string \<Rightarrow> UploadRequest) \<Rightarrow> nat \<Rightarrow> nat \<Rightarrow> string \<Rightarrow> 'r \<Rightarrow> nat option \<times> 'r" where
  "sendChunks cfg client request fileSize offset bytes r =
     (if offset < fileSize then
        let got = take (chunkBytes cfg) bytes in
        if got = [] then (Some offset, r)
        else
          let (ok, r') = callOk cfg client (request offset got) r
          in if \<not> ok then (None, r')
             else sendChunks cfg client request fileSize (offset + length got) (drop (chunkBytes cfg) bytes) r'
      else (Some offset, r))"
  by pat_completeness auto
termination
  by (relation "measure (\<lambda>(cfg, client, request, fileSize, offset, bytes, r). length bytes)") auto

declare sendChunks.simps [simp del]

definition sendFile :: "UploadConfig \<Rightarrow> 'r client \<Rightarrow> string \<Rightarrow> string \<Rightarrow> (path \<Rightarrow> FileView) \<Rightarrow> FileInfo \<Rightarrow> 'r \<Rightarrow> nat option \<times> 'r" where
  "sendFile cfg client event transferId v f r =
     (case view_bytes (v (fi_path f)) of None \<Rightarrow> (None, r)
      | Some bytes \<Rightarrow>
          let (opened, r1) = (if fi_size f = 0
              then callOk cfg client ((emptyRequest event transferId FILE_CHUNK)\<lparr>up_file_path := fi_relative f\<rparr>) r
              else (True, r))
          in if \<not> opened then (None, r1)
             else (case sendChunks cfg client (chunkRequest event transferId f) (fi_size f) 0 bytes r1 of
                 (None, r2) \<Rightarrow> (None, r2)
               | (Some offset, r2) \<Rightarrow>
                   if offset \<noteq> fi_size f \<or> view_final (v (fi_path f)) \<noteq> Some (fi_size f) then (None, r2) else (Some offset, r2)))"

primrec sendFiles :: "UploadConfig \<Rightarrow> 'r client \<Rightarrow> string \<Rightarrow> string \<Rightarrow> (path \<Rightarrow> FileView) \<Rightarrow> FileInfo list \<Rightarrow> nat \<Rightarrow> 'r \<Rightarrow> nat option \<times> 'r" where
  "sendFiles cfg client event transferId v [] sentBytes r = (Some sentBytes, r)"
| "sendFiles cfg client event transferId v (f # fs) sentBytes r =
     (case sendFile cfg client event transferId v f r of
        (None, r') \<Rightarrow> (None, r')
      | (Some n, r') \<Rightarrow> sendFiles cfg client event transferId v fs (sentBytes + n) r')"

text \<open>From \<open>BEGIN\<close> to \<open>END\<close>.\<close>

definition conversation :: "UploadConfig \<Rightarrow> 'r client \<Rightarrow> string \<Rightarrow> string \<Rightarrow> (path \<Rightarrow> FileView) \<Rightarrow> FileInfo list \<Rightarrow> nat \<Rightarrow> 'r \<Rightarrow> bool \<times> 'r" where
  "conversation cfg client event transferId v infos totalBytes r =
     (let (begun, r1) = callOk cfg client ((emptyRequest event transferId BEGIN)
            \<lparr>up_file_count := length infos, up_total_bytes := totalBytes\<rparr>) r
      in if \<not> begun then (False, r1)
         else (case sendFiles cfg client event transferId v infos 0 r1 of
             (None, r2) \<Rightarrow> (False, r2)
           | (Some sentBytes, r2) \<Rightarrow>
               (case call cfg client (emptyRequest event transferId END) r2 of
                  (None, r3) \<Rightarrow> (False, r3)
                | (Some response, r3) \<Rightarrow> (ur_success response \<and> ur_received_bytes response = sentBytes, r3))))"

definition transferDirectory :: "UploadWorker \<Rightarrow> 'r client \<Rightarrow> UploadView \<Rightarrow> int \<Rightarrow> path \<Rightarrow> World \<Rightarrow> 'r \<Rightarrow>
    bool \<times> UploadWorker \<times> World \<times> 'r" where
  "transferDirectory u client view now directory w r =
     (let files = collectFiles (disk w) directory in
      if \<not> walkComplete view then (False, u, w, r)
      else if files = [] then (False, u, w, r)
      else
        let (transferId, u1, w1) = transferIdFor now directory u w in
        if transferId = [] then (False, u1, w1, r)
        else if length files > 2 ^ 32 - 1 then (False, u1, w1, r)
        else (case measureFiles (fileView view) directory files 0 of
            None \<Rightarrow> (False, u1, w1, r)
          | Some (infos, totalBytes) \<Rightarrow>
              let (ok, r') = conversation (uploadConfig u) client (last directory) transferId (fileView view) infos totalBytes r
              in (ok, u1, w1, r')))"

text \<open>The lease is dropped when the function returns, after the marker is written.\<close>

definition uploadDirectory :: "UploadWorker \<Rightarrow> 'r client \<Rightarrow> UploadView \<Rightarrow> int \<Rightarrow> path \<Rightarrow> World \<Rightarrow> 'r \<Rightarrow>
    bool \<times> UploadWorker \<times> World \<times> 'r" where
  "uploadDirectory u client view now directory w r =
     (case acquireLease (leaseTimeout (uploadConfig u)) now directory w of
        (False, w1) \<Rightarrow> (False, u, w1, r)
      | (True, w1) \<Rightarrow>
          (case transferDirectory u client view now directory w1 r of
             (ok, u2, w2, r2) \<Rightarrow>
               let (marked, w3) = (if \<not> ok then (False, w2)
                     else writeAtomically (directory @ [''.uploaded''])
                       (''service='' @ serviceName (uploadConfig u) @ [newline] @ ''files='' @
                        nat_to_string (length (collectFiles (disk w2) directory)) @ [newline]) w2)
               in (marked, u2, snd (removePath (directory @ [''.uploading'']) w3), r2)))"

section \<open>The thread\<close>

text \<open>What one visit of a candidate depends on besides the state.\<close>

record Visit =
  stopBefore :: bool
  stopAfter :: bool
  uploadNow :: int
  failureNow :: int
  uploadView :: UploadView

definition retryDelay :: "UploadConfig \<Rightarrow> nat \<Rightarrow> int" where
  "retryDelay cfg n = retryBackoff cfg * 2 ^ min (n - 1) 6"

definition noteFailure :: "int \<Rightarrow> path \<Rightarrow> UploadWorker \<Rightarrow> World \<Rightarrow> UploadWorker \<times> World" where
  "noteFailure now directory u w =
     (let cfg = uploadConfig u;
          n = Suc (case pendingUploads u directory of None \<Rightarrow> 0 | Some st \<Rightarrow> attempts st);
          (marked, w1) = (if maxRetries cfg > 0 \<and> int n \<ge> maxRetries cfg
            then writeAtomically (directory @ [''.upload_failed'']) (''attempts='' @ nat_to_string n @ [newline]) w
            else (False, w))
      in if marked then (u\<lparr>pendingUploads := (pendingUploads u)(directory := None)\<rparr>, w1)
         else (u\<lparr>pendingUploads := (pendingUploads u)(directory \<mapsto> \<lparr>attempts = n, nextAttempt = now + retryDelay cfg n\<rparr>)\<rparr>, w1))"

text \<open>The loop over the candidates; the first component is whether the thread goes on.\<close>

primrec visitCandidates :: "'r client \<Rightarrow> int \<Rightarrow> (path \<times> Visit) list \<Rightarrow> UploadWorker \<Rightarrow> World \<Rightarrow> 'r \<Rightarrow>
    bool \<times> UploadWorker \<times> World \<times> 'r" where
  "visitCandidates client scanNow [] u w r = (True, u, w, r)"
| "visitCandidates client scanNow (x # xs) u w r =
     (let directory = fst x; v = snd x in
      if stopBefore v then (False, u, w, r)
      else if (case pendingUploads u directory of None \<Rightarrow> False | Some st \<Rightarrow> scanNow < nextAttempt st)
      then visitCandidates client scanNow xs u w r
      else (case uploadDirectory u client (uploadView v) (uploadNow v) directory w r of
          (True, u1, w1, r1) \<Rightarrow>
            visitCandidates client scanNow xs (u1\<lparr>pendingUploads := (pendingUploads u1)(directory := None)\<rparr>) w1 r1
        | (False, u1, w1, r1) \<Rightarrow>
            if stopAfter v then (False, u1, w1, r1)
            else
              let (u2, w2) = noteFailure (failureNow v) directory u1 w1
              in visitCandidates client scanNow xs u2 w2 r1))"

definition scanOnce :: "'r client \<Rightarrow> int \<Rightarrow> int \<Rightarrow> (path \<Rightarrow> int option) \<Rightarrow> (path \<Rightarrow> Visit) \<Rightarrow> UploadWorker \<Rightarrow> World \<Rightarrow> 'r \<Rightarrow>
    bool \<times> UploadWorker \<times> World \<times> 'r" where
  "scanOnce client scanNow now markerAge visit u w r =
     (let (candidates, w1) = findUploadCandidates (uploadConfig u) now markerAge (uploadRoot u) w;
          (goOn, u2, w2, r2) = visitCandidates client scanNow (map (\<lambda>d. (d, visit d)) candidates) u w1 r
      in (goOn \<and> \<not> uploadStopping u2, u2, w2, r2))"

section \<open>What is sent\<close>

text \<open>The client with a log of the requests and of what \<open>call\<close> returned for them.\<close>

type_synonym call_log = "(UploadRequest \<times> UploadResponse option) list"

definition logged :: "UploadConfig \<Rightarrow> 'r client \<Rightarrow> (call_log \<times> 'r) client" where
  "logged cfg client q s = (case client q (snd s) of (ex, r') \<Rightarrow> (ex, (fst s @ [(q, callResult cfg ex)], r')))"

definition confirmed :: "UploadRequest list \<Rightarrow> call_log \<Rightarrow> bool" where
  "confirmed qs l \<longleftrightarrow> map fst l = qs \<and> (\<forall>x\<in>set l. \<exists>a. snd x = Some a \<and> ur_success a)"

lemma confirmed_append: "confirmed qs l \<Longrightarrow> confirmed qs' l' \<Longrightarrow> confirmed (qs @ qs') (l @ l')"
  by (auto simp: confirmed_def)

lemma confirmed_Nil [simp]: "confirmed [] []"
  by (simp add: confirmed_def)

lemma callOk_logged:
  assumes "callOk cfg (logged cfg client) q s = (True, s')"
  shows "\<exists>l. fst s' = fst s @ l \<and> confirmed [q] l"
  using assms by (auto simp: callOk_def call_def logged_def confirmed_def split: prod.splits option.splits)

function chunksFrom :: "nat \<Rightarrow> nat \<Rightarrow> string \<Rightarrow> (nat \<times> string) list" where
  "chunksFrom n offset s =
     (if s = [] \<or> n = 0 then [] else (offset, take n s) # chunksFrom n (offset + length (take n s)) (drop n s))"
  by pat_completeness auto
termination
  by (relation "measure (\<lambda>(n, offset, s). length s)") auto

declare chunksFrom.simps [simp del]

lemma chunksFrom_reassemble:
  "0 < n \<Longrightarrow> concat (map snd (chunksFrom n offset s)) = s \<and> (\<forall>(o', d)\<in>set (chunksFrom n offset s). d \<noteq> [] \<and> length d \<le> n)"
proof (induction n offset s rule: chunksFrom.induct)
  case (1 n offset s)
  show ?case
  proof (cases "s = []")
    case True
    then show ?thesis by (simp add: chunksFrom.simps [of n offset "[]"])
  next
    case False
    with 1 show ?thesis by (simp add: chunksFrom.simps [of n offset s])
  qed
qed

lemma sendChunks_sends:
  assumes "sendChunks cfg (logged cfg client) rq fileSize offset bytes s = (Some fileSize, s')" "offset \<le> fileSize" "0 < chunkBytes cfg"
  shows "fileSize - offset \<le> length bytes \<and> (\<exists>l. fst s' = fst s @ l \<and>
    confirmed (map (\<lambda>(o', d). rq o' d) (chunksFrom (chunkBytes cfg) offset (take (fileSize - offset) bytes))) l)"
  using assms
proof (induction cfg "logged cfg client" rq fileSize offset bytes s rule: sendChunks.induct)
  case (1 cfg rq fileSize offset bytes s)
  let ?n = "chunkBytes cfg" and ?got = "take (chunkBytes cfg) bytes"
  show ?case
  proof (cases "offset < fileSize")
    case False
    with "1.prems" show ?thesis by (simp add: sendChunks.simps [of cfg _ rq] chunksFrom.simps)
  next
    case True
    have got: "?got \<noteq> []"
    proof
      assume "?got = []"
      with True "1.prems"(1) show False by (simp add: sendChunks.simps [of cfg _ rq fileSize offset] Let_def)
    qed
    obtain ok s1 where c: "callOk cfg (logged cfg client) (rq offset ?got) s = (ok, s1)"
      by (cases "callOk cfg (logged cfg client) (rq offset ?got) s") simp
    have run: "ok" "sendChunks cfg (logged cfg client) rq fileSize (offset + length ?got) (drop ?n bytes) s1 = (Some fileSize, s')"
      using "1.prems"(1) True got c by (auto simp: sendChunks.simps [of cfg _ rq fileSize offset] Let_def split: if_splits)
    have le: "offset + length ?got \<le> fileSize"
    proof (rule ccontr)
      assume "\<not> ?thesis"
      with run(2) show False by (subst (asm) sendChunks.simps) simp
    qed
    from "1.hyps" [OF True refl got c [symmetric] refl] run le "1.prems"(3) obtain l where
      rest: "fileSize - (offset + length ?got) \<le> length (drop ?n bytes)" "fst s' = fst s1 @ l"
        "confirmed (map (\<lambda>(o', d). rq o' d) (chunksFrom ?n (offset + length ?got) (take (fileSize - (offset + length ?got)) (drop ?n bytes)))) l"
      by auto
    obtain l1 where l1: "fst s1 = fst s @ l1" "confirmed [rq offset ?got] l1"
      using callOk_logged [of cfg client "rq offset ?got" s s1] c run(1) by auto
    let ?k = "fileSize - offset"
    have whole: "?k \<le> length bytes" using rest(1) le by simp
    have first: "take ?n (take ?k bytes) = ?got" "take (?k - length ?got) (drop ?n bytes) = drop ?n (take ?k bytes)"
      using le whole by (cases "length bytes \<le> ?n"; simp add: drop_take)+
    have "take ?k bytes \<noteq> []" using got True by auto
    then have "chunksFrom ?n offset (take ?k bytes) = (offset, ?got) # chunksFrom ?n (offset + length ?got) (drop ?n (take ?k bytes))"
      using "1.prems"(3) first(1) by (subst chunksFrom.simps) simp
    with confirmed_append [OF l1(2) rest(3)] l1(1) rest(2) whole first(2) show ?thesis
      by (intro conjI exI [of _ "l1 @ l"]) (simp_all add: diff_diff_add)
  qed
qed

text \<open>The requests for a file with the given content, and for a whole directory.\<close>

definition fileRequests :: "nat \<Rightarrow> string \<Rightarrow> string \<Rightarrow> FileInfo \<Rightarrow> string \<Rightarrow> UploadRequest list" where
  "fileRequests n event transferId f content =
     (if fi_size f = 0 then [(emptyRequest event transferId FILE_CHUNK)\<lparr>up_file_path := fi_relative f\<rparr>]
      else map (\<lambda>(o', d). chunkRequest event transferId f o' d) (chunksFrom n 0 content))"

definition contentOf :: "(path \<Rightarrow> FileView) \<Rightarrow> FileInfo \<Rightarrow> string" where
  "contentOf v f = (case view_bytes (v (fi_path f)) of None \<Rightarrow> [] | Some bytes \<Rightarrow> take (fi_size f) bytes)"

text \<open>The file could be read and had the announced size at the end.\<close>

definition steady :: "(path \<Rightarrow> FileView) \<Rightarrow> FileInfo \<Rightarrow> bool" where
  "steady v f \<longleftrightarrow> (\<exists>bytes. view_bytes (v (fi_path f)) = Some bytes \<and> fi_size f \<le> length bytes) \<and>
     view_final (v (fi_path f)) = Some (fi_size f)"

lemma fileRequests_reassemble:
  assumes "0 < n" "length content = fi_size f"
  shows "concat (map up_data (fileRequests n event transferId f content)) = content \<and>
    (\<forall>q\<in>set (fileRequests n event transferId f content). length (up_data q) \<le> n \<and> up_file_path q = fi_relative f \<and>
       up_total_bytes q = fi_size f \<and> up_opcode q = FILE_CHUNK)"
proof (cases "fi_size f = 0")
  case True
  with assms(2) show ?thesis by (simp add: fileRequests_def emptyRequest_def)
next
  case False
  have "up_data \<circ> (\<lambda>(o', d). chunkRequest event transferId f o' d) = snd"
    by (auto simp: fun_eq_iff chunkRequest_def)
  then have "concat (map up_data (fileRequests n event transferId f content)) = content"
    using False chunksFrom_reassemble [OF assms(1), of 0 content] by (simp add: fileRequests_def)
  moreover have "\<forall>q\<in>set (fileRequests n event transferId f content). length (up_data q) \<le> n \<and> up_file_path q = fi_relative f \<and>
       up_total_bytes q = fi_size f \<and> up_opcode q = FILE_CHUNK"
    using False chunksFrom_reassemble [OF assms(1), of 0 content]
    by (auto simp: fileRequests_def chunkRequest_def emptyRequest_def)
  ultimately show ?thesis ..
qed

lemma sendFile_sends:
  assumes "sendFile cfg (logged cfg client) event transferId v f s = (Some n, s')" "0 < chunkBytes cfg"
  shows "n = fi_size f \<and> steady v f \<and> (\<exists>l. fst s' = fst s @ l \<and> confirmed (fileRequests (chunkBytes cfg) event transferId f (contentOf v f)) l)"
proof -
  obtain bytes where bytes: "view_bytes (v (fi_path f)) = Some bytes"
    using assms(1) by (auto simp: sendFile_def split: option.splits)
  show ?thesis
  proof (cases "fi_size f = 0")
    case True
    obtain ok s1 where c: "callOk cfg (logged cfg client) ((emptyRequest event transferId FILE_CHUNK)\<lparr>up_file_path := fi_relative f\<rparr>) s = (ok, s1)"
      by (cases "callOk cfg (logged cfg client) ((emptyRequest event transferId FILE_CHUNK)\<lparr>up_file_path := fi_relative f\<rparr>) s") simp
    with assms(1) True bytes have "ok" "n = 0" "s' = s1" "view_final (v (fi_path f)) = Some 0"
      by (auto simp: sendFile_def sendChunks.simps [of cfg _ _ 0] Let_def split: if_splits)
    with c callOk_logged [of cfg client _ s s1] True bytes show ?thesis
      by (auto simp: fileRequests_def steady_def)
  next
    case False
    have run: "sendChunks cfg (logged cfg client) (chunkRequest event transferId f) (fi_size f) 0 bytes s = (Some (fi_size f), s')"
      "n = fi_size f" "view_final (v (fi_path f)) = Some (fi_size f)"
      using assms(1) False bytes by (auto simp: sendFile_def split: prod.splits option.splits if_splits)
    from sendChunks_sends [OF run(1) _ assms(2)] run(2,3) False bytes show ?thesis
      by (auto simp: fileRequests_def steady_def contentOf_def)
  qed
qed

lemma sendFiles_sends:
  assumes "sendFiles cfg (logged cfg client) event transferId v fs sent s = (Some n, s')" "0 < chunkBytes cfg"
  shows "n = sent + sum_list (map fi_size fs) \<and> (\<forall>f\<in>set fs. steady v f) \<and>
    (\<exists>l. fst s' = fst s @ l \<and> confirmed (concat (map (\<lambda>f. fileRequests (chunkBytes cfg) event transferId f (contentOf v f)) fs)) l)"
  using assms
proof (induction fs arbitrary: sent s)
  case (Cons f fs)
  obtain r s1 where one: "sendFile cfg (logged cfg client) event transferId v f s = (r, s1)"
    by (cases "sendFile cfg (logged cfg client) event transferId v f s") simp
  then obtain k where r: "r = Some k" using Cons.prems by (cases r) auto
  from sendFile_sends [OF one [unfolded r] assms(2)] obtain l1 where l1: "k = fi_size f" "steady v f" "fst s1 = fst s @ l1"
    "confirmed (fileRequests (chunkBytes cfg) event transferId f (contentOf v f)) l1" by blast
  have "sendFiles cfg (logged cfg client) event transferId v fs (sent + k) s1 = (Some n, s')"
    using Cons.prems one r by simp
  from Cons.IH [OF this assms(2)] obtain l where l: "n = sent + k + sum_list (map fi_size fs)" "\<forall>f\<in>set fs. steady v f"
    "fst s' = fst s1 @ l" "confirmed (concat (map (\<lambda>f. fileRequests (chunkBytes cfg) event transferId f (contentOf v f)) fs)) l" by blast
  from confirmed_append [OF l1(4) l(4)] l1 l show ?case by (auto intro!: exI [of _ "l1 @ l"])
qed simp

lemma conversation_sends:
  assumes "conversation cfg (logged cfg client) event transferId v infos totalBytes s = (True, s')" "0 < chunkBytes cfg"
  shows "(\<forall>f\<in>set infos. steady v f) \<and>
    (\<exists>l a. fst s' = fst s @ l @ [(emptyRequest event transferId END, Some a)] \<and> ur_success a \<and> ur_received_bytes a = sum_list (map fi_size infos) \<and>
       confirmed ((emptyRequest event transferId BEGIN)\<lparr>up_file_count := length infos, up_total_bytes := totalBytes\<rparr> #
         concat (map (\<lambda>f. fileRequests (chunkBytes cfg) event transferId f (contentOf v f)) infos)) l)"
proof -
  let ?first = "(emptyRequest event transferId BEGIN)\<lparr>up_file_count := length infos, up_total_bytes := totalBytes\<rparr>"
  obtain ok s1 where b: "callOk cfg (logged cfg client) ?first s = (ok, s1)"
    by (cases "callOk cfg (logged cfg client) ?first s") simp
  then have ok: "ok" using assms(1) by (cases ok) (auto simp: conversation_def)
  obtain l1 where l1: "fst s1 = fst s @ l1" "confirmed [?first] l1" using callOk_logged [of cfg client ?first s s1] b ok by auto
  obtain q s2 where f: "sendFiles cfg (logged cfg client) event transferId v infos 0 s1 = (q, s2)"
    by (cases "sendFiles cfg (logged cfg client) event transferId v infos 0 s1") simp
  then obtain n where q: "q = Some n" using assms(1) b ok by (cases q) (auto simp: conversation_def)
  from sendFiles_sends [OF f [unfolded q] assms(2)] obtain l2 where l2: "n = sum_list (map fi_size infos)" "\<forall>f\<in>set infos. steady v f"
    "fst s2 = fst s1 @ l2" "confirmed (concat (map (\<lambda>f. fileRequests (chunkBytes cfg) event transferId f (contentOf v f)) infos)) l2" by auto
  have "\<exists>a. fst s' = fst s2 @ [(emptyRequest event transferId END, Some a)] \<and> ur_success a \<and> ur_received_bytes a = n"
    using assms(1) b ok f q by (auto simp: conversation_def call_def logged_def Let_def split: prod.splits option.splits)
  then obtain a where "fst s' = fst s2 @ [(emptyRequest event transferId END, Some a)]" "ur_success a" "ur_received_bytes a = n" by blast
  with confirmed_append [OF l1(2) l2(4)] l1 l2 show ?thesis by (auto intro!: exI [of _ "l1 @ l2"])
qed

lemma measureFiles_infos:
  "measureFiles v directory fs sent = Some (infos, totalBytes) \<Longrightarrow> sent \<le> SIZE_MAX \<Longrightarrow>
     map fi_path infos = fs \<and> totalBytes = sent + sum_list (map fi_size infos) \<and> totalBytes \<le> SIZE_MAX \<and>
     (\<forall>f\<in>set infos. fi_relative f = relativeText directory (fi_path f) \<and> view_size (v (fi_path f)) = Some (fi_size f))"
  by (induction fs arbitrary: sent infos totalBytes) (fastforce split: option.splits if_splits)+

section \<open>The lease, the identifier and the files\<close>

lemma leaseStart_written:
  assumes "0 \<le> now" "in_int64 now"
  shows "leaseStart (''started_at_ns='' @ int_to_string now @ [newline]) = Some now"
proof -
  let ?ds = "nat_to_string (nat now)"
  have ds: "\<forall>c\<in>set ?ds. isdigit c" "?ds \<noteq> []" using nat_to_string_digits by auto
  have "\<not> isdigit newline" by (auto dest: isdigit_not)
  then have digits: "takeWhile isdigit (?ds @ [newline]) = ?ds" using ds(1) by simp
  have "takeWhile isspace (?ds @ [newline]) = []" "hd (?ds @ [newline]) \<noteq> CHR ''-''" "hd (?ds @ [newline]) \<noteq> CHR ''+''"
    using ds by (cases ?ds; auto dest: isdigit_not)+
  then have "scan_int (?ds @ [newline]) = Some (False, nat now, length ?ds)"
    by (simp add: scan_int_def digits)
  then have "stoll (int_to_string now @ [newline]) = Some (now, length ?ds)"
    using assms by (simp add: stoll_def sto_signed_def int_to_string_def in_int64_def INT64_MIN_def INT64_MAX_def)
  moreover have "takeWhile (\<lambda>c. c \<noteq> CHR ''='') (''started_at_ns='' @ int_to_string now @ [newline]) = ''started_at_ns''" by simp
  ultimately show ?thesis by (simp add: leaseStart_def)
qed

lemma leaseActive_frame:
  assumes "leaseActive timeout now dir w = (b, w')" "q \<noteq> dir @ [''.uploading'']"
  shows "lookup (disk w') q = lookup (disk w) q"
  using assms by (auto simp: leaseActive_def removePath_other split: option.splits if_splits)

lemma acquireLease_frame:
  assumes "acquireLease timeout now dir w = (True, w')" "q \<noteq> dir @ [''.uploading'']" "q \<noteq> dir @ [''.uploading.tmp'']"
    and "strict_prefix dir q"
  shows "lookup (disk w') q = lookup (disk w) q"
proof -
  obtain w1 where l: "leaseActive timeout now dir w = (False, w1)"
    "writeAtomically (dir @ [''.uploading'']) (''started_at_ns='' @ int_to_string now @ [newline]) w1 = (True, w')"
    using assms(1) by (auto simp: acquireLease_def split: prod.splits bool.splits)
  have "\<not> prefix q (dir @ [''.uploading''])"
    using assms(2,4) by (auto simp: strict_prefix_def prefix_snoc dest: prefix_order.antisym)
  then have "lookup (disk w') q = lookup (disk w1) q"
    by (intro write_frame [OF _ l(2)]) (use assms(2,3) in \<open>auto simp: temporaryOf_def\<close>)
  with leaseActive_frame [OF l(1) assms(2)] show ?thesis by simp
qed

lemma acquireLease_marker:
  assumes "acquireLease timeout now dir w = (True, w')"
  shows "lookup (disk w') (dir @ [''.uploading'']) = Some (File (''started_at_ns='' @ int_to_string now @ [newline]))"
  using assms by (auto simp: acquireLease_def dest: write_done [rotated] split: prod.splits bool.splits)

lemma uploading_is_marker: "isMarkerOrTemp ''.uploading''" "isMarkerOrTemp ''.uploading.tmp''"
  by (simp_all add: isMarkerOrTemp_def)

lemma set_collectFiles: "set (collectFiles d dir) = {q. strict_prefix dir q \<and> readFile d q \<noteq> None \<and> \<not> isMarkerOrTemp (last q)}"
  using lookup_below by (force simp: collectFiles_def below_def readFile_def split: option.splits)

lemma collectFiles_leased:
  assumes "acquireLease timeout now dir w = (True, w')"
  shows "set (collectFiles (disk w') dir) = set (collectFiles (disk w) dir)"
proof -
  have "readFile (disk w') q = readFile (disk w) q" if "strict_prefix dir q" "\<not> isMarkerOrTemp (last q)" for q
  proof -
    have "q \<noteq> dir @ [''.uploading'']" "q \<noteq> dir @ [''.uploading.tmp'']" using that(2) uploading_is_marker by auto
    from acquireLease_frame [OF assms this that(1)] show ?thesis by (simp add: readFile_def)
  qed
  then show ?thesis unfolding set_collectFiles by auto
qed

lemma transfer_frame:
  assumes "transferDirectory u client view now dir w r = (ok, u', w', r')"
  shows "\<exists>c b. w' = w \<or> writeAtomically (dir @ [''.upload_id'']) c w = (b, w')"
  using assms by (auto simp: transferDirectory_def transferIdFor_def Let_def split: if_splits option.splits prod.splits)

lemma transfer_sends:
  assumes "transferDirectory u (logged (uploadConfig u) client) view now dir w s = (True, u', w', s')"
    and "0 < chunkBytes (uploadConfig u)"
  shows "\<exists>transferId infos l a. transferId \<noteq> [] \<and> infos \<noteq> [] \<and> map fi_path infos = collectFiles (disk w) dir \<and>
    (\<forall>f\<in>set infos. fi_relative f = relativeText dir (fi_path f) \<and> view_size (fileView view (fi_path f)) = Some (fi_size f) \<and>
       steady (fileView view) f) \<and>
    fst s' = fst s @ l @ [(emptyRequest (last dir) transferId END, Some a)] \<and> ur_success a \<and>
    ur_received_bytes a = sum_list (map fi_size infos) \<and> sum_list (map fi_size infos) \<le> SIZE_MAX \<and>
    confirmed ((emptyRequest (last dir) transferId BEGIN)\<lparr>up_file_count := length infos, up_total_bytes := sum_list (map fi_size infos)\<rparr> #
      concat (map (\<lambda>f. fileRequests (chunkBytes (uploadConfig u)) (last dir) transferId f (contentOf (fileView view) f)) infos)) l"
proof -
  let ?files = "collectFiles (disk w) dir"
  obtain transferId u1 w1 where id: "transferIdFor now dir u w = (transferId, u1, w1)" using prod_cases3 by blast
  have run: "?files \<noteq> []" "transferId \<noteq> []"
    using assms(1) by (auto simp: transferDirectory_def id Let_def split: if_splits)
  obtain infos totalBytes where m: "measureFiles (fileView view) dir ?files 0 = Some (infos, totalBytes)"
    using assms(1) run id by (auto simp: transferDirectory_def Let_def split: if_splits option.splits)
  have conv: "conversation (uploadConfig u) (logged (uploadConfig u) client) (last dir) transferId (fileView view) infos totalBytes s = (True, s')"
    using assms(1) run id m by (auto simp: transferDirectory_def Let_def split: if_splits prod.splits)
  from measureFiles_infos [OF m] have infos: "map fi_path infos = ?files" "totalBytes = sum_list (map fi_size infos)" "totalBytes \<le> SIZE_MAX"
    "\<forall>f\<in>set infos. fi_relative f = relativeText dir (fi_path f) \<and> view_size (fileView view (fi_path f)) = Some (fi_size f)"
    by auto
  have "infos \<noteq> []" using infos(1) run(1) by auto
  with conversation_sends [OF conv assms(2)] infos run show ?thesis by blast
qed

lemma upload_marked:
  assumes "uploadDirectory u client view now dir w r = (ok, u', w', r')" "lookup (disk w) (dir @ [''.uploaded'']) = None"
    and "lookup (disk w') (dir @ [''.uploaded'']) \<noteq> None"
  shows "ok \<and> (\<exists>w1 u2 w2. acquireLease (leaseTimeout (uploadConfig u)) now dir w = (True, w1) \<and>
    transferDirectory u client view now dir w1 r = (True, u2, w2, r'))"
proof -
  let ?q = "dir @ [''.uploaded'']"
  obtain leased w1 where a: "acquireLease (leaseTimeout (uploadConfig u)) now dir w = (leased, w1)" by fastforce
  have w1: "lookup (disk w1) ?q = None"
  proof (cases leased)
    case True
    then have a: "acquireLease (leaseTimeout (uploadConfig u)) now dir w = (True, w1)" using a by simp
    have "?q \<noteq> dir @ [''.uploading'']" "?q \<noteq> dir @ [''.uploading.tmp'']" "strict_prefix dir ?q" by (simp_all add: strict_prefix_def)
    from acquireLease_frame [OF a this] assms(2) show ?thesis by simp
  next
    case False
    obtain b w0 where l: "leaseActive (leaseTimeout (uploadConfig u)) now dir w = (b, w0)" by fastforce
    have w0: "lookup (disk w0) ?q = None" using leaseActive_frame [OF l, of ?q] assms(2) by simp
    show ?thesis
    proof (cases b)
      case True
      with a l w0 show ?thesis by (simp add: acquireLease_def)
    next
      case b: False
      with a l have "writeAtomically (dir @ [''.uploading'']) (''started_at_ns='' @ int_to_string now @ [newline]) w0 = (leased, w1)"
        by (simp add: acquireLease_def)
      from write_mark_frame [OF this, of "''.uploaded''"] w0 show ?thesis by simp
    qed
  qed
  obtain sent u2 w2 r2 where t: "transferDirectory u client view now dir w1 r = (sent, u2, w2, r2)" using prod_cases4 by blast
  have w2: "lookup (disk w2) ?q = None"
  proof -
    from transfer_frame [OF t] obtain c b where "w2 = w1 \<or> writeAtomically (dir @ [''.upload_id'']) c w1 = (b, w2)" by blast
    then show ?thesis using w1 write_mark_frame [of dir "''.upload_id''" c w1 b w2 "''.uploaded''"] by auto
  qed
  have "leased"
  proof (rule ccontr)
    assume "\<not> leased"
    with assms(1) a w1 assms(3) show False by (simp add: uploadDirectory_def)
  qed
  have "sent"
  proof (rule ccontr)
    assume "\<not> sent"
    with assms(1) a t \<open>leased\<close> have "w' = snd (removePath (dir @ [''.uploading'']) w2)" by (auto simp: uploadDirectory_def)
    with w2 assms(3) show False by simp
  qed
  obtain c marked w3 where w3: "writeAtomically ?q c w2 = (marked, w3)" "w' = snd (removePath (dir @ [''.uploading'']) w3)" "ok = marked" "r' = r2"
    using assms(1) a t \<open>leased\<close> \<open>sent\<close> by (auto simp: uploadDirectory_def Let_def split: prod.splits)
  have "marked"
  proof (rule ccontr)
    assume "\<not> marked"
    with write_failed [of ?q c w2 w3] w3(1) w2 have "lookup (disk w3) ?q = None" by simp
    with w3(2) assms(3) show False by simp
  qed
  with a t \<open>leased\<close> \<open>sent\<close> w3(3,4) show ?thesis by simp
qed

section \<open>Properties\<close>

text \<open>
  C38. The upload marker is honest: if a visit makes \<open>.uploaded\<close> appear, the receiver
  confirmed every request of a complete conversation: the begin with the number of files
  and of bytes, for each file of the event (everything but markers and temporaries) chunks
  of at most the configured size that put together are its content of the announced
  length, and the end, whose confirmed byte count is the announced one.
\<close>

theorem uploaded_means_delivered:
  assumes "uploadDirectory u (logged (uploadConfig u) client) view now dir w ([], r) = (ok, u', w', (log, r'))"
    and "0 < chunkBytes (uploadConfig u)"
    and "lookup (disk w) (dir @ [''.uploaded'']) = None" "lookup (disk w') (dir @ [''.uploaded'']) \<noteq> None"
  shows "\<exists>transferId infos l a.
    set (map fi_path infos) = {q. strict_prefix dir q \<and> readFile (disk w) q \<noteq> None \<and> \<not> isMarkerOrTemp (last q)} \<and>
    log = l @ [(emptyRequest (last dir) transferId END, Some a)] \<and> ur_success a \<and>
    ur_received_bytes a = sum_list (map fi_size infos) \<and>
    confirmed ((emptyRequest (last dir) transferId BEGIN)\<lparr>up_file_count := length infos, up_total_bytes := sum_list (map fi_size infos)\<rparr> #
      concat (map (\<lambda>f. fileRequests (chunkBytes (uploadConfig u)) (last dir) transferId f (contentOf (fileView view) f)) infos)) l \<and>
    (\<forall>f\<in>set infos. fi_relative f = relativeText dir (fi_path f) \<and> steady (fileView view) f \<and>
       length (contentOf (fileView view) f) = fi_size f \<and>
       concat (map up_data (fileRequests (chunkBytes (uploadConfig u)) (last dir) transferId f (contentOf (fileView view) f))) =
         contentOf (fileView view) f)"
proof -
  from upload_marked [OF assms(1,3,4)] obtain w1 u2 w2 where
    a: "acquireLease (leaseTimeout (uploadConfig u)) now dir w = (True, w1)"
    and t: "transferDirectory u (logged (uploadConfig u) client) view now dir w1 ([], r) = (True, u2, w2, (log, r'))" by blast
  have len: "length (contentOf (fileView view) f) = fi_size f" if "steady (fileView view) f" for f
    using that by (auto simp: steady_def contentOf_def)
  from transfer_sends [OF t assms(2)] obtain transferId infos l a where sent:
    "map fi_path infos = collectFiles (disk w1) dir"
    "\<forall>f\<in>set infos. fi_relative f = relativeText dir (fi_path f) \<and> view_size (fileView view (fi_path f)) = Some (fi_size f) \<and> steady (fileView view) f"
    "log = l @ [(emptyRequest (last dir) transferId END, Some a)]" "ur_success a" "ur_received_bytes a = sum_list (map fi_size infos)"
    "confirmed ((emptyRequest (last dir) transferId BEGIN)\<lparr>up_file_count := length infos, up_total_bytes := sum_list (map fi_size infos)\<rparr> #
      concat (map (\<lambda>f. fileRequests (chunkBytes (uploadConfig u)) (last dir) transferId f (contentOf (fileView view) f)) infos)) l"
    by auto
  have "set (map fi_path infos) = {q. strict_prefix dir q \<and> readFile (disk w) q \<noteq> None \<and> \<not> isMarkerOrTemp (last q)}"
    using collectFiles_leased [OF a] by (simp only: sent(1) set_collectFiles)
  moreover have "\<forall>f\<in>set infos. fi_relative f = relativeText dir (fi_path f) \<and> steady (fileView view) f \<and>
       length (contentOf (fileView view) f) = fi_size f \<and>
       concat (map up_data (fileRequests (chunkBytes (uploadConfig u)) (last dir) transferId f (contentOf (fileView view) f))) =
         contentOf (fileView view) f"
    using sent(2) len fileRequests_reassemble [OF assms(2)] by blast
  ultimately show ?thesis using sent(3-6) by blast
qed

text \<open>
  A lease excludes: once it is taken, no other visit of the directory within the lease time
  sends anything, changes anything on disk or succeeds.
\<close>

theorem lease_excludes:
  assumes "acquireLease timeout now dir w = (True, w1)" "0 \<le> now" "in_int64 now"
    and "lookup (disk w2) (dir @ [''.uploading'']) = lookup (disk w1) (dir @ [''.uploading''])"
    and "now \<le> now'" "now' < now + leaseTimeout (uploadConfig u)"
  shows "uploadDirectory u client view now' dir w2 r = (False, u, w2, r)"
proof -
  have "readFile (disk w2) (dir @ [''.uploading'']) = Some (''started_at_ns='' @ int_to_string now @ [newline])"
    using acquireLease_marker [OF assms(1)] assms(4) by (simp add: readFile_def)
  then have "leaseActive (leaseTimeout (uploadConfig u)) now' dir w2 = (True, w2)"
    using leaseStart_written [OF assms(2,3)] assms(5,6) by (simp add: leaseActive_def)
  then show ?thesis by (simp add: uploadDirectory_def acquireLease_def)
qed

lemma noteFailure_cases:
  "noteFailure now dir u w = (u', w') \<Longrightarrow>
   let n = Suc (case pendingUploads u dir of None \<Rightarrow> 0 | Some st \<Rightarrow> attempts st) in
     uploadConfig u' = uploadConfig u \<and>
     (pendingUploads u' dir = Some \<lparr>attempts = n, nextAttempt = now + retryDelay (uploadConfig u) n\<rparr> \<or>
      pendingUploads u' dir = None \<and> maxRetries (uploadConfig u) > 0 \<and> int n \<ge> maxRetries (uploadConfig u) \<and>
      lookup (disk w') (dir @ [''.upload_failed'']) = Some (File (''attempts='' @ nat_to_string n @ [newline])))"
  by (auto simp: noteFailure_def Let_def dest: write_done [rotated] split: prod.splits if_splits)


lemma candidateEntry_adds:
  assumes "candidateEntry cfg now ages dir (cs, w) = (cs', w')"
  shows "cs' = cs \<or> cs' = cs @ [dir] \<and> isDirectory (disk w) dir \<and> pathExists (disk w') (dir @ [''.complete'']) \<and>
    \<not> pathExists (disk w') (dir @ [''.uploaded'']) \<and> \<not> pathExists (disk w') (dir @ [''.upload_failed''])"
proof -
  have gone: "removePath (dir @ [''.upload_failed'']) w1 = (True, w2) \<Longrightarrow> lookup (disk w2) (dir @ [''.upload_failed'']) = None" for w1 w2
    by (auto simp: removePath_def lookup_delete elim!: perform_cases split: if_splits)
  have kept: "lookup (disk w2) (dir @ [m]) = lookup (disk w1) (dir @ [m])"
    if "removePath (dir @ [''.upload_failed'']) w1 = (True, w2)" "m \<noteq> ''.upload_failed''" for w1 w2 m
    using remove_mark [OF that(2), of dir w1] that(1) by simp
  show ?thesis
    using assms
    by (auto simp: candidateEntry_def pathExists_def Let_def kept dest: gone split: if_splits prod.splits bool.splits option.splits)
qed

lemma candidateEntry_frame:
  assumes "candidateEntry cfg now ages dir (cs, w) = (cs', w')" "m \<notin> {''.uploading'', ''.upload_failed''}"
  shows "lookup (disk w') (d @ [m]) = lookup (disk w) (d @ [m])"
proof -
  obtain b w1 where l: "leaseActive (leaseTimeout cfg) now dir w = (b, w1)" by fastforce
  have "lookup (disk w1) (d @ [m]) = lookup (disk w) (d @ [m])" using leaseActive_frame [OF l] assms(2) by auto
  moreover have "w' \<in> {w, w1, snd (removePath (dir @ [''.upload_failed'']) w1)}"
    using assms(1) l by (auto simp: candidateEntry_def Let_def split: if_splits prod.splits bool.splits option.splits)
  ultimately show ?thesis using assms(2) removePath_other [of "d @ [m]" "dir @ [''.upload_failed'']" w1] by auto
qed

lemma candidates_fold:
  assumes "fold (candidateEntry cfg now ages) ds (cs, w) = (cs', w')" "set cs \<subseteq> R" "set ds \<subseteq> R"
    and "\<forall>d\<in>set cs. pathExists (disk w) (d @ [''.complete'']) \<and> \<not> pathExists (disk w) (d @ [''.uploaded''])"
  shows "set cs' \<subseteq> R \<and> (\<forall>d\<in>set cs'. pathExists (disk w') (d @ [''.complete'']) \<and> \<not> pathExists (disk w') (d @ [''.uploaded'']))"
  using assms
proof (induction ds arbitrary: cs w)
  case (Cons d ds)
  obtain cs1 w1 where one: "candidateEntry cfg now ages d (cs, w) = (cs1, w1)" by (cases "candidateEntry cfg now ages d (cs, w)") simp
  have "pathExists (disk w1) (e @ [m]) = pathExists (disk w) (e @ [m])" if "m \<in> {''.complete'', ''.uploaded''}" for e m
    unfolding pathExists_def by (subst candidateEntry_frame [OF one]) (use that in auto)
  then have "set cs1 \<subseteq> R" "\<forall>d\<in>set cs1. pathExists (disk w1) (d @ [''.complete'']) \<and> \<not> pathExists (disk w1) (d @ [''.uploaded''])"
    using candidateEntry_adds [OF one] Cons.prems(2-4) by auto
  with Cons.IH [of cs1 w1] one Cons.prems(1,3) show ?case by simp
qed simp

lemma candidates_complete:
  assumes "findUploadCandidates cfg now ages root w = (cs, w')" "dir \<in> set cs"
  shows "dir \<in> set (entries (disk w) root) \<and> pathExists (disk w') (dir @ [''.complete'']) \<and> \<not> pathExists (disk w') (dir @ [''.uploaded''])"
  using candidates_fold [of cfg now ages "entries (disk w) root" "[]" w cs' w' "set (entries (disk w) root)" for cs' w'] assms
  by (force simp: findUploadCandidates_def)

section \<open>A sample upload\<close>

definition sampleUploader :: UploadWorker where
  "sampleUploader = \<lparr>uploadRoot = [''r''],
     uploadConfig = \<lparr>serviceName = ''/s'', timeoutSeconds = 30, maxRetries = 5, scanPeriod = 1, retryBackoff = 10, chunkBytes = 2,
       leaseTimeout = 300, failedRescanPeriod = 0\<rparr>,
     pendingUploads = Map.empty, uploadStopping = False, uploadStarted = True, nextTransferId = 0\<rparr>"

definition uploadStore :: World where
  "uploadStore = \<lparr>disk = [([''r''], Dir), ([''r'', ''e''], Dir), ([''r'', ''e'', ''.complete''], File ''x''),
     ([''r'', ''e'', ''.upload_id''], File ''id''), ([''r'', ''e'', ''d''], File ''abc'')], script = []\<rparr>"

text \<open>A receiver that accepts everything and counts the bytes.\<close>

definition countingClient :: "nat client" where
  "countingClient q n = (let n' = n + length (up_data q) in
     (\<lparr>ex_serviceReady = True, ex_sentAt = 0, ex_ticks = [\<lparr>tick_ready = True, tick_stopping = False, tick_now = 1\<rparr>],
       ex_reply = Inr \<lparr>ur_success = True, ur_message = [], ur_received_bytes = n'\<rparr>\<rparr>, n'))"

lemma sample_leased:
  "\<exists>w. acquireLease 300 5 [''r'', ''e''] uploadStore = (True, w) \<and> collectFiles (disk w) [''r'', ''e''] = [[''r'', ''e'', ''d'']] \<and>
     readFile (disk w) [''r'', ''e'', ''.upload_id''] = Some ''id'' \<and> script w = [] \<and>
     lookup (disk w) [''r'', ''e'', ''.uploaded''] = None \<and> lookup (disk w) [''r'', ''e'', ''.uploaded.tmp''] = None \<and>
     lookup (disk w) [''r''] = Some Dir \<and> lookup (disk w) [''r'', ''e''] = Some Dir"
  by (simp add: acquireLease_def leaseActive_def uploadStore_def writeAtomically_def createDirectories_def openTrunc_def
      writeContent_def renameFile_def perform_def parentPath_def temporaryOf_def ancestors_def readFile_def lookup_def
      isDirectory_def numeral_eq_Suc collectFiles_def below_def isMarkerOrTemp_def extension_def find_last_of_def)

lemma sample_conversation:
  "\<exists>s. conversation (uploadConfig sampleUploader) (logged (uploadConfig sampleUploader) countingClient) ''e'' ''id''
     (fileView (quietView (disk uploadStore))) [\<lparr>fi_path = [''r'', ''e'', ''d''], fi_relative = ''d'', fi_size = 3\<rparr>] 3 ([], 0)
   = (True, s)"
  by (simp add: conversation_def callOk_def call_def logged_def countingClient_def sampleUploader_def emptyRequest_def
     callResult_def quietView_def sendFile_def sendChunks.simps chunkRequest_def readFile_def lookup_def uploadStore_def numeral_eq_Suc)

lemma sample_upload:
  "\<exists>u' w' s. uploadDirectory sampleUploader (logged (uploadConfig sampleUploader) countingClient) (quietView (disk uploadStore))
     5 [''r'', ''e''] uploadStore ([], 0) = (True, u', w', s) \<and> lookup (disk w') [''r'', ''e'', ''.uploaded''] \<noteq> None"
proof -
  from sample_leased obtain w1 where a: "acquireLease 300 5 [''r'', ''e''] uploadStore = (True, w1)"
    and w1: "collectFiles (disk w1) [''r'', ''e''] = [[''r'', ''e'', ''d'']]" "readFile (disk w1) [''r'', ''e'', ''.upload_id''] = Some ''id''"
      "script w1 = []" "lookup (disk w1) [''r'', ''e'', ''.uploaded''] = None" "lookup (disk w1) [''r'', ''e'', ''.uploaded.tmp''] = None"
      "lookup (disk w1) [''r''] = Some Dir" "lookup (disk w1) [''r'', ''e''] = Some Dir" by blast
  from sample_conversation obtain s where c: "conversation (uploadConfig sampleUploader) (logged (uploadConfig sampleUploader) countingClient) ''e'' ''id''
     (fileView (quietView (disk uploadStore))) [\<lparr>fi_path = [''r'', ''e'', ''d''], fi_relative = ''d'', fi_size = 3\<rparr>] 3 ([], 0)
   = (True, s)" by blast
  have m: "measureFiles (fileView (quietView (disk uploadStore))) [''r'', ''e''] [[''r'', ''e'', ''d'']] 0 =
     Some ([\<lparr>fi_path = [''r'', ''e'', ''d''], fi_relative = ''d'', fi_size = 3\<rparr>], 3)"
    by (simp add: quietView_def uploadStore_def readFile_def lookup_def SIZE_MAX_def relativeText_def)
  have i: "transferIdFor 5 [''r'', ''e''] sampleUploader w1 = (''id'', sampleUploader, w1)"
    using w1(2) by (simp add: transferIdFor_def newline_def)
  have wk: "walkComplete (quietView (disk uploadStore))" by (simp add: quietView_def)
  have t: "transferDirectory sampleUploader (logged (uploadConfig sampleUploader) countingClient) (quietView (disk uploadStore)) 5 [''r'', ''e''] w1 ([], 0)
     = (True, sampleUploader, w1, s)"
    by (simp add: transferDirectory_def w1(1) i m c wk del: measureFiles.simps)
  have dirs: "q \<noteq> [] \<and> prefix q [''r'', ''e''] \<longrightarrow> lookup (disk w1) q = Some Dir" for q
    using w1(6,7) by (auto simp: prefix_Cons)
  obtain w2 where w2: "writeAtomically [''r'', ''e'', ''.uploaded''] (''service='' @ serviceName (uploadConfig sampleUploader) @ [newline] @ ''files='' @
                        nat_to_string 1 @ [newline]) w1 = (True, w2)"
    using write_healthy [of "[''r'', ''e'', ''.uploaded'']" w1] w1 dirs by (force simp: parentPath_def temporaryOf_def)
  have "lookup (disk (snd (removePath [''r'', ''e'', ''.uploading''] w2))) [''r'', ''e'', ''.uploaded''] \<noteq> None"
    using write_done [OF _ w2] by (simp add: removePath_other)
  moreover have "leaseTimeout (uploadConfig sampleUploader) = 300" by (simp add: sampleUploader_def)
  ultimately show ?thesis using a t w1(1) w2 by (simp add: uploadDirectory_def)
qed

theorem uploaded_means_delivered_witness:
  "\<exists>ok u' w' log r'. uploadDirectory sampleUploader (logged (uploadConfig sampleUploader) countingClient)
       (quietView (disk uploadStore)) 5 [''r'', ''e''] uploadStore ([], 0) = (ok, u', w', (log, r')) \<and>
     (\<exists>transferId a. \<exists>infos :: FileInfo list. last log = (emptyRequest ''e'' transferId END, Some a) \<and>
       ur_received_bytes a = sum_list (map fi_size infos) \<and>
       set (map fi_path infos) = {q. strict_prefix [''r'', ''e''] q \<and> readFile (disk uploadStore) q \<noteq> None \<and> \<not> isMarkerOrTemp (last q)})"
proof -
  from sample_upload obtain u' w' log r' where s:
    "uploadDirectory sampleUploader (logged (uploadConfig sampleUploader) countingClient)
       (quietView (disk uploadStore)) 5 [''r'', ''e''] uploadStore ([], 0) = (True, u', w', (log, r'))"
    "lookup (disk w') ([''r'', ''e''] @ [''.uploaded'']) \<noteq> None" by (metis append_Cons append_Nil prod.exhaust)
  have "0 < chunkBytes (uploadConfig sampleUploader)" "lookup (disk uploadStore) ([''r'', ''e''] @ [''.uploaded'']) = None"
    by (simp_all add: sampleUploader_def uploadStore_def lookup_def)
  from uploaded_means_delivered [OF s(1) this s(2)] obtain transferId l a and infos :: "FileInfo list" where
    "set (map fi_path infos) = {q. strict_prefix [''r'', ''e''] q \<and> readFile (disk uploadStore) q \<noteq> None \<and> \<not> isMarkerOrTemp (last q)}"
    "log = l @ [(emptyRequest (last [''r'', ''e'']) transferId END, Some a)]" "ur_received_bytes a = sum_list (map fi_size infos)" by blast
  moreover from this(2) have "last log = (emptyRequest ''e'' transferId END, Some a)" by simp
  ultimately show ?thesis using s(1) by blast
qed

theorem lease_excludes_witness:
  "\<exists>w. acquireLease 300 5 [''r'', ''e''] uploadStore = (True, w) \<and>
     uploadDirectory sampleUploader countingClient (quietView (disk w)) 304 [''r'', ''e''] w 7 = (False, sampleUploader, w, 7)"
proof -
  from sample_leased obtain w where a: "acquireLease 300 5 [''r'', ''e''] uploadStore = (True, w)" by blast
  have "uploadDirectory sampleUploader countingClient (quietView (disk w)) 304 [''r'', ''e''] w 7 = (False, sampleUploader, w, 7)"
    by (rule lease_excludes [OF a]) (simp_all add: sampleUploader_def in_int64_def INT64_MIN_def INT64_MAX_def)
  with a show ?thesis by blast
qed


end
