(* ===== verification/Event_Integrity.thy ===== *)
theory Event_Integrity
  imports Storage_Worker Record_Verify
begin

text \<open>
  Writer against reader: what the storage worker (theories Storage_Job and
  Storage_Worker) leaves in an event directory is what the verification of
  \<open>record_io.hpp\<close> (theory Record_Verify) accepts.  The libraries on the two sides are
  still arguments; \<open>readable\<close> states what both rely on, that decoding and decompression
  undo serialisation and compression for the messages at hand.
\<close>

section \<open>What the reader expects of a message\<close>

text \<open>A message whose fields agree with each other, stamped with the time of its record.\<close>

definition sound_frame :: "SensorData \<Rightarrow> bool" where
  "sound_frame record \<longleftrightarrow> in_int64 (timestampOf record) \<and>
     (case sd_data record of
        CameraAlt v \<Rightarrow> sd_type record = CAMERA \<and> (\<exists>img. cam_image v = Some img \<and> img_stamp img = timestampOf record \<and>
          img_encoding img \<noteq> [] \<and> 0 < img_width img \<and> 0 < img_height img \<and> 0 < img_step img \<and>
          img_step img * img_height img \<le> length (img_data img))
      | LidarAlt v \<Rightarrow> sd_type record = LIDAR \<and> (\<exists>cloud. lid_cloud v = Some cloud \<and> pc_stamp cloud = timestampOf record \<and>
          pc_fields cloud \<noteq> [] \<and> 0 < pc_point_step cloud \<and>
          pc_width cloud * pc_height cloud \<le> length (pc_data cloud) div pc_point_step cloud))"

text \<open>
  What the libraries promise for a message: the deserialisation gives it back, it is not
  empty, and, up to the reader's limit of 1 GiB, so does the decompression.
\<close>

definition readable ::
  "'s Zstd \<Rightarrow> (string \<Rightarrow> string + Image) \<Rightarrow> (string \<Rightarrow> string + PointCloud2) \<Rightarrow> Codec \<Rightarrow> Job \<Rightarrow> SensorData \<Rightarrow> bool" where
  "readable z decodeImage decodeCloud k job record \<longleftrightarrow> (\<forall>raw. serialize k record = Inr raw \<longrightarrow>
     raw \<noteq> [] \<and> length raw \<le> kMaxRecordBytes \<and>
     (\<forall>data. compress2 k (compressionLevel job) raw = Some data \<longrightarrow>
        length data \<le> kMaxRecordBytes \<and> decompressZstd z data = Some (Inr raw)) \<and>
     (case sd_data record of
        CameraAlt v \<Rightarrow> (\<forall>img. cam_image v = Some img \<longrightarrow> decodeImage raw = Inr img)
      | LidarAlt v \<Rightarrow> (\<forall>cloud. lid_cloud v = Some cloud \<longrightarrow> decodeCloud raw = Inr cloud)))"

section \<open>The names of records\<close>

definition word_char :: "char \<Rightarrow> bool" where
  "word_char c \<longleftrightarrow> isalnum c \<or> c = CHR ''_'' \<or> c = CHR ''-'' \<or> c = CHR ''.''"

lemma numbered_chars:
  assumes "\<forall>c\<in>set base. word_char c"
  shows "\<forall>c\<in>set (numbered base n). word_char c"
proof -
  have "\<forall>c\<in>set (nat_to_string n). word_char c" using nat_to_string_digits [of n] by (auto simp: word_char_def isalnum_def)
  with assms show ?thesis by (auto simp: numbered_def word_char_def)
qed

lemma word_char_not: "word_char c \<Longrightarrow> c \<noteq> CHR '','' \<and> c \<noteq> newline \<and> c \<noteq> CR \<and> c \<noteq> CHR ''/'' \<and> c \<noteq> CHR '':'' \<and>
    c \<noteq> CHR 0x5C \<and> c \<noteq> CHR '' ''"
  by (auto simp: word_char_def char_class_defs newline_def CR_def)

lemma word_plain: "\<forall>c\<in>set s. word_char c \<Longrightarrow> plain s \<and> CHR ''/'' \<notin> set s"
  using word_char_not unfolding plain_def by blast

text \<open>A name of such characters with no dot among the first five: no device name is that long.\<close>

lemma safe_word:
  assumes "\<forall>c\<in>set text. word_char c" "5 \<le> length text" "CHR ''.'' \<notin> set (take 5 text)" "last text \<noteq> CHR ''.''"
  shows "safeComponent text"
proof -
  let ?stem = "case find_from CHR ''.'' text 0 of None \<Rightarrow> text | Some p \<Rightarrow> substr text 0 p"
  have "5 \<le> length (takeWhile (\<lambda>c. c \<noteq> CHR ''.'') text)"
  proof -
    have "takeWhile (\<lambda>c. c \<noteq> CHR ''.'') (take 5 text @ drop 5 text) = take 5 text @ takeWhile (\<lambda>c. c \<noteq> CHR ''.'') (drop 5 text)"
      using assms(3) by (intro takeWhile_append2) auto
    then have "length (takeWhile (\<lambda>c. c \<noteq> CHR ''.'') text) = length (take 5 text) + length (takeWhile (\<lambda>c. c \<noteq> CHR ''.'') (drop 5 text))"
      by (metis append_take_drop_id length_append)
    then show ?thesis using assms(2) by simp
  qed
  then have "5 \<le> length ?stem" using assms(2) by (auto simp: find_from.simps substr_def Let_def split: if_splits)
  then have "5 \<le> length (map toupper ?stem)" by simp
  moreover have "length s \<le> 4" if "s \<in> kWindowsDevices" for s using that by (auto simp: kWindowsDevices_def)
  ultimately have "map toupper ?stem \<notin> kWindowsDevices" by fastforce
  moreover have "text \<noteq> []" using assms(2) by auto
  moreover have "text \<noteq> ''.''" "text \<noteq> ''..''" using assms(2) by auto
  moreover have "CHR '':'' \<notin> set text" "CHR 0x5C \<notin> set text" "last text \<noteq> CHR '' ''"
    using assms(1) word_char_not last_in_set [OF \<open>text \<noteq> []\<close>] by blast+
  ultimately show ?thesis using assms(4) by (simp add: safeComponent_def)
qed

lemma safe_name:
  assumes "safeComponent name" "CHR ''/'' \<notin> set name"
  shows "safeRelativePath name" "pathElements name = [name]"
proof -
  have "name \<noteq> []" using safeComponent_plain [OF assms(1)] by simp
  then show "pathElements name = [name]"
    using pathElements_joined [of "[name]"] assms(2) by (simp add: names_ok_def)
  moreover have "hd name \<noteq> CHR ''/''" using hd_in_set [OF \<open>name \<noteq> []\<close>] assms(2) by metis
  ultimately show "safeRelativePath name" using assms(1) \<open>name \<noteq> []\<close> by (simp add: safeRelativePath_def)
qed

text \<open>The base names that records get.\<close>

definition base_name :: "string \<Rightarrow> bool" where
  "base_name base \<longleftrightarrow> (\<exists>t i n. base = numbered (sensorPrefix t @ ''_'' @ int_to_string i) n)"

lemma base_name_chars:
  assumes "base_name base"
  shows "\<forall>c\<in>set base. word_char c" "5 \<le> length base" "CHR ''.'' \<notin> set (take 5 base)"
proof -
  obtain t i n where base: "base = numbered (sensorPrefix t @ ''_'' @ int_to_string i) n" using assms by (auto simp: base_name_def)
  have "\<forall>c\<in>set (sensorPrefix t @ ''_'' @ int_to_string i). word_char c"
    using int_to_string_chars [of _ i] by (auto simp: sensorPrefix_def word_char_def char_class_defs)
  then show "\<forall>c\<in>set base. word_char c" unfolding base by (rule numbered_chars)
  obtain rest where "base = sensorPrefix t @ rest" unfolding base by (cases "n = 0") (simp_all add: numbered_def)
  then show "5 \<le> length base" "CHR ''.'' \<notin> set (take 5 base)" by (auto simp: sensorPrefix_def)
qed

lemma safe_record_name:
  assumes "base_name base" "ending \<in> {''.bin'', ''.bin.zst'', ''.jpg'', ''.png'', ''.pcd''}"
  shows "safeComponent (base @ ending)" "\<forall>c\<in>set (base @ ending). word_char c"
proof -
  show chars: "\<forall>c\<in>set (base @ ending). word_char c"
  proof -
    have "list_all (list_all word_char) [''.bin'', ''.bin.zst'', ''.jpg'', ''.png'', ''.pcd'']" by code_simp
    then have "\<forall>c\<in>set ending. word_char c" using assms(2) by (auto simp: list_all_iff)
    then show ?thesis using base_name_chars(1) [OF assms(1)] by auto
  qed
  have "last (base @ ending) \<noteq> CHR ''.''" using assms(2) by auto
  then show "safeComponent (base @ ending)"
    using base_name_chars(2,3) [OF assms(1)] by (intro safe_word chars) (simp_all add: trans_le_add1)
qed


section \<open>Entries the reader accepts\<close>

text \<open>An entry whose row survives the text format and whose file, directly in the directory, is intact.\<close>

definition goodEntry ::
  "'s Zstd \<Rightarrow> (string \<Rightarrow> string + Image) \<Rightarrow> (string \<Rightarrow> string + PointCloud2) \<Rightarrow> disk \<Rightarrow> path \<Rightarrow> ManifestEntry \<Rightarrow> bool" where
  "goodEntry z decodeImage decodeCloud d dir e \<longleftrightarrow> manifest_good e \<and>
     (\<exists>base. base_name base \<and> me_file e \<in> {base @ ''.bin'', base @ ''.bin.zst''}) \<and>
     intact z decodeImage decodeCloud d dir e"

text \<open>The manifest of an event so far: the rows of good entries under the header.\<close>

definition eventRecords ::
  "'s Zstd \<Rightarrow> (string \<Rightarrow> string + Image) \<Rightarrow> (string \<Rightarrow> string + PointCloud2) \<Rightarrow> disk \<Rightarrow> path \<Rightarrow> ManifestEntry list \<Rightarrow> bool" where
  "eventRecords z decodeImage decodeCloud d dir es \<longleftrightarrow>
     (case readFile d (dir @ [''manifest.csv'']) of
        None \<Rightarrow> es = []
      | Some text \<Rightarrow> text = [] \<and> es = [] \<or> text = manifestHeader @ newline # manifestText es) \<and>
     (\<forall>e\<in>set es. goodEntry z decodeImage decodeCloud d dir e)"

lemma entryFor_good:
  assumes "entryFor job record (numbered (sensorPrefix t @ ''_'' @ int_to_string i) n) e" "in_int64 (timestampOf record)"
  shows "manifest_good e \<and> (\<exists>base. base_name base \<and> me_file e \<in> {base @ ''.bin'', base @ ''.bin.zst''})"
proof -
  let ?base = "numbered (sensorPrefix t @ ''_'' @ int_to_string i) n"
  have base: "base_name ?base" by (auto simp: base_name_def)
  have words: "plain ''camera''" "plain ''lidar''" "plain ''raw''" "plain ''zstd''"
    by (simp_all add: plain_def CR_def newline_def)
  have chars: "plain (?base @ s)" if "s \<in> {''.bin'', ''.bin.zst'', ''.jpg'', ''.png'', ''.pcd''}" for s
    using word_plain [OF safe_record_name(2) [OF base that]] by blast
  have plain_append: "plain s \<Longrightarrow> plain s' \<Longrightarrow> plain (s @ s')" for s s' by (simp add: plain_def)
  let ?ext = "if sd_type record = CAMERA then imageExtension (imageFormat job) else ''.pcd''"
  have "plain (convertedFolder (sd_type record))" "plain ''/''"
    by (simp_all add: convertedFolder_def plain_def CR_def newline_def)
  moreover have "plain (?base @ ?ext)" by (rule chars) (simp add: imageExtension_def)
  ultimately have converted: "plain (convertedFolder (sd_type record) @ ''/'' @ ?base @ ?ext)" using plain_append by blast
  have fields: "me_sensor e = sensorPrefix (sd_type record)" "me_timestampNs e = timestampOf record" "me_encoding e \<in> {''raw'', ''zstd''}"
    and stored: "me_file e \<in> {?base @ ''.bin'', ?base @ ''.bin.zst''}"
    using assms(1) by (simp_all only: entryFor_def)
  have "me_convertedFile e = [] \<or> me_convertedFile e = convertedFolder (sd_type record) @ ''/'' @ ?base @ ?ext"
    using assms(1) by (simp only: entryFor_def insert_iff empty_iff simp_thms)
  then have "plain (me_convertedFile e)" by (rule disjE) (simp_all only: plain_Nil converted)
  moreover have "plain (me_file e)" using stored chars [of "''.bin''"] chars [of "''.bin.zst''"] by auto
  moreover have "plain (me_sensor e)" "plain (me_encoding e)" using fields words by (auto simp: sensorPrefix_def)
  ultimately have "manifest_good e" using assms(2) fields(2) by (simp add: manifest_good_def)
  then show ?thesis using stored base by blast
qed

lemma recorded_entry_good:
  assumes "recorded k job d record e" "sound_frame record" "readable z decodeImage decodeCloud k job record"
  shows "goodEntry z decodeImage decodeCloud d (directory job) e"
proof -
  obtain raw n where raw: "serialize k record = Inr raw" "storedAs k job raw d e"
    and entry: "entryFor job record (numbered (sensorPrefix (sd_type record) @ ''_'' @ int_to_string (timestampOf record)) n) e"
    using assms(1) by (auto simp: recorded_def)
  from entryFor_good [OF entry] assms(2) obtain base where good: "manifest_good e" "base_name base"
    "me_file e \<in> {base @ ''.bin'', base @ ''.bin.zst''}" by (auto simp: sound_frame_def)
  then obtain s where s: "me_file e = base @ s" "s \<in> {''.bin'', ''.bin.zst'', ''.jpg'', ''.png'', ''.pcd''}" by auto
  have "safeComponent (me_file e)" "CHR ''/'' \<notin> set (me_file e)"
    using safe_record_name [OF good(2) s(2)] word_plain unfolding s(1) by blast+
  note name = safe_name [OF this]
  have lib: "raw \<noteq> []" "length raw \<le> kMaxRecordBytes"
    "\<And>data. compress2 k (compressionLevel job) raw = Some data \<Longrightarrow> length data \<le> kMaxRecordBytes \<and> decompressZstd z data = Some (Inr raw)"
    using assms(3) raw(1) by (auto simp: readable_def)
  have load: "loadRecordBytes z d (directory job) e = Some (Inr raw)"
    using raw(2) unfolding storedAs_def
  proof (elim disjE conjE exE)
    assume "me_encoding e = ''raw''" "readFile d (directory job @ [me_file e]) = Some raw"
    then show ?thesis using lib(2) name by (simp add: loadRecordBytes_def readFileBytes_def)
  next
    fix data assume "me_encoding e = ''zstd''" "compress2 k (compressionLevel job) raw = Some data"
      "readFile d (directory job @ [me_file e]) = Some data"
    then show ?thesis using lib(3) name by (simp add: loadRecordBytes_def readFileBytes_def)
  qed
  have "intact z decodeImage decodeCloud d (directory job) e"
  proof (cases "sd_data record")
    case (CameraAlt v)
    then show ?thesis using assms(2,3) raw(1) lib(1) load entry
      by (auto simp: intact_def sound_frame_def readable_def entryFor_def sensorPrefix_def)
  next
    case (LidarAlt v)
    then show ?thesis using assms(2,3) raw(1) lib(1) load entry
      by (auto simp: intact_def sound_frame_def readable_def entryFor_def sensorPrefix_def)
  qed
  with good show ?thesis unfolding goodEntry_def by blast
qed


lemma goodEntry_name:
  assumes "goodEntry z decodeImage decodeCloud d dir e"
  shows "safeComponent (me_file e)" "pathElements (me_file e) = [me_file e]" "spared (me_file e) (Some x)" "me_file e \<noteq> ''pairs.csv''"
    "coveredName (me_file e)"
proof -
  obtain base s where s: "base_name base" "me_file e = base @ s" "s \<in> {''.bin'', ''.bin.zst'', ''.jpg'', ''.png'', ''.pcd''}"
    and ending: "s = ''.bin'' \<or> s = ''.bin.zst''"
    using assms unfolding goodEntry_def by blast
  note safe = safe_record_name [OF s(1,3)]
  then show "safeComponent (me_file e)" unfolding s(2) by blast
  moreover have "CHR ''/'' \<notin> set (me_file e)" using safe(2) word_plain unfolding s(2) by blast
  ultimately show "pathElements (me_file e) = [me_file e]" by (rule safe_name)
  show "spared (me_file e) (Some x)" "me_file e \<noteq> ''pairs.csv''"
    using ending unfolding s(2) by (auto simp: spared_def suffix_def)
  obtain c cs where base: "base = c # cs" "c \<noteq> CHR ''.''" using base_name_chars(2,3) [OF s(1)] by (cases base) (auto simp: numeral_eq_Suc)
  have "extension (me_file e) \<noteq> ''.tmp''"
  proof -
    have "find_last_of CHR ''.'' (u @ CHR ''.'' # ''bin'') = Some (length u)" "find_last_of CHR ''.'' (u @ CHR ''.'' # ''zst'') = Some (length u)" for u
      by (rule find_last_of_append; simp)+
    from this(1) [of base] this(2) [of "base @ ''.bin''"] show ?thesis
      using ending base(1) unfolding s(2) by (auto simp: extension_def)
  qed
  then show "coveredName (me_file e)"
    using ending base unfolding s(2) coveredName_def by auto
qed

lemma goodEntry_kept:
  assumes "goodEntry z decodeImage decodeCloud d dir e" "readFile d' (dir @ [me_file e]) = readFile d (dir @ [me_file e])"
  shows "goodEntry z decodeImage decodeCloud d' dir e"
proof -
  have "loadRecordBytes z d' dir e = loadRecordBytes z d dir e"
    using assms(2) goodEntry_name(2) [OF assms(1)] by (simp add: loadRecordBytes_def readFileBytes_def)
  then show ?thesis using assms(1) by (simp add: goodEntry_def intact_def)
qed

lemma eventRecords_kept:
  assumes "eventRecords z decodeImage decodeCloud d dir es"
    and "\<And>n. coveredName n \<Longrightarrow> readFile d' (dir @ [n]) = readFile d (dir @ [n])"
  shows "eventRecords z decodeImage decodeCloud d' dir es"
proof -
  have "coveredName ''manifest.csv''" by (simp add: coveredName_def extension_def find_last_of_def)
  moreover have "goodEntry z decodeImage decodeCloud d' dir e" if "goodEntry z decodeImage decodeCloud d dir e" for e
    using goodEntry_kept [OF that assms(2) [OF goodEntry_name(5) [OF that]]] .
  ultimately show ?thesis using assms by (simp add: eventRecords_def)
qed

text \<open>A file that a computation keeps whatever it holds is read as before.\<close>

lemma kept_file:
  assumes "\<And>x. keeps (at q (Some x)) m" "m w = (r, w')" "readFile (disk w) q = Some c"
  shows "readFile (disk w') q = Some c"
proof -
  have "at q (Some (File c)) w" using assms(3) by (auto simp: at_def readFile_def split: option.splits node.splits)
  from keepsD [OF assms(1,2) this] show ?thesis by (rule readFile_at)
qed

lemma goodEntry_file: "goodEntry z decodeImage decodeCloud d dir e \<Longrightarrow> \<exists>c. readFile d (dir @ [me_file e]) = Some c"
  using goodEntry_name(2) [of z decodeImage decodeCloud d dir e]
  by (auto simp: goodEntry_def intact_def loadRecordBytes_def readFileBytes_def split: if_splits option.splits)

text \<open>A job that succeeds adds its records to those of the event.\<close>

lemma job_adds_records:
  assumes run: "writeJobFiles k capacity job w = (Inr outcome, w')" "outcome_ok outcome" "pcd_local k"
    and before: "eventRecords z decodeImage decodeCloud (disk w) (directory job) es"
    and frames: "\<forall>r\<in>set (job_records job). enabledFor job r \<longrightarrow> sound_frame r \<and> readable z decodeImage decodeCloud k job r"
  shows "\<exists>es'. eventRecords z decodeImage decodeCloud (disk w') (directory job) (es @ es') \<and> persistedRecords outcome = length es'"
proof -
  from job_recorded [OF run] obtain es' where
    rec: "list_all2 (recorded k job (disk w')) (filter (enabledFor job) (job_records job)) es'" "persistedRecords outcome = length es'"
    and content: "readFile (disk w') (directory job @ [''manifest.csv'']) =
      Some (startText (readFile (disk w) (directory job @ [''manifest.csv''])) manifestHeader @ manifestText es')" by blast
  have "startText (readFile (disk w) (directory job @ [''manifest.csv''])) manifestHeader = manifestHeader @ newline # manifestText es"
    using before by (auto simp: eventRecords_def startText_def manifestHeader_def split: option.splits)
  with content have content': "readFile (disk w') (directory job @ [''manifest.csv'']) = Some (manifestHeader @ newline # manifestText (es @ es'))" by simp
  have old: "goodEntry z decodeImage decodeCloud (disk w') (directory job) e" if e: "e \<in> set es" for e
  proof -
    have good: "goodEntry z decodeImage decodeCloud (disk w) (directory job) e" using before e by (simp add: eventRecords_def)
    then obtain c where c: "readFile (disk w) (directory job @ [me_file e]) = Some c" using goodEntry_file by blast
    have "keeps (at (directory job @ [me_file e]) (Some x)) (writeJobFiles k capacity job)" for x
      using keeps_writeJobFiles(1) [OF run(3) goodEntry_name(3,4) [OF good]] .
    from kept_file [OF this run(1) c] c show ?thesis using goodEntry_kept [OF good] by simp
  qed
  have new: "goodEntry z decodeImage decodeCloud (disk w') (directory job) e" if e: "e \<in> set es'" for e
  proof -
    obtain r where r: "r \<in> set (filter (enabledFor job) (job_records job))" "recorded k job (disk w') r e"
      using rec(1) e by (metis in_set_conv_nth list_all2_conv_all_nth)
    then have "sound_frame r" "readable z decodeImage decodeCloud k job r" using frames by auto
    with r(2) show ?thesis by (rule recorded_entry_good)
  qed
  show ?thesis
    using old new content' rec(2) by (intro exI [of _ es']) (auto simp: eventRecords_def)
qed


section \<open>A job creates only files with trusted names\<close>

definition trustedName :: "path \<Rightarrow> path \<Rightarrow> bool" where
  "trustedName dir q \<longleftrightarrow> names_ok q \<and> safeRelativePath (relativeText dir q) \<and> newline \<notin> set (relativeText dir q)"

definition trusted :: "path \<Rightarrow> World \<Rightarrow> bool" where
  "trusted dir w \<longleftrightarrow> covered_ok (disk w) dir"

lemma trusted_iff:
  "trusted dir w \<longleftrightarrow> (\<forall>q. strict_prefix dir q \<and> readFile (disk w) q \<noteq> None \<and> coveredName (last q) \<longrightarrow> trustedName dir q)"
  by (auto simp: trusted_def covered_ok_def trustedName_def coveredFiles_iff)

lemma set_joined: "set (joined c fs) \<subseteq> insert c (\<Union>f\<in>set fs. set f)"
  by (induction fs) auto

lemma trusted_words:
  assumes "names_ok dir" "r \<noteq> []" "\<forall>name\<in>set r. safeComponent name \<and> (\<forall>c\<in>set name. word_char c)"
  shows "trustedName dir (dir @ r)"
proof -
  have r: "names_ok r" using assms(3) safeComponent_plain word_plain unfolding names_ok_def by blast
  then have elements: "pathElements (joined CHR ''/'' r) = r" using pathElements_joined [OF assms(2)] by simp
  obtain n rest where n: "r = n # rest" using assms(2) by (cases r) auto
  then obtain c cs where c: "n = c # cs" "c \<noteq> CHR ''/''" using r by (cases n) (auto simp: names_ok_def)
  obtain t where start: "joined CHR ''/'' r = c # t" unfolding n c(1) by (cases rest) auto
  have "safeRelativePath (joined CHR ''/'' r)"
    using elements c(2) assms(3) unfolding safeRelativePath_def by (auto simp: start list_all_iff)
  moreover have "newline \<notin> set (joined CHR ''/'' r)"
    using set_joined [of "CHR ''/''" r] assms(3) word_char_not by (fastforce simp: newline_def)
  moreover have "names_ok (dir @ r)" using assms(1) r by (auto simp: names_ok_def)
  ultimately show ?thesis by (simp add: trustedName_def relativeText_def)
qed

lemma temporary_uncovered: "n \<noteq> [] \<Longrightarrow> \<not> coveredName (n @ ''.tmp'')"
  using find_last_of_append [of "CHR ''.''" "''tmp''" n] by (simp add: coveredName_def extension_def)

lemma keeps_trusted:
  assumes "\<And>w r w' q. m w = (r, w') \<Longrightarrow> q \<notin> P \<Longrightarrow> readFile (disk w') q \<noteq> None \<Longrightarrow> readFile (disk w) q \<noteq> None"
    and "\<And>q. q \<in> P \<Longrightarrow> strict_prefix dir q \<Longrightarrow> coveredName (last q) \<Longrightarrow> trustedName dir q"
  shows "keeps (trusted dir) m"
  using assms unfolding trusted_iff by (intro keepsI) blast

lemma kept_absent:
  assumes "\<And>x. keeps (at q x) m" "m w = (r, w')"
  shows "readFile (disk w') q = readFile (disk w) q"
  using keepsD [OF assms(1,2), of "lookup (disk w) q"] by (simp add: at_def readFile_def)

lemma keeps_trusted_at:
  assumes "\<And>q x. q \<notin> P \<Longrightarrow> keeps (at q x) m" "\<And>q. q \<in> P \<Longrightarrow> strict_prefix dir q \<Longrightarrow> coveredName (last q) \<Longrightarrow> trustedName dir q"
  shows "keeps (trusted dir) m"
  using assms(2) kept_absent [OF assms(1)] by (intro keeps_trusted [of m P]) auto


named_theorems trusted_rules \<open>which computations create only files with trusted names\<close>

lemma removePath_files:
  "removePath p w = (ok, w') \<Longrightarrow> readFile (disk w') q \<noteq> None \<Longrightarrow> readFile (disk w) q \<noteq> None"
  using removePath_lookup [of p w ok w' q] removePath_target [of p w ok w'] by (cases "q = p") (auto simp: readFile_def)

lemma trusted_basic [trusted_rules]:
  "keeps (trusted dir) (createDirectories p)" "keeps (trusted dir) (removePath p)"
  by (rule keeps_trusted [where P = "{}"], simp add: createDirectories_reads, simp,
      rule keeps_trusted [where P = "{}"], erule removePath_files, assumption, simp)

lemma trusted_file [trusted_rules]:
  assumes "strict_prefix dir p \<Longrightarrow> coveredName (last p) \<Longrightarrow> trustedName dir p"
  shows "keeps (trusted dir) (appendContent p c)" "keeps (trusted dir) (openAppend p)"
  using assms by (auto intro!: keeps_trusted_at [where P = "{p}"] keeps_rules)

lemma trusted_store [trusted_rules]:
  assumes "p \<noteq> []" "last p \<noteq> []" "strict_prefix dir p \<Longrightarrow> coveredName (last p) \<Longrightarrow> trustedName dir p"
  shows "keeps (trusted dir) (storeAtomically p c)" "keeps (trusted dir) (renameFile (temporaryOf p) p)"
proof -
  have "\<not> coveredName (last (temporaryOf p))" using temporary_uncovered [OF assms(2)] by (simp add: temporaryOf_def)
  then show "keeps (trusted dir) (storeAtomically p c)" "keeps (trusted dir) (renameFile (temporaryOf p) p)"
    using assms(3) by (auto intro!: keeps_trusted_at [where P = "{p, temporaryOf p}"] keeps_rules)
qed

lemma trusted_pcd [trusted_rules]:
  assumes "pcd_local k" "p \<noteq> []" "last p \<noteq> []"
  shows "keeps (trusted dir) (savePcd k cloud (temporaryOf p))"
proof -
  have "\<not> coveredName (last (temporaryOf p))" using temporary_uncovered [OF assms(3)] by (simp add: temporaryOf_def)
  then show ?thesis using assms(1) by (auto intro!: keeps_trusted_at [where P = "{temporaryOf p}"] keeps_rules)
qed


lemma plain_names:
  "\<forall>n\<in>{''manifest.csv'', ''pairs.csv'', ''images'', ''pointclouds''}. safeComponent n \<and> (\<forall>c\<in>set n. word_char c)"
proof -
  have "list_all (\<lambda>n. list_all word_char n \<and> 5 \<le> length n \<and> list_all (\<lambda>c. c \<noteq> CHR ''.'') (take 5 n) \<and> last n \<noteq> CHR ''.'')
      [''manifest.csv'', ''pairs.csv'', ''images'', ''pointclouds'']" by code_simp
  then show ?thesis by (auto simp: list_all_iff intro!: safe_word)
qed

lemma trusted_names:
  assumes "names_ok dir"
  shows "n \<in> {''manifest.csv'', ''pairs.csv''} \<Longrightarrow> trustedName dir (dir @ [n])"
    and "base_name base \<Longrightarrow> s \<in> {''.bin'', ''.bin.zst'', ''.jpg'', ''.png'', ''.pcd''} \<Longrightarrow> trustedName dir (dir @ [base @ s])"
    and "base_name base \<Longrightarrow> s \<in> {''.bin'', ''.bin.zst'', ''.jpg'', ''.png'', ''.pcd''} \<Longrightarrow> trustedName dir (dir @ [convertedFolder t, base @ s])"
proof -
  show "trustedName dir (dir @ [n])" if "n \<in> {''manifest.csv'', ''pairs.csv''}"
    by (rule trusted_words [OF assms]) (use that plain_names in auto)
  show "trustedName dir (dir @ [base @ s])" if "base_name base" "s \<in> {''.bin'', ''.bin.zst'', ''.jpg'', ''.png'', ''.pcd''}"
    by (rule trusted_words [OF assms]) (use safe_record_name [OF that] in simp_all)
  have "convertedFolder t \<in> {''manifest.csv'', ''pairs.csv'', ''images'', ''pointclouds''}" by (simp add: convertedFolder_def)
  then show "trustedName dir (dir @ [convertedFolder t, base @ s])" if "base_name base" "s \<in> {''.bin'', ''.bin.zst'', ''.jpg'', ''.png'', ''.pcd''}"
    by (intro trusted_words [OF assms]) (use safe_record_name [OF that] plain_names in auto)
qed

lemma trusted_convert:
  assumes "pcd_local k" "names_ok (directory job)" "base_name base"
  shows "keeps (trusted (directory job)) (convertRecord k job record base)"
proof -
  have ext: "imageExtension (imageFormat job) \<in> {''.bin'', ''.bin.zst'', ''.jpg'', ''.png'', ''.pcd''}"
    "''.pcd'' \<in> {''.bin'', ''.bin.zst'', ''.jpg'', ''.png'', ''.pcd''}" by (simp_all add: imageExtension_def)
  note name = trusted_names(3) [OF assms(2,3) ext(1)] trusted_names(3) [OF assms(2,3) ext(2)]
  have ne: "base @ s \<noteq> []" for s using base_name_chars(2) [OF assms(3)] by auto
  have image: "keeps (trusted (directory job)) (convertImage k m (directory job @ [convertedFolder t]) base job)" for m t
    unfolding convertImage_def Let_def using name(1) [of t] ne
    by (auto intro!: keeps_rules trusted_rules split: option.splits sum.splits)
  have cloud: "keeps (trusted (directory job)) (convertPointCloud k m (directory job @ [convertedFolder t]) base job)" for m t
    unfolding convertPointCloud_def Let_def using name(2) [of t] ne assms(1)
    by (auto intro!: keeps_rules trusted_rules)
  show ?thesis
    unfolding convertRecord_def convertVariant_def Let_def using image cloud
    by (auto intro!: keeps_rules trusted_rules split: SensorDataVariant.splits option.splits)
qed

lemma trusted_writeRecord:
  assumes "pcd_local k" "names_ok (directory job)" "os_path manifest = directory job @ [''manifest.csv'']"
  shows "keeps (trusted (directory job)) (writeRecord k capacity job record outcome manifest)"
proof (rule keepsI)
  fix w r w'
  assume w: "trusted (directory job) w" and run: "writeRecord k capacity job record outcome manifest w = (r, w')"
  let ?prefix = "sensorPrefix (sd_type record) @ ''_'' @ int_to_string (timestampOf record)"
  let ?base = "recordBaseName (disk w) (directory job) ?prefix 0"
  have base: "base_name ?base" using recordBaseName_spec [of 0 "disk w" "directory job" ?prefix] by (auto simp: base_name_def)
  have ne: "?base @ s \<noteq> []" for s using base_name_chars(2) [OF base] by auto
  have name: "trustedName (directory job) (directory job @ [?base @ ''.bin''])" "trustedName (directory job) (directory job @ [?base @ ''.bin.zst''])"
    "trustedName (directory job) (directory job @ [''manifest.csv''])"
    using trusted_names [OF assms(2)] base by auto
  have "keeps (trusted (directory job)) (compressRecord k job raw (?base @ ''.bin''))" for raw
    unfolding compressRecord_def using name(2) ne by (auto intro!: keeps_rules trusted_rules split: option.splits)
  moreover have "keeps (trusted (directory job)) (storeRaw job c raw (?base @ ''.bin''))" for c raw
    unfolding storeRaw_def using name(1) ne by (auto intro!: keeps_rules trusted_rules)
  moreover have "keeps (trusted (directory job)) (appendContent (os_path manifest) t)" for t
    by (intro trusted_rules) (simp add: assms(3) name(3))
  ultimately have "keeps (trusted (directory job)) (storeRecord k capacity job record outcome manifest raw ?base)" for raw
    unfolding storeRecord_def Let_def by (intro keeps_rules trusted_convert assms(1,2) base)
  note keepsD [OF this _ w]
  then show "trusted (directory job) w'" using w run by (auto simp: writeRecord_def split: sum.splits if_splits)
qed

lemma trusted_job:
  assumes "pcd_local k" "names_ok (directory job)"
  shows "keeps (trusted (directory job)) (writeJobFiles k capacity job)"
  using trusted_names(1) [OF assms(2)]
  by (auto intro!: keeps_writeJobFiles_all keeps_writePairs_all keeps_recordLoop_all trusted_writeRecord trusted_rules assms)


section \<open>From the last job to the verification\<close>

lemma marker_frame:
  assumes "writeAtomically (dir @ [m]) c w = (ok, w')" "strict_prefix dir q" "q \<noteq> dir @ [m]" "q \<noteq> dir @ [m @ ''.tmp'']"
  shows "lookup (disk w') q = lookup (disk w) q"
proof -
  have "\<not> prefix q (dir @ [m])" using assms(2,3) by (auto simp: strict_prefix_def prefix_snoc dest: prefix_order.antisym)
  with assms show ?thesis by (intro write_frame [OF _ assms(1)]) auto
qed

lemma finish_frame:
  assumes "strict_prefix dir q" "\<forall>m\<in>{''.pending'', ''.complete'', ''.complete.tmp'', ''.failed'', ''.failed.tmp''}. q \<noteq> dir @ [m]"
  shows "lookup (disk (finishEvent dir b n why t w)) q = lookup (disk w) q"
proof -
  have complete: "lookup (disk w') q = lookup (disk w) q" if "event_complete dir n w = (ok, w')" for ok w' w
    using that assms marker_frame [of dir "''.complete''" _ w _ _ q]
    by (auto simp: event_complete_def removePath_other split: prod.splits if_splits)
  have failed: "lookup (disk (snd (event_fail dir why t w))) q = lookup (disk w) q" for why w
    using assms marker_frame [of dir "''.failed''" _ w _ _ q]
    by (auto simp: event_fail_def removePath_other split: prod.splits)
  show ?thesis using complete failed by (auto simp: finishEvent_def split: prod.splits)
qed

lemma admit_spares:
  assumes "admitWrite env t dm w = (ok, dm', w')" "\<forall>m. dm = Some m \<longrightarrow> childOf (recordRoot m) dir" "pathExists (disk w) (pendingMark dir)"
  shows "prefix dir q \<Longrightarrow> lookup (disk w') q = lookup (disk w) q"
    and "dm' = Some m' \<Longrightarrow> \<exists>m. dm = Some m \<and> recordRoot m' = recordRoot m \<and> diskPolicy m' = diskPolicy m"
proof -
  show "lookup (disk w') q = lookup (disk w) q" if "prefix dir q"
  proof (cases dm)
    case (Some m)
    have "\<not> collectable (diskPolicy m) (disk w) dir" using assms(3) by (simp add: collectable_def)
    from uncollected_untouched [OF _ refl this that] show ?thesis
      using assms(1,2) Some by (auto simp: admitWrite_def prepareForWrite_def case_prod_beta Let_def split: if_splits)
  qed (use assms(1) in \<open>simp add: admitWrite_def\<close>)
  show "\<exists>m. dm = Some m \<and> recordRoot m' = recordRoot m \<and> diskPolicy m' = diskPolicy m" if "dm' = Some m'"
    using assms(1) that enforceRetention_manager
    by (cases dm) (auto simp: admitWrite_def prepareForWrite_def case_prod_beta Let_def split: if_splits)
qed

lemma verifyLoop_good:
  "\<forall>e\<in>set es. intact z decodeImage decodeCloud d dir e \<Longrightarrow> \<exists>r. verifyLoop z decodeImage decodeCloud d dir options es report = Some r"
  by (induction es arbitrary: report) (auto simp: intact_iff verifyEntry_def Let_def)

lemma read_event:
  assumes "eventRecords z decodeImage decodeCloud d dir es" "es \<noteq> []"
  shows "readManifest (readFile d (dir @ [''manifest.csv''])) = (es, [])"
proof -
  have "readFile d (dir @ [''manifest.csv'']) = Some (manifestHeader @ newline # manifestText es)" "\<forall>e\<in>set es. manifest_good e"
    using assms by (auto simp: eventRecords_def goodEntry_def split: option.splits)
  then show ?thesis using manifest.read_complete [of es manifestHeader] by (simp add: readManifest_def manifestHeader_def newline_def)
qed

text \<open>A checked directory with the records of an event passes for every selection of some record.\<close>

lemma event_verifies:
  assumes "eventRecords z decodeImage decodeCloud d dir es" "es \<noteq> []" "verifyChecksumManifest sha d dir [] = (True, [])"
  shows "\<exists>r. verifyEventDirectory sha z decodeImage decodeCloud d dir options = Some r \<and>
     (report_ok r \<longleftrightarrow> selectedFrom 0 options es \<noteq> []) \<and> verifiedEntries r = length (selectedFrom 0 options es)"
proof -
  have intact: "\<forall>e\<in>set es. intact z decodeImage decodeCloud d dir e" using assms(1) by (simp add: eventRecords_def goodEntry_def)
  then obtain r where loop: "verifyLoop z decodeImage decodeCloud d dir options es
      \<lparr>totalEntries = 0, verifiedEntries = 0, failedEntries = 0, problems = [], warnings = []\<rparr> = Some r" using verifyLoop_good by blast
  then have r: "verifyEventDirectory sha z decodeImage decodeCloud d dir options = Some r"
    by (simp add: verifyEventDirectory_def assms(2,3) read_event [OF assms(1,2)])
  have sub: "set (selectedFrom 0 options es) \<subseteq> set es" by (auto simp: selectedFrom_def Let_def dest: in_set_takeD)
  then have "filter (intact z decodeImage decodeCloud d dir) (selectedFrom 0 options es) = selectedFrom 0 options es"
    using intact by (auto simp: filter_id_conv)
  then have "verifiedEntries r = length (selectedFrom 0 options es)" using verifyLoop_run [OF loop] by simp
  moreover have "report_ok r \<longleftrightarrow> selectedFrom 0 options es \<noteq> []"
    using report_iff [OF r] read_event [OF assms(1,2)] assms(3) sub intact by auto
  ultimately show ?thesis using r by blast
qed


lemma not_marker: "coveredName (last q) \<or> q = dir @ [x] \<Longrightarrow> \<not> coveredName m \<and> m \<noteq> x \<Longrightarrow> q \<noteq> dir @ [m]"
  by auto

text \<open>The files of an event that nothing touches any more once the checksums are written.\<close>

lemma sealed_files:
  assumes run: "processJob env t job s w = (Inr s', w')" "finalJob job" "pcd_local (codec env)"
    and fresh: "lookup (disk w) (completeMark (directory job)) = None" "lookup (disk w') (completeMark (directory job)) \<noteq> None"
    and event: "pathExists (disk w) (pendingMark (directory job))" "lookup (disk w) (directory job @ [''.uploaded'']) = None"
    and manager: "\<forall>m. diskManager s = Some m \<longrightarrow> childOf (recordRoot m) (directory job) \<and> protectUnuploaded (diskPolicy m)"
  obtains outcome w0 w1 w2 where "\<And>q. prefix (directory job) q \<Longrightarrow> lookup (disk w0) q = lookup (disk w) q"
    and "writeJobFiles (codec env) (bufferCapacity env) job w0 = (Inr outcome, w1)" "outcome_ok outcome"
    and "0 < progress_persisted (noteOutcome (eventProgress s (directory job)) outcome)"
    and "writeChecksumManifest (digest env) (directory job) w1 = (Inr True, w2)"
    and "\<And>q. strict_prefix (directory job) q \<Longrightarrow> coveredName (last q) \<or> q = directory job @ [''manifest.sha256''] \<Longrightarrow>
      lookup (disk w') q = lookup (disk w2) q"
proof -
  let ?dir = "directory job" and ?up = "directory job @ [''.uploaded'']"
  from completed_turn [OF run fresh] obtain outcome dm w1 w2 w3 where c:
    "writeJob env t job (diskManager s) w = (Inr outcome, dm, w1)" "outcome_ok outcome"
    "0 < progress_persisted (noteOutcome (eventProgress s ?dir) outcome)"
    "writeChecksumManifest (digest env) ?dir w1 = (Inr True, w2)"
    and w3: "w3 = finishEvent ?dir False (progress_persisted (noteOutcome (eventProgress s ?dir) outcome)) [] (markerTime t) w2"
      "lookup (disk w3) (completeMark ?dir) \<noteq> None"
      "w' = w3 \<or> (\<exists>m. dm = Some m \<and> w' = snd (enforceRetention False (steadyAfter t) (systemAfter t) m w3))"
    unfolding Let_def by blast
  obtain ok dm0 w0 where admit: "admitWrite env t (diskManager s) w = (ok, dm0, w0)" using prod_cases3 by blast
  have child: "\<forall>m. diskManager s = Some m \<longrightarrow> childOf (recordRoot m) ?dir" using manager by blast
  note spares = admit_spares [OF admit child event(1)]
  have ok: "ok" using c(1,2) admit by (cases ok) (auto simp: writeJob_def failedOutcome_def)
  then have files: "writeJobFiles (codec env) (bufferCapacity env) job w0 = (Inr outcome, w1)" and dm: "dm = dm0"
    using c(1) admit by (auto simp: writeJob_def split: prod.splits)
  have up3: "lookup (disk w3) ?up = None"
  proof -
    have w0: "at ?up None w0" using spares(1) [of ?up] event(2) by (simp add: at_def)
    have "spared ''.uploaded'' None" "''.uploaded'' \<noteq> ''pairs.csv''" by (simp_all add: spared_def suffix_def)
    from keepsD [OF keeps_writeJobFiles(1) [OF run(3) this] files w0] have w1: "at ?up None w1" .
    have "keeps (at ?up None) (writeChecksumManifest (digest env) ?dir)" by (rule keeps_writeChecksum) simp_all
    from keepsD [OF this c(4) w1] have "at ?up None w2" .
    then show ?thesis unfolding w3(1) by (subst finish_frame) (simp_all add: at_def strict_prefix_def)
  qed
  have last: "lookup (disk w') q = lookup (disk w3) q" if "strict_prefix ?dir q" for q
    using w3(3)
  proof (elim disjE exE conjE)
    fix m assume m: "dm = Some m" "w' = snd (enforceRetention False (steadyAfter t) (systemAfter t) m w3)"
    then have "childOf (recordRoot m) ?dir" "protectUnuploaded (diskPolicy m)" using spares(2) [of m] manager dm by auto
    then have "\<not> collectable (diskPolicy m) (disk w3) ?dir" using w3(2) up3 by (simp add: collectable_def pathExists_def)
    from uncollected_untouched [OF \<open>childOf (recordRoot m) ?dir\<close> refl this, of q] that
    show "lookup (disk w') q = lookup (disk w3) q" unfolding m(2) by (simp add: strict_prefix_def)
  qed simp
  have sealed: "lookup (disk w') q = lookup (disk w2) q"
    if "strict_prefix ?dir q" "coveredName (last q) \<or> q = ?dir @ [''manifest.sha256'']" for q
  proof -
    have "\<forall>m\<in>{''.pending'', ''.complete'', ''.complete.tmp'', ''.failed'', ''.failed.tmp''}. \<not> coveredName m \<and> m \<noteq> ''manifest.sha256''"
      by (simp add: coveredName_def)
    then have "\<forall>m\<in>{''.pending'', ''.complete'', ''.complete.tmp'', ''.failed'', ''.failed.tmp''}. q \<noteq> ?dir @ [m]"
      by - (rule ballI, drule (1) bspec, erule not_marker [OF that(2)])
    from last [OF that(1)] finish_frame [OF that(1) this] show ?thesis unfolding w3(1) by simp
  qed
  show thesis by (rule that [OF spares(1) files c(2-4) sealed])
qed


text \<open>
  An earlier job of an event that fails nothing keeps what the theorem below asks of the event
  before its last job: a directory just accepted has it, with no records.
\<close>

lemma earlier_job_keeps:
  assumes "processJob env t job s w = (Inr s', w')" "\<not> finalJob job" "pcd_local (codec env)"
    and "\<forall>p. eventProgress s' (directory job) = Some p \<longrightarrow> \<not> progress_failed p"
    and "pathExists (disk w) (pendingMark (directory job))" "\<forall>m. diskManager s = Some m \<longrightarrow> childOf (recordRoot m) (directory job)"
    and names: "names_ok (directory job)" "covered_ok (disk w) (directory job)"
    and before: "eventRecords z decodeImage decodeCloud (disk w) (directory job) es"
    and progress: "\<forall>p. eventProgress s (directory job) = Some p \<longrightarrow> progress_persisted p \<le> length es"
    and frames: "\<forall>r\<in>set (job_records job). enabledFor job r \<longrightarrow>
      sound_frame r \<and> readable z decodeImage decodeCloud (codec env) job r"
  shows "covered_ok (disk w') (directory job) \<and> (\<exists>es'. eventRecords z decodeImage decodeCloud (disk w') (directory job) (es @ es') \<and>
    (\<forall>p. eventProgress s' (directory job) = Some p \<longrightarrow> progress_persisted p \<le> length (es @ es')))"
proof -
  let ?dir = "directory job"
  obtain r dm w1 where job: "writeJob env t job (diskManager s) w = (r, dm, w1)" using prod_cases3 by blast
  let ?p = "noteOutcome (eventProgress s ?dir) (caughtOutcome r)"
  have s': "eventProgress s' ?dir = Some ?p" "w' = w1" using assms(1,2) job by (auto simp: processJob_def Let_def)
  obtain outcome where outcome: "r = Inr outcome" "outcome_ok outcome"
    using assms(4) s'(1) by (cases r) (auto simp: noteOutcome_good caughtOutcome_def failedOutcome_def)
  obtain ok dm0 w0 where admit: "admitWrite env t (diskManager s) w = (ok, dm0, w0)" using prod_cases3 by blast
  note spares = admit_spares(1) [OF admit assms(6,5)]
  have "ok" using job outcome admit by (cases ok) (auto simp: writeJob_def failedOutcome_def)
  then have files: "writeJobFiles (codec env) (bufferCapacity env) job w0 = (Inr outcome, w1)"
    using job outcome(1) admit by (auto simp: writeJob_def split: prod.splits)
  have files0: "readFile (disk w0) q = readFile (disk w) q" if "prefix ?dir q" for q using spares [OF that] by (simp add: readFile_def)
  have before0: "eventRecords z decodeImage decodeCloud (disk w0) ?dir es"
    by (rule eventRecords_kept [OF before]) (simp add: files0)
  have "trusted ?dir w" using names(2) by (simp add: trusted_def)
  then have "trusted ?dir w0" using files0 unfolding trusted_iff by (auto simp: strict_prefix_def)
  from keepsD [OF trusted_job [OF assms(3) names(1)] files this] have "covered_ok (disk w1) ?dir" by (simp add: trusted_def)
  moreover from job_adds_records [OF files outcome(2) assms(3) before0 frames] obtain es' where
    es': "eventRecords z decodeImage decodeCloud (disk w1) ?dir (es @ es')" "persistedRecords outcome = length es'" by blast
  moreover have "progress_persisted ?p \<le> length (es @ es')"
    using progress es'(2) outcome by (cases "eventProgress s ?dir") (auto simp: noteOutcome_def caughtOutcome_def Let_def)
  ultimately show ?thesis using s' by auto
qed

section \<open>Properties\<close>

text \<open>
  C7. Complete means verifiable: if the worker's turn with the last job of an event makes
  \<open>.complete\<close> appear, then, whatever failed on the way, the verification of the event
  directory returns, verifies every record any of its jobs stored, for each selection of
  options, and reports success for each that selects a record; at least one record exists,
  and \<open>manifest.csv\<close> reads back as exactly those records.
\<close>

theorem completed_event_verifies:
  assumes "processJob env t job s w = (Inr s', w')" "finalJob job" "pcd_local (codec env)"
    and "lookup (disk w) (completeMark (directory job)) = None" "lookup (disk w') (completeMark (directory job)) \<noteq> None"
    and "pathExists (disk w) (pendingMark (directory job))" "lookup (disk w) (directory job @ [''.uploaded'']) = None"
    and "\<forall>m. diskManager s = Some m \<longrightarrow> childOf (recordRoot m) (directory job) \<and> protectUnuploaded (diskPolicy m)"
    and digest: "\<And>c dg. digest env c = Some dg \<Longrightarrow> length dg = 64 \<and> list_all isHex dg"
    and names: "names_ok (directory job)" "covered_ok (disk w) (directory job)"
    and before: "eventRecords z decodeImage decodeCloud (disk w) (directory job) es"
    and progress: "\<forall>p. eventProgress s (directory job) = Some p \<longrightarrow> progress_persisted p \<le> length es"
    and frames: "\<forall>r\<in>set (job_records job). enabledFor job r \<longrightarrow>
      sound_frame r \<and> readable z decodeImage decodeCloud (codec env) job r"
  shows "\<exists>es'. es @ es' \<noteq> [] \<and>
    readManifest (readFile (disk w') (directory job @ [''manifest.csv''])) = (es @ es', []) \<and>
    (\<forall>options. \<exists>r. verifyEventDirectory (digest env) z decodeImage decodeCloud (disk w') (directory job) options = Some r \<and>
       (report_ok r \<longleftrightarrow> selectedFrom 0 options (es @ es') \<noteq> []) \<and>
       verifiedEntries r = length (selectedFrom 0 options (es @ es')))"
proof -
  let ?dir = "directory job"
  obtain outcome w0 w1 w2 where same: "\<And>q. prefix ?dir q \<Longrightarrow> lookup (disk w0) q = lookup (disk w) q"
    and job: "writeJobFiles (codec env) (bufferCapacity env) job w0 = (Inr outcome, w1)" "outcome_ok outcome"
    and some: "0 < progress_persisted (noteOutcome (eventProgress s ?dir) outcome)"
    and wrote: "writeChecksumManifest (digest env) ?dir w1 = (Inr True, w2)"
    and sealed: "\<And>q. strict_prefix ?dir q \<Longrightarrow> coveredName (last q) \<or> q = ?dir @ [''manifest.sha256''] \<Longrightarrow>
      lookup (disk w') q = lookup (disk w2) q"
    by (rule sealed_files [OF assms(1-8)]) blast
  have files0: "readFile (disk w0) q = readFile (disk w) q" if "prefix ?dir q" for q using same [OF that] by (simp add: readFile_def)
  have before0: "eventRecords z decodeImage decodeCloud (disk w0) ?dir es"
    by (rule eventRecords_kept [OF before]) (simp add: files0)
  have "trusted ?dir w" using names(2) by (simp add: trusted_def)
  then have names0: "trusted ?dir w0" using files0 unfolding trusted_iff by (auto simp: strict_prefix_def)
  from job_adds_records [OF job assms(3) before0 frames] obtain es' where
    es': "eventRecords z decodeImage decodeCloud (disk w1) ?dir (es @ es')" "persistedRecords outcome = length es'" by blast
  have ne: "es @ es' \<noteq> []"
    using some progress es'(2) by (cases "eventProgress s ?dir") (auto simp: noteOutcome_def Let_def split: if_splits)
  have "covered_ok (disk w1) ?dir"
    using keepsD [OF trusted_job [OF assms(3) names(1)] job(1) names0] by (simp add: trusted_def)
  from verify_written [OF digest this wrote sealed] have checked: "verifyChecksumManifest (digest env) (disk w') ?dir [] = (True, [])" by simp
  have kept: "readFile (disk w') (?dir @ [n]) = readFile (disk w1) (?dir @ [n])" if "coveredName n" for n
  proof -
    have "?dir @ [n] \<noteq> ?dir @ [''manifest.sha256'']" "?dir @ [n] \<noteq> ?dir @ [''manifest.sha256.tmp'']" using that uncovered_manifest by auto
    then have "lookup (disk w2) (?dir @ [n]) = lookup (disk w1) (?dir @ [n])"
      using keepsD [OF keeps_writeChecksum(1) wrote, of "?dir @ [n]" "lookup (disk w1) (?dir @ [n])"] by (simp add: at_def)
    moreover have "lookup (disk w') (?dir @ [n]) = lookup (disk w2) (?dir @ [n])" using that by (intro sealed) (simp_all add: strict_prefix_def)
    ultimately show ?thesis by (simp add: readFile_def)
  qed
  have after: "eventRecords z decodeImage decodeCloud (disk w') ?dir (es @ es')" by (rule eventRecords_kept [OF es'(1) kept])
  show ?thesis using ne read_event [OF after ne] event_verifies [OF after ne checked] by blast
qed


definition sampleDecoder :: "string \<Rightarrow> string + Image" where
  "sampleDecoder bytes = Inr \<lparr>img_stamp = 5, img_height = 1, img_width = 1, img_step = 1,
     img_encoding = ''mono8'', img_data = bytes\<rparr>"

lemma stored_frames: "decompressZstd storedFrames ''p'' = Some (Inr ''p'')"
  by (simp add: decompressZstd_def storedFrames_def streamLoop.simps copyStream_def chunkSize_def kMaxRecordBytes_def)

lemma sample_readable:
  "\<forall>r\<in>set (job_records sampleJob). enabledFor sampleJob r \<longrightarrow> sound_frame r \<and>
     readable storedFrames sampleDecoder (\<lambda>s. Inl ''no cloud'') (codec sampleSurroundings) sampleJob r"
  by (simp add: sampleJob_def sound_frame_def readable_def cameraFrame_def timestampOf_def serialize_def sampleSurroundings_def plainCodec_def
      sampleDecoder_def stored_frames kMaxRecordBytes_def in_int64_def INT64_MIN_def INT64_MAX_def)

theorem completed_event_verifies_witness:
  "\<exists>w' :: World. \<exists>r es. es \<noteq> [] \<and> readManifest (readFile (disk w') (directory sampleJob @ [''manifest.csv''])) = (es, []) \<and>
     verifyEventDirectory sampleSha storedFrames sampleDecoder (\<lambda>s. Inl ''no cloud'') (disk w') (directory sampleJob)
       \<lparr>vo_sensor = [], vo_limit = 0\<rparr> = Some r \<and> report_ok r"
proof -
  from sample_completed obtain s' w' where run:
    "processJob sampleSurroundings sampleClocks sampleJob (newWorker 3 None) (pendingStore []) = (Inr s', w')"
    "lookup (disk w') (completeMark (directory sampleJob)) \<noteq> None" by blast
  have store: "pathExists (disk (pendingStore [])) (pendingMark (directory sampleJob))"
    "lookup (disk (pendingStore [])) (directory sampleJob @ [''.uploaded'']) = None"
    "names_ok (directory sampleJob)"
    by (simp_all add: pendingStore_def sampleJob_def lookup_def pathExists_def names_ok_def)
  have names: "covered_ok (disk (pendingStore [])) (directory sampleJob)"
    by (simp add: covered_ok_def coveredFiles_def below_def pendingStore_def sampleJob_def coveredName_def)
  have fresh: "eventRecords storedFrames sampleDecoder (\<lambda>s. Inl ''no cloud'') (disk (pendingStore [])) (directory sampleJob) []"
    by (simp add: eventRecords_def readFile_def pendingStore_def sampleJob_def lookup_def)
  have manager: "\<forall>m. diskManager (newWorker 3 None) = Some m \<longrightarrow> childOf (recordRoot m) (directory sampleJob) \<and> protectUnuploaded (diskPolicy m)"
    "\<forall>p. eventProgress (newWorker 3 None) (directory sampleJob) = Some p \<longrightarrow> progress_persisted p \<le> length []"
    by (simp_all add: newWorker_def)
  have sha: "digest sampleSurroundings c = Some dg \<Longrightarrow> length dg = 64 \<and> list_all isHex dg" for c dg
    using sample_sha by (simp add: sampleSurroundings_def)
  have "\<exists>es. [] @ es \<noteq> [] \<and> readManifest (readFile (disk w') (directory sampleJob @ [''manifest.csv''])) = ([] @ es, []) \<and>
    (\<forall>options. \<exists>r. verifyEventDirectory (digest sampleSurroundings) storedFrames sampleDecoder (\<lambda>s. Inl ''no cloud'') (disk w') (directory sampleJob) options = Some r \<and>
       (report_ok r \<longleftrightarrow> selectedFrom 0 options ([] @ es) \<noteq> []) \<and> verifiedEntries r = length (selectedFrom 0 options ([] @ es)))"
    by (rule completed_event_verifies [OF run(1) sample_final sample_pending run(2) store(1,2) manager(1) _ store(3) names fresh manager(2) sample_readable])
      (rule sha)
  then obtain es where es: "[] @ es \<noteq> []" "readManifest (readFile (disk w') (directory sampleJob @ [''manifest.csv''])) = ([] @ es, [])"
    and verifies: "\<forall>options. \<exists>r. verifyEventDirectory (digest sampleSurroundings) storedFrames sampleDecoder (\<lambda>s. Inl ''no cloud'') (disk w') (directory sampleJob) options = Some r \<and>
       (report_ok r \<longleftrightarrow> selectedFrom 0 options ([] @ es) \<noteq> []) \<and> verifiedEntries r = length (selectedFrom 0 options ([] @ es))"
    by (elim exE conjE) (rule that; assumption)
  let ?all = "\<lparr>vo_sensor = [], vo_limit = 0\<rparr>"
  from spec [OF verifies, of ?all] obtain r where
    r: "verifyEventDirectory (digest sampleSurroundings) storedFrames sampleDecoder (\<lambda>s. Inl ''no cloud'') (disk w') (directory sampleJob) ?all = Some r"
    "report_ok r \<longleftrightarrow> selectedFrom 0 ?all ([] @ es) \<noteq> []"
    by (elim exE conjE) (rule that; assumption)
  have "digest sampleSurroundings = sampleSha" by (simp add: sampleSurroundings_def)
  note found = r(1) [unfolded this]
  have "report_ok r" using r(2) es(1) by (simp add: selectedFrom_def)
  with found es [unfolded append_Nil] show ?thesis by (intro exI conjI) assumption+
qed

end
