(* ===== verification/Record_Reader.thy ===== *)
theory Record_Reader
  imports Record_Verify Storage_Job
begin

text \<open>
  The command line tool \<open>record_reader.cpp\<close>: it lists the records of an event directory,
  exports them as pictures and point clouds and verifies them.  What it prints is a list of
  \<open>Line\<close>s, one constructor per statement; what it calls of OpenCV and PCL is the record
  \<open>Exporter\<close>, next to the arguments of theory Record_Verify.  An exception leaves the program.
\<close>

section \<open>Arguments\<close>

datatype Line = Usage | NotADirectory string | BadSensor | BadLimit | UnknownArgument string
  | Summary string nat nat | Row ManifestEntry nat | PairSummary nat nat
  | ExportDirFailed | ReadFailed string string | ExportFailed string string | Exported nat string
  | Checked nat nat nat | Problem string | Warning string

definition toSizeT :: "string \<Rightarrow> nat option" where
  "toSizeT t =
     (case stoll t of None \<Rightarrow> None
      | Some (parsed, consumed) \<Rightarrow> if parsed < 0 \<or> consumed \<noteq> length t then None else Some (nat parsed))"

record ReaderOptions =
  ro_options :: VerifyOptions
  exportDir :: string
  wantVerify :: bool

definition defaultOptions :: ReaderOptions where
  "defaultOptions = \<lparr>ro_options = \<lparr>vo_sensor = [], vo_limit = 0\<rparr>, exportDir = [], wantVerify = False\<rparr>"

text \<open>The loop over \<open>argv\<close>: the messages before exit code 1, or the options.\<close>

fun parseArguments :: "string list \<Rightarrow> ReaderOptions \<Rightarrow> Line list + ReaderOptions" where
  "parseArguments [] ro = Inr ro"
| "parseArguments [argument] ro =
     (if argument = ''--verify'' then Inr (ro\<lparr>wantVerify := True\<rparr>) else Inl [UnknownArgument argument, Usage])"
| "parseArguments (argument # v # rest) ro =
     (if argument = ''--verify'' then parseArguments (v # rest) (ro\<lparr>wantVerify := True\<rparr>)
      else if argument = ''--export'' then parseArguments rest (ro\<lparr>exportDir := v\<rparr>)
      else if argument = ''--sensor'' then
        (if v \<noteq> ''camera'' \<and> v \<noteq> ''lidar'' then Inl [BadSensor]
         else parseArguments rest (ro\<lparr>ro_options := (ro_options ro)\<lparr>vo_sensor := v\<rparr>\<rparr>))
      else if argument = ''--limit'' then
        (case toSizeT v of None \<Rightarrow> Inl [BadLimit]
         | Some limit \<Rightarrow> parseArguments rest (ro\<lparr>ro_options := (ro_options ro)\<lparr>vo_limit := limit\<rparr>\<rparr>))
      else Inl [UnknownArgument argument, Usage])"

text \<open>
  The path a name denotes from a directory: \<open>dir / name\<close> of \<open>std::filesystem\<close>, which an
  absolute name replaces, as the operating system follows it.
\<close>

definition follow :: "path \<Rightarrow> string \<Rightarrow> path" where
  "follow here name =
     resolve (if name \<noteq> [] \<and> hd name = CHR ''/'' then [] else here) (split_fields CHR ''/'' name)"

section \<open>Listing\<close>

fun listEntries :: "VerifyOptions \<Rightarrow> disk \<Rightarrow> path \<Rightarrow> ManifestEntry list \<Rightarrow> nat \<Rightarrow> Line list" where
  "listEntries options d dir [] shown = []"
| "listEntries options d dir (entry # rest) shown =
     (if vo_sensor options \<noteq> [] \<and> me_sensor entry \<noteq> vo_sensor options then listEntries options d dir rest shown
      else if vo_limit options \<noteq> 0 \<and> shown \<ge> vo_limit options then []
      else Row entry (case readFile d (follow dir (me_file entry)) of None \<Rightarrow> 0 | Some bytes \<Rightarrow> length bytes) #
             listEntries options d dir rest (Suc shown))"

definition pairSummary :: "PairEntry list \<Rightarrow> Line list" where
  "pairSummary ps =
     (if ps = [] then []
      else let matched = length (filter (\<lambda>p. pe_status p = ''matched'') ps) in [PairSummary matched (length ps - matched)])"

section \<open>Exporting\<close>

record Exporter =
  conversions :: Codec
  imwrite :: "path \<Rightarrow> Mat \<Rightarrow> (string, bool) action"
  savePcdXyz :: "path \<Rightarrow> PointCloud2 \<Rightarrow> (string, bool) action"

definition exportImage :: "Exporter \<Rightarrow> Image \<Rightarrow> path \<Rightarrow> (string, bool) action" where
  "exportImage lib message target =
     (if img_height message = 0 \<or> img_width message = 0 \<or> img_step message = 0 \<or>
         img_step message * img_height message > length (img_data message)
      then ret False
      else case bgrImage (conversions lib) message of None \<Rightarrow> ret False | Some mat \<Rightarrow> imwrite lib target mat)"

definition exportPointCloud :: "Exporter \<Rightarrow> PointCloud2 \<Rightarrow> path \<Rightarrow> (string, bool) action" where
  "exportPointCloud lib message target = savePcdXyz lib target message"

text \<open>The export of a record that could be read: whether it worked, and \<open>loadError\<close>.\<close>

definition exportRecord ::
  "(string \<Rightarrow> string + Image) \<Rightarrow> (string \<Rightarrow> string + PointCloud2) \<Rightarrow> Exporter \<Rightarrow> path \<Rightarrow> ManifestEntry \<Rightarrow> string \<Rightarrow>
   (string, bool \<times> string) action" where
  "exportRecord decodeImage decodeCloud lib target entry bytes =
     (let base = me_sensor entry @ ''_'' @ int_to_string (me_timestampNs entry) in
      if me_sensor entry = ''camera'' then
        (case decodeImage bytes of Inl e \<Rightarrow> ret (False, e)
         | Inr img \<Rightarrow> andThen (exportImage lib img (follow target (base @ ''.png''))) (\<lambda>ok. ret (ok, [])))
      else
        (case decodeCloud bytes of Inl e \<Rightarrow> ret (False, e)
         | Inr cloud \<Rightarrow> andThen (exportPointCloud lib cloud (follow target (base @ ''.pcd''))) (\<lambda>ok. ret (ok, []))))"

text \<open>The loop; \<open>None\<close> where reading a record does not return.\<close>

type_synonym progress = "nat \<times> int \<times> Line list"

fun exportLoop ::
  "'s Zstd \<Rightarrow> (string \<Rightarrow> string + Image) \<Rightarrow> (string \<Rightarrow> string + PointCloud2) \<Rightarrow> Exporter \<Rightarrow> VerifyOptions \<Rightarrow> path \<Rightarrow> path \<Rightarrow>
   ManifestEntry list \<Rightarrow> progress \<Rightarrow> World \<Rightarrow> ((string + progress) \<times> World) option" where
  "exportLoop z decodeImage decodeCloud lib options dir target [] p w = Some (Inr p, w)"
| "exportLoop z decodeImage decodeCloud lib options dir target (entry # rest) (exported, exitCode, out) w =
     (if vo_sensor options \<noteq> [] \<and> me_sensor entry \<noteq> vo_sensor options
      then exportLoop z decodeImage decodeCloud lib options dir target rest (exported, exitCode, out) w
      else if vo_limit options \<noteq> 0 \<and> exported \<ge> vo_limit options then Some (Inr (exported, exitCode, out), w)
      else case loadRecordBytes z (disk w) dir entry of
          None \<Rightarrow> None
        | Some (Inl e) \<Rightarrow> exportLoop z decodeImage decodeCloud lib options dir target rest
              (exported, 2, out @ [ReadFailed (me_file entry) e]) w
        | Some (Inr bytes) \<Rightarrow>
            (case exportRecord decodeImage decodeCloud lib target entry bytes w of
               (Inl e, w') \<Rightarrow> Some (Inl e, w')
             | (Inr (ok, loadError), w') \<Rightarrow>
                 exportLoop z decodeImage decodeCloud lib options dir target rest
                   (if ok then (Suc exported, exitCode, out)
                    else (exported, 2, out @ [ExportFailed (me_sensor entry @ ''_'' @ int_to_string (me_timestampNs entry)) loadError])) w'))"

text \<open>The export part of \<open>main\<close>: \<open>Inl\<close> the exit code and output of an early return.\<close>

definition runExport ::
  "'s Zstd \<Rightarrow> (string \<Rightarrow> string + Image) \<Rightarrow> (string \<Rightarrow> string + PointCloud2) \<Rightarrow> Exporter \<Rightarrow> path \<Rightarrow> path \<Rightarrow> ReaderOptions \<Rightarrow>
   Line list \<Rightarrow> World \<Rightarrow> ((string + (int \<times> Line list) + (int \<times> Line list)) \<times> World) option" where
  "runExport z decodeImage decodeCloud lib cwd dir ro out w =
     (if exportDir ro = [] then Some (Inr (Inr (0, out)), w)
      else
        let target = follow cwd (exportDir ro); (made, w1) = createDirectories target w
        in if \<not> made then Some (Inr (Inl (1, out @ [ExportDirFailed])), w1)
           else (case exportLoop z decodeImage decodeCloud lib (ro_options ro) dir target
                     (fst (readManifest (readFile (disk w1) (dir @ [''manifest.csv''])))) (0, 0, out) w1 of
               None \<Rightarrow> None
             | Some (Inl e, w2) \<Rightarrow> Some (Inl e, w2)
             | Some (Inr (exported, exitCode, out2), w2) \<Rightarrow>
                 Some (Inr (Inr (exitCode, out2 @ [Exported exported (exportDir ro)])), w2)))"

definition verifyLines :: "VerificationReport \<Rightarrow> Line list" where
  "verifyLines report =
     Checked (verifiedEntries report) (totalEntries report) (length (warnings report)) #
     map Problem (problems report) @ map Warning (warnings report)"

definition readerMain ::
  "(string \<Rightarrow> string option) \<Rightarrow> 's Zstd \<Rightarrow> (string \<Rightarrow> string + Image) \<Rightarrow> (string \<Rightarrow> string + PointCloud2) \<Rightarrow> Exporter \<Rightarrow>
   path \<Rightarrow> string list \<Rightarrow> World \<Rightarrow> ((string + (int \<times> Line list)) \<times> World) option" where
  "readerMain sha z decodeImage decodeCloud lib cwd args w =
     (case args of
        [] \<Rightarrow> Some (Inr (1, [Usage]), w)
      | first # rest \<Rightarrow>
          let dir = follow cwd first in
          if first = [] \<or> \<not> isDirectory (disk w) dir then Some (Inr (1, [NotADirectory first]), w)
          else (case parseArguments rest defaultOptions of
              Inl messages \<Rightarrow> Some (Inr (1, messages), w)
            | Inr ro \<Rightarrow>
                let es = fst (readManifest (readFile (disk w) (dir @ [''manifest.csv''])));
                    ps = fst (readPairs (readFile (disk w) (dir @ [''pairs.csv''])));
                    out = Summary first (length es) (length ps) # listEntries (ro_options ro) (disk w) dir es 0 @ pairSummary ps
                in (case runExport z decodeImage decodeCloud lib cwd dir ro out w of
                      None \<Rightarrow> None
                    | Some (Inl e, w1) \<Rightarrow> Some (Inl e, w1)
                    | Some (Inr (Inl early), w1) \<Rightarrow> Some (Inr early, w1)
                    | Some (Inr (Inr (exitCode, out1)), w1) \<Rightarrow>
                        if \<not> wantVerify ro then Some (Inr (exitCode, out1), w1)
                        else (case verifyEventDirectory sha z decodeImage decodeCloud (disk w1) dir
                                 \<lparr>vo_sensor = vo_sensor (ro_options ro), vo_limit = 0\<rparr> of
                            None \<Rightarrow> None
                          | Some report \<Rightarrow>
                              Some (Inr (if report_ok report then exitCode else 2, out1 @ verifyLines report), w1)))))"


section \<open>Where exports go\<close>

text \<open>What the documentation promises of the writers: they write the file they are given only.\<close>

definition exporter_local :: "Exporter \<Rightarrow> bool" where
  "exporter_local lib \<longleftrightarrow> (\<forall>p q x. q \<noteq> p \<longrightarrow> (\<forall>m. keeps (at q x) (imwrite lib p m)) \<and> (\<forall>c. keeps (at q x) (savePcdXyz lib p c)))"

lemma follow_name:
  assumes "CHR ''/'' \<notin> set name" "2 < length name"
  shows "follow here name = here @ [name]"
proof -
  have ne: "name \<noteq> []" "name \<noteq> ''.''" "name \<noteq> ''..''" using assms(2) by auto
  have "hd name \<noteq> CHR ''/''" using hd_in_set [OF ne(1)] assms(1) by metis
  with assms(1) ne show ?thesis by (simp add: follow_def split_fields_free)
qed

lemma export_name:
  assumes "CHR ''/'' \<notin> set sensor" "CHR ''/'' \<notin> set s" "length s = 4"
  shows "follow here ((sensor @ ''_'' @ int_to_string t) @ s) = here @ [(sensor @ ''_'' @ int_to_string t) @ s]"
proof (rule follow_name)
  have "CHR ''/'' \<notin> set (int_to_string t)" using int_to_string_chars [of "CHR ''/''" t] by (auto simp: char_class_defs)
  then show "CHR ''/'' \<notin> set ((sensor @ ''_'' @ int_to_string t) @ s)" using assms(1,2) by simp
  show "2 < length ((sensor @ ''_'' @ int_to_string t) @ s)" using assms(3) by simp
qed

lemma keeps_exportRecord:
  assumes "exporter_local lib" "CHR ''/'' \<notin> set (me_sensor entry)" "\<not> prefix target q"
  shows "keeps (at q x) (exportRecord decodeImage decodeCloud lib target entry bytes)"
proof -
  have away: "q \<noteq> target @ r" for r using assms(3) by auto
  let ?base = "me_sensor entry @ ''_'' @ int_to_string (me_timestampNs entry)"
  have "follow target (?base @ ''.png'') = target @ [?base @ ''.png'']" by (rule export_name [OF assms(2)]) simp_all
  then have "q \<noteq> follow target (?base @ ''.png'')" using away by (simp only: not_False_eq_True)
  then have image: "keeps (at q x) (imwrite lib (follow target (?base @ ''.png'')) m)" for m
    using assms(1) unfolding exporter_local_def by blast
  have "follow target (?base @ ''.pcd'') = target @ [?base @ ''.pcd'']" by (rule export_name [OF assms(2)]) simp_all
  then have "q \<noteq> follow target (?base @ ''.pcd'')" using away by (simp only: not_False_eq_True)
  then have cloud: "keeps (at q x) (savePcdXyz lib (follow target (?base @ ''.pcd'')) c)" for c
    using assms(1) unfolding exporter_local_def by blast
  show ?thesis
    using image cloud unfolding exportRecord_def exportImage_def exportPointCloud_def Let_def
    by (auto intro!: keeps_rules split: sum.splits option.splits)
qed

lemma exportLoop_frame:
  assumes "exporter_local lib" "\<not> prefix target q" "\<forall>e\<in>set es. CHR ''/'' \<notin> set (me_sensor e)"
    and "exportLoop z decodeImage decodeCloud lib options dir target es p w = Some (r, w')"
  shows "lookup (disk w') q = lookup (disk w) q"
  using assms(3,4)
proof (induction es arbitrary: p w)
  case (Cons e es)
  obtain exported exitCode out where p: "p = (exported, exitCode, out)" by (cases p) auto
  have step: "lookup (disk w1) q = lookup (disk w) q"
    if "exportRecord decodeImage decodeCloud lib target e bytes w = (res, w1)" for bytes res w1
    using keepsD [OF keeps_exportRecord [OF assms(1) _ assms(2)] that, of "lookup (disk w) q"] Cons.prems(1) by (simp add: at_def)
  show ?case
    using Cons.prems Cons.IH step unfolding p
    by (fastforce split: if_splits option.splits sum.splits prod.splits)
qed simp

lemma runExport_frame:
  assumes "runExport z decodeImage decodeCloud lib cwd dir ro out w = Some (r, w')" "exporter_local lib"
    and "\<forall>e\<in>set (fst (readManifest (readFile (disk w) (dir @ [''manifest.csv''])))). CHR ''/'' \<notin> set (me_sensor e)"
    and "lookup (disk w') q \<noteq> lookup (disk w) q"
  shows "exportDir ro \<noteq> [] \<and> (prefix (follow cwd (exportDir ro)) q \<or> prefix q (follow cwd (exportDir ro)))"
proof -
  let ?target = "follow cwd (exportDir ro)"
  have ex: "exportDir ro \<noteq> []" using assms(1,4) by (auto simp: runExport_def)
  obtain made w1 where made: "createDirectories ?target w = (made, w1)" by fastforce
  have reads: "readFile (disk w1) f = readFile (disk w) f" for f by (rule createDirectories_reads [OF made])
  have w': "w' = w1 \<or> (\<exists>r2. exportLoop z decodeImage decodeCloud lib (ro_options ro) dir ?target
      (fst (readManifest (readFile (disk w) (dir @ [''manifest.csv''])))) (0, 0, out) w1 = Some (r2, w'))"
    using assms(1) ex made by (auto simp: runExport_def Let_def reads split: if_splits option.splits sum.splits)
  have "lookup (disk w1) q = lookup (disk w) q" if "\<not> prefix q ?target" using createDirectories_lookup [OF made] that by blast
  moreover have "lookup (disk w') q = lookup (disk w1) q" if "\<not> prefix ?target q"
    using w' exportLoop_frame [OF assms(2) that assms(3)] by auto
  ultimately show ?thesis using ex assms(4) by metis
qed

text \<open>A run with valid arguments: the export, then the verification if it is wanted.\<close>

lemma readerMain_run:
  assumes "readerMain sha z decodeImage decodeCloud lib cwd (first # rest) w = Some (r, w')"
    and "first \<noteq> []" "isDirectory (disk w) (follow cwd first)" "parseArguments rest defaultOptions = Inr ro"
  shows "\<exists>out res. runExport z decodeImage decodeCloud lib cwd (follow cwd first) ro out w = Some (res, w') \<and>
    (case res of Inl e \<Rightarrow> r = Inl e
     | Inr (Inl early) \<Rightarrow> r = Inr early
     | Inr (Inr (exitCode, out1)) \<Rightarrow>
         (if wantVerify ro
          then \<exists>report. verifyEventDirectory sha z decodeImage decodeCloud (disk w') (follow cwd first)
              \<lparr>vo_sensor = vo_sensor (ro_options ro), vo_limit = 0\<rparr> = Some report \<and>
              r = Inr (if report_ok report then exitCode else 2, out1 @ verifyLines report)
          else r = Inr (exitCode, out1)))"
proof -
  let ?dir = "follow cwd first"
  let ?es = "fst (readManifest (readFile (disk w) (?dir @ [''manifest.csv''])))" and ?ps = "fst (readPairs (readFile (disk w) (?dir @ [''pairs.csv''])))"
  let ?out = "Summary first (length ?es) (length ?ps) # listEntries (ro_options ro) (disk w) ?dir ?es 0 @ pairSummary ?ps"
  note run = assms(1) [unfolded readerMain_def list.case Let_def assms(4) sum.case]
  obtain res w1 where e: "runExport z decodeImage decodeCloud lib cwd ?dir ro ?out w = Some (res, w1)"
    using run assms(2,3) by (cases "runExport z decodeImage decodeCloud lib cwd ?dir ro ?out w") auto
  have "w1 = w' \<and> (case res of Inl e \<Rightarrow> r = Inl e
     | Inr (Inl early) \<Rightarrow> r = Inr early
     | Inr (Inr (exitCode, out1)) \<Rightarrow>
         (if wantVerify ro
          then \<exists>report. verifyEventDirectory sha z decodeImage decodeCloud (disk w') ?dir
              \<lparr>vo_sensor = vo_sensor (ro_options ro), vo_limit = 0\<rparr> = Some report \<and>
              r = Inr (if report_ok report then exitCode else 2, out1 @ verifyLines report)
          else r = Inr (exitCode, out1)))"
    using run assms(2,3) unfolding e by (auto split: sum.splits prod.splits option.splits if_splits)
  with e show ?thesis by (intro exI [of _ ?out] exI [of _ res]) simp
qed

section \<open>A run\<close>

text \<open>An exporter that writes the pixels, or the data of the cloud, as they are.\<close>

definition plainWrite :: "path \<Rightarrow> string \<Rightarrow> (string, bool) action" where
  "plainWrite p content w = (Inr True, w\<lparr>disk := (p, File content) # disk w\<rparr>)"

definition plainExporter :: Exporter where
  "plainExporter = \<lparr>conversions = plainCodec, imwrite = (\<lambda>p m. plainWrite p (mat_data m)),
     savePcdXyz = (\<lambda>p c. plainWrite p [])\<rparr>"

lemma plainExporter_local: "exporter_local plainExporter"
  by (simp add: exporter_local_def plainExporter_def keeps_def at_def plainWrite_def lookup_def)

definition intactWorld :: World where
  "intactWorld = \<lparr>disk = intactStore, script = []\<rparr>"

lemma sample_directory: "follow [] ''/r'' = [''r'']" "isDirectory intactStore [''r'']"
  by code_simp+

lemma sample_run:
  "\<exists>out. readerMain sampleSha storedFrames decodeSample (\<lambda>s. Inl ''no cloud'') plainExporter [] [''/r'', ''--verify''] intactWorld =
     Some (Inr (0, out), intactWorld)"
  by (simp add: readerMain_def sample_directory intactWorld_def runExport_def defaultOptions_def
      intactStore_verifies report_ok_def intactReport_def Let_def)

definition exportWorld :: World where
  "exportWorld = \<lparr>disk = intactStore @ [([''o''], Dir)], script = []\<rparr>"

lemma sample_target:
  "createDirectories [''o''] intactWorld = (True, exportWorld)"
  "readFile (intactStore @ [([''o''], Dir)]) [''r'', ''manifest.csv''] = readFile intactStore [''r'', ''manifest.csv'']"
  "readFile (intactStore @ [([''o''], Dir)]) [''r'', ''camera_100.bin''] = Some ''x''"
  "follow [] ''/o'' = [''o'']" "follow [''o''] ''camera_100.png'' = [''o'', ''camera_100.png'']" "int_to_string 100 = ''100''"
  by code_simp+

lemma sample_export:
  "\<exists>r w'. readerMain sampleSha storedFrames decodeSample (\<lambda>s. Inl ''no cloud'') plainExporter [] [''/r'', ''--export'', ''/o''] intactWorld =
     Some (r, w') \<and> lookup (disk w') [''o'', ''camera_100.png''] = Some (File ''p'')"
proof -
  have load: "loadRecordBytes storedFrames (disk exportWorld) [''r''] sampleEntry = Some (Inr ''x'')"
    by (simp add: loadRecordBytes_def sampleEntry_def intactStore_path readFileBytes_def exportWorld_def sample_target kMaxRecordBytes_def)
  have "fst (readManifest (readFile (disk exportWorld) [''r'', ''manifest.csv''])) = [sampleEntry]"
    by (simp add: exportWorld_def sample_target intactStore_manifest)
  then have "\<exists>r w'. runExport storedFrames decodeSample (\<lambda>s. Inl ''no cloud'') plainExporter [] [''r'']
      (defaultOptions\<lparr>exportDir := ''/o''\<rparr>) out intactWorld = Some (Inr (Inr r), w') \<and> lookup (disk w') [''o'', ''camera_100.png''] = Some (File ''p'')" for out
    using load by (simp add: runExport_def sample_target Let_def defaultOptions_def exportRecord_def sampleEntry_def decodeSample_def
        exportImage_def plainExporter_def bgrImage_def matOf_def plainWrite_def andThen_def ret_def lookup_def)
  then obtain R W where run: "runExport storedFrames decodeSample (\<lambda>s. Inl ''no cloud'') plainExporter [] [''r'']
      (defaultOptions\<lparr>exportDir := ''/o''\<rparr>) out intactWorld = Some (Inr (Inr (R out)), W out)"
      "lookup (disk (W out)) [''o'', ''camera_100.png''] = Some (File ''p'')" for out
    by metis
  have "disk intactWorld = intactStore" "\<not> wantVerify (defaultOptions\<lparr>exportDir := ''/o''\<rparr>)"
    by (simp_all add: intactWorld_def defaultOptions_def)
  then show ?thesis
    by (simp add: readerMain_def sample_directory run Let_def split: prod.split)
qed

section \<open>Properties\<close>

text \<open>
  C30. The exit code of \<open>--verify\<close> can be trusted: when the tool ends with 0, the checksum
  manifest is verified and every row of \<open>manifest.csv\<close> is well formed, at least one record of
  the chosen sensor exists and all of them, whatever \<open>--limit\<close> says, are intact; and
  without an export it ends with 0 or 2, with 0 in exactly that case.
\<close>

theorem verify_exit_code:
  assumes "readerMain sha z decodeImage decodeCloud lib cwd (first # rest) w = Some (Inr (exitCode, out), w')"
    and "first \<noteq> []" "isDirectory (disk w) (follow cwd first)" "parseArguments rest defaultOptions = Inr ro" "wantVerify ro"
  shows "(exitCode = 0 \<longrightarrow> fst (verifyChecksumManifest sha (disk w') (follow cwd first) []) \<and>
      (\<exists>es. readManifest (readFile (disk w') (follow cwd first @ [''manifest.csv''])) = (es, []) \<and>
         (let chosen = filter (\<lambda>e. vo_sensor (ro_options ro) = [] \<or> me_sensor e = vo_sensor (ro_options ro)) es
          in chosen \<noteq> [] \<and> (\<forall>e\<in>set chosen. intact z decodeImage decodeCloud (disk w') (follow cwd first) e)))) \<and>
    (exportDir ro = [] \<longrightarrow> w' = w \<and> exitCode \<in> {0, 2} \<and>
      (exitCode = 0 \<longleftrightarrow> (\<exists>report. verifyEventDirectory sha z decodeImage decodeCloud (disk w) (follow cwd first)
         \<lparr>vo_sensor = vo_sensor (ro_options ro), vo_limit = 0\<rparr> = Some report \<and> report_ok report)))"
proof -
  let ?dir = "follow cwd first" and ?options = "\<lparr>vo_sensor = vo_sensor (ro_options ro), vo_limit = 0\<rparr>"
  obtain out0 res where e: "runExport z decodeImage decodeCloud lib cwd ?dir ro out0 w = Some (res, w')"
    and outcome: "case res of Inl e \<Rightarrow> Inr (exitCode, out) = (Inl e :: string + int \<times> Line list)
     | Inr (Inl early) \<Rightarrow> Inr (exitCode, out) = (Inr early :: string + int \<times> Line list)
     | Inr (Inr (exitCode', out1)) \<Rightarrow>
         (if wantVerify ro
          then \<exists>report. verifyEventDirectory sha z decodeImage decodeCloud (disk w') ?dir ?options = Some report \<and>
              Inr (exitCode, out) = (Inr (if report_ok report then exitCode' else 2, out1 @ verifyLines report) :: string + int \<times> Line list)
          else Inr (exitCode, out) = (Inr (exitCode', out1) :: string + int \<times> Line list))"
    using readerMain_run [OF assms(1-4)] by (elim exE conjE) (rule that)
  have res: "case res of Inl e \<Rightarrow> False | Inr (Inl early) \<Rightarrow> (exitCode, out) = early
     | Inr (Inr (c, out1)) \<Rightarrow> (\<exists>report. verifyEventDirectory sha z decodeImage decodeCloud (disk w') ?dir ?options = Some report \<and>
              exitCode = (if report_ok report then c else 2))"
    using outcome assms(5) by (auto split: sum.splits)
  have early: "c = 1" if "res = Inr (Inl (c, out1))" for c out1
    using e that by (auto simp: runExport_def Let_def split: if_splits prod.splits option.splits sum.splits)
  have zero: "\<exists>report. verifyEventDirectory sha z decodeImage decodeCloud (disk w') ?dir ?options = Some report \<and> report_ok report" if "exitCode = 0"
    using res early that by (fastforce split: sum.splits prod.splits if_splits)
  have chosen: "selectedFrom 0 ?options es = filter (\<lambda>e. vo_sensor (ro_options ro) = [] \<or> me_sensor e = vo_sensor (ro_options ro)) es" for es
    by (simp add: selectedFrom_def)
  have good: "fst (verifyChecksumManifest sha (disk w') ?dir []) \<and>
      (\<exists>es. readManifest (readFile (disk w') (?dir @ [''manifest.csv''])) = (es, []) \<and>
         (let chosen = filter (\<lambda>e. vo_sensor (ro_options ro) = [] \<or> me_sensor e = vo_sensor (ro_options ro)) es
          in chosen \<noteq> [] \<and> (\<forall>e\<in>set chosen. intact z decodeImage decodeCloud (disk w') ?dir e)))" if "exitCode = 0"
    using zero [OF that] report_iff unfolding Let_def chosen [symmetric] by blast
  have plain: "res = Inr (Inr (0, out0)) \<and> w' = w" if "exportDir ro = []" using e that by (simp add: runExport_def)
  have none: "w' = w \<and> exitCode \<in> {0, 2} \<and> (exitCode = 0 \<longleftrightarrow> (\<exists>report. verifyEventDirectory sha z decodeImage decodeCloud (disk w) ?dir ?options =
      Some report \<and> report_ok report))" if "exportDir ro = []"
    using res plain [OF that] by (auto split: if_splits)
  from good none show ?thesis by blast
qed

theorem verify_exit_code_witness:
  "fst (verifyChecksumManifest sampleSha intactStore [''r''] []) \<and>
   intact storedFrames decodeSample (\<lambda>s. Inl ''no cloud'') intactStore [''r''] sampleEntry"
proof -
  obtain out where run: "readerMain sampleSha storedFrames decodeSample (\<lambda>s. Inl ''no cloud'') plainExporter [] [''/r'', ''--verify'']
      intactWorld = Some (Inr (0, out), intactWorld)"
    using sample_run by blast
  have "disk intactWorld = intactStore" by (simp add: intactWorld_def)
  then show ?thesis
    using verify_exit_code [OF run, of "defaultOptions\<lparr>wantVerify := True\<rparr>"]
    by (simp add: sample_directory intactStore_manifest defaultOptions_def Let_def)
qed

text \<open>
  An export stays where it belongs: if no sensor name in \<open>manifest.csv\<close> contains a
  slash, a run of the tool, however it ends, changes nothing on disk outside the export
  directory but the directories on the way to it, and without \<open>--export\<close> nothing at all.
\<close>

theorem reader_writes_exports_only:
  assumes "readerMain sha z decodeImage decodeCloud lib cwd (first # rest) w = Some (r, w')"
    and "first \<noteq> []" "isDirectory (disk w) (follow cwd first)" "parseArguments rest defaultOptions = Inr ro" "exporter_local lib"
    and "\<forall>e\<in>set (fst (readManifest (readFile (disk w) (follow cwd first @ [''manifest.csv''])))). CHR ''/'' \<notin> set (me_sensor e)"
    and "lookup (disk w') q \<noteq> lookup (disk w) q"
  shows "exportDir ro \<noteq> [] \<and> (prefix (follow cwd (exportDir ro)) q \<or> prefix q (follow cwd (exportDir ro)))"
  using readerMain_run [OF assms(1-4)] runExport_frame [OF _ assms(5-7)] by blast

theorem reader_writes_exports_only_witness:
  "exportDir (defaultOptions\<lparr>exportDir := ''/o''\<rparr>) \<noteq> [] \<and>
   (prefix [''o''] [''o'', ''camera_100.png''] \<or> prefix [''o'', ''camera_100.png''] [''o''])"
proof -
  obtain r w' where run: "readerMain sampleSha storedFrames decodeSample (\<lambda>s. Inl ''no cloud'') plainExporter [] [''/r'', ''--export'', ''/o'']
      intactWorld = Some (r, w')" "lookup (disk w') [''o'', ''camera_100.png''] = Some (File ''p'')"
    using sample_export by blast
  have "disk intactWorld = intactStore" "follow [] ''/o'' = [''o'']" by (simp add: intactWorld_def) code_simp
  moreover have "lookup intactStore [''o'', ''camera_100.png''] = None" by code_simp
  moreover have "CHR ''/'' \<notin> set (me_sensor sampleEntry)" by code_simp
  ultimately show ?thesis
    using reader_writes_exports_only [OF run(1) _ _ _ plainExporter_local, of "defaultOptions\<lparr>exportDir := ''/o''\<rparr>" "[''o'', ''camera_100.png'']"] run(2)
    by (simp add: sample_directory intactStore_manifest)
qed

text \<open>
  The condition on sensor names is needed: \<open>record_io\<close> checks the file names of the manifest
  but not its sensor column, which the tool puts in front of the name it exports to.
\<close>

lemma export_escapes:
  assumes "me_sensor e = ''../x''" "me_timestampNs e = 5" "decodeCloud bytes = Inr cloud"
  shows "exportRecord decodeImage decodeCloud lib [''out''] e bytes = andThen (savePcdXyz lib [''x_5.pcd''] cloud) (\<lambda>ok. ret (ok, []))"
proof -
  have "follow [''out''] (''../x'' @ ''_'' @ int_to_string 5 @ ''.pcd'') = [''x_5.pcd'']" by code_simp
  then show ?thesis using assms by (simp add: exportRecord_def exportPointCloud_def)
qed

end
