(* ===== verification/Upload_Receiver.thy ===== *)
theory Upload_Receiver
  imports Upload_Worker Disk_Actions "HOL-Library.Code_Target_Nat" "HOL-Library.Code_Target_Int"
begin

text \<open>
  The other end of an upload, \<open>tools/receiver_node.py\<close>: the service that puts an event together in
  a staging directory and publishes it under the inbox when everything announced has arrived.
  Requests are answered one after the other.  A reply has one \<open>Verdict\<close> per return statement
  in place of its message; a Python exception is \<open>Inl\<close>, with the state as it was when
  it was raised.  Texts have characters below 256; what depends on more of Unicode or on SHA-256 is
  an argument, the record \<open>Host\<close>.
\<close>

section \<open>Names and paths\<close>

definition MAX_EVENT_NAME :: nat where "MAX_EVENT_NAME = 160"
definition MAX_RELATIVE_PATH :: nat where "MAX_RELATIVE_PATH = 1024"
definition MAX_FILES :: nat where "MAX_FILES = 10000"
definition MAX_TOTAL_BYTES :: nat where "MAX_TOTAL_BYTES = 100 * 1024 * 1024 * 1024"
definition MAX_ACTIVE_TRANSFERS :: nat where "MAX_ACTIVE_TRANSFERS = 16"
definition TRANSFER_IDLE_SECONDS :: int where "TRANSFER_IDLE_SECONDS = 600"
definition MAX_MANIFEST_BYTES :: nat where "MAX_MANIFEST_BYTES = 16 * 1024 * 1024"

definition eventChar :: "char \<Rightarrow> bool" where
  "eventChar c \<longleftrightarrow> isalnum c \<or> c = CHR ''_'' \<or> c = CHR ''.'' \<or> c = CHR ''-''"

definition validate_event_name :: "string \<Rightarrow> string option" where
  "validate_event_name name =
     (if length name \<le> MAX_EVENT_NAME \<and> name \<noteq> [] \<and> isalnum (hd name) \<and> list_all eventChar (tl name) \<and>
         name \<noteq> ''.'' \<and> name \<noteq> ''..''
      then Some name else None)"

definition safePart :: "string \<Rightarrow> bool" where
  "safePart part \<longleftrightarrow>
     part \<noteq> [] \<and> part \<noteq> ''.'' \<and> part \<noteq> ''..'' \<and> CHR '':'' \<notin> set part \<and> last part \<noteq> CHR ''.'' \<and> last part \<noteq> CHR '' '' \<and>
     map toupper (takeWhile (\<lambda>c. c \<noteq> CHR ''.'') part) \<notin> kWindowsDevices"

definition driveLetter :: "string \<Rightarrow> bool" where
  "driveLetter s \<longleftrightarrow> (case s of c # d # _ \<Rightarrow> isalnum c \<and> \<not> isdigit c \<and> d = CHR '':'' | _ \<Rightarrow> False)"

definition safe_relative :: "string \<Rightarrow> path option" where
  "safe_relative p =
     (if length p > MAX_RELATIVE_PATH then None
      else
        let normalized = map (\<lambda>c. if c = CHR 0x5C then CHR ''/'' else c) p
        in if normalized = [] \<or> CHR 0x00 \<in> set normalized \<or> hd normalized = CHR ''/'' \<or> driveLetter normalized then None
           else let parts = split_fields CHR ''/'' normalized
                in if list_all safePart parts then Some parts else None)"

section \<open>State\<close>

record Host =
  casefold :: "string \<Rightarrow> string"
  hexdigest :: "string \<Rightarrow> string"
  decode_utf8 :: "string \<Rightarrow> string option"

record FileState =
  expected_bytes :: nat
  received_bytes :: nat
  hasher :: string

record TransferState =
  ts_event :: string
  ts_transfer_id :: string
  staging_dir :: path
  final_dir :: path
  expected_files :: nat
  ts_expected_bytes :: nat
  ts_files :: "(string \<times> FileState) list"
  canonical_paths :: "(string \<times> string) list"
  last_activity :: int

record Receiver =
  inbox :: path
  transfers :: "((string \<times> string) \<times> TransferState) list"

datatype Verdict = UnsafeName | BeforeBegin | FileLimit | ByteLimit | NamesTooLong | TooManyTransfers | OwnedByAnother | Started
  | UnsafePath string | CaseCollision string | SizeChanged string | ExceedsSize string | Overlapping string
  | ConflictingDuplicate string | DuplicateStored | NonContiguous string nat nat | Stored
  | FileCountMismatch nat nat | ByteCountMismatch nat nat | IncompleteFile string int nat | ManifestRequired | ManifestTooLarge
  | InvalidLine nat | NoDataFiles | FileSetMismatch | DigestMismatch string | TransferComplete | ReceiverError string

type_synonym reply = "bool \<times> Verdict \<times> nat"

section \<open>File operations of Python\<close>

text \<open>
  \<open>shutil.rmtree(p, ignore_errors=True)\<close>: what cannot be deleted stays, and with it the directory
  itself; which entries a failing run deletes is arbitrary.  A failure is ignored by the callers.
\<close>

definition rmtree :: "path \<Rightarrow> World \<Rightarrow> bool \<times> World" where
  "rmtree p =
     perform (\<lambda>d. if lookup d p = Some Dir then Some (deleteAll (p # below d p) d) else None)
       (\<lambda>n d. deleteAll (map snd (filter (\<lambda>(i, q). odd (n div 2 ^ i)) (enumerate 0 (below d p)))) d)"

text \<open>
  \<open>mkdir(parents=True)\<close>, without \<open>exist_ok\<close>.  A path with something below it exists, whether or
  not the table has an entry for it; so a directory that was made is empty.
\<close>

definition makeDirectory :: "path \<Rightarrow> World \<Rightarrow> bool \<times> World" where
  "makeDirectory p =
     perform (\<lambda>d. if pathExists d p \<or> below d p \<noteq> [] \<or> (\<exists>q\<in>set (ancestors p). readFile d q \<noteq> None) then None else Some (makeDirs (ancestors p) d))
       (\<lambda>n d. makeDirs (takeWhile (\<lambda>q. readFile d q = None) (take n (ancestors p))) d)"

text \<open>Opening with mode \<open>r+b\<close>, also before \<open>fsync\<close>; opening a directory before \<open>fsync\<close>.\<close>

definition openUpdate :: "path \<Rightarrow> World \<Rightarrow> bool \<times> World" where
  "openUpdate p = perform (\<lambda>d. if readFile d p = None then None else Some d) (\<lambda>n d. d)"

definition openDirectory :: "path \<Rightarrow> World \<Rightarrow> bool \<times> World" where
  "openDirectory p = perform (\<lambda>d. if isDirectory d p then Some d else None) (\<lambda>n d. d)"

text \<open>\<open>seek\<close> and \<open>write\<close>; a failing write leaves a part of the data.\<close>

definition patch :: "string \<Rightarrow> nat \<Rightarrow> string \<Rightarrow> string" where
  "patch content offset data =
     take offset (content @ replicate (offset - length content) (CHR 0x00)) @ data @ drop (offset + length data) content"

definition writeAt :: "path \<Rightarrow> nat \<Rightarrow> string \<Rightarrow> World \<Rightarrow> bool \<times> World" where
  "writeAt p offset data =
     perform (\<lambda>d. case readFile d p of None \<Rightarrow> None | Some content \<Rightarrow> Some (AList.update p (File (patch content offset data)) d))
       (\<lambda>n d. case readFile d p of None \<Rightarrow> d
          | Some content \<Rightarrow> if take n data = [] then d else AList.update p (File (patch content offset (take n data))) d)"

text \<open>\<open>os.replace\<close>, of a file, or of a directory with all its entries onto nothing or an empty one.\<close>

definition moveTree :: "path \<Rightarrow> path \<Rightarrow> disk \<Rightarrow> disk" where
  "moveTree p q d =
     map (\<lambda>(r, x). (if prefix p r then q @ drop (length p) r else r, x)) (filter (\<lambda>(r, x). \<not> prefix q r) d)"

definition replaceEffect :: "path \<Rightarrow> path \<Rightarrow> disk \<Rightarrow> disk option" where
  "replaceEffect p q d =
     (case lookup d p of
        None \<Rightarrow> None
      | Some (File c) \<Rightarrow>
          if isDirectory d q \<or> \<not> isDirectory d (parentPath q) then None
          else Some (AList.update q (File c) (AList.delete p d))
      | Some Dir \<Rightarrow>
          if prefix p q \<or> prefix q p \<or> \<not> isDirectory d (parentPath q) \<or> readFile d q \<noteq> None \<or> lookup d q = Some Dir \<and> entries d q \<noteq> [] then None
          else Some (moveTree p q d))"

definition replacePath :: "path \<Rightarrow> path \<Rightarrow> World \<Rightarrow> bool \<times> World" where
  "replacePath p q = perform (replaceEffect p q) (\<lambda>n d. d)"

section \<open>BEGIN\<close>

definition stagingName :: "string \<Rightarrow> string \<Rightarrow> string" where
  "stagingName event transferId = ''.'' @ event @ ''.'' @ transferId @ ''.part''"

definition backupName :: "string \<Rightarrow> string" where
  "backupName event = ''.'' @ event @ ''.backup''"

definition beginTransfer :: "int \<Rightarrow> Receiver \<Rightarrow> string \<Rightarrow> string \<Rightarrow> nat \<Rightarrow> nat \<Rightarrow> World \<Rightarrow> (string + reply) \<times> Receiver \<times> World" where
  "beginTransfer now R event transferId n totalBytes w =
     (if n = 0 \<or> n > MAX_FILES then (Inr (False, FileLimit, 0), R, w)
      else if totalBytes > MAX_TOTAL_BYTES then (Inr (False, ByteLimit, 0), R, w)
      else if length event + length transferId + length ''...part'' > 240 then (Inr (False, NamesTooLong, 0), R, w)
      else if map_of (transfers R) (event, transferId) = None \<and> length (transfers R) \<ge> MAX_ACTIVE_TRANSFERS
      then (Inr (False, TooManyTransfers, 0), R, w)
      else if list_ex (\<lambda>(key, st). ts_event st = event \<and> ts_transfer_id st \<noteq> transferId) (transfers R)
      then (Inr (False, OwnedByAnother, 0), R, w)
      else
        let staging = inbox R @ [stagingName event transferId];
            w1 = snd (rmtree staging w);
            (made, w2) = makeDirectory staging w1
        in if \<not> made then (Inl ''mkdir'', R, w2)
           else (Inr (True, Started, 0),
             R\<lparr>transfers := AList.update (event, transferId)
                 \<lparr>ts_event = event, ts_transfer_id = transferId, staging_dir = staging, final_dir = inbox R @ [event],
                  expected_files = n, ts_expected_bytes = totalBytes, ts_files = [], canonical_paths = [], last_activity = now\<rparr>
                 (transfers R)\<rparr>, w2))"

section \<open>FILE_CHUNK\<close>

text \<open>The part after the lookup of the file's state: what becomes of that state, and the disk.\<close>

definition storeData :: "path \<Rightarrow> string \<Rightarrow> FileState \<Rightarrow> nat \<Rightarrow> string \<Rightarrow> World \<Rightarrow> (string + reply) \<times> FileState \<times> World" where
  "storeData target relative fs offset data w =
     (if offset + length data > expected_bytes fs then (Inr (False, ExceedsSize relative, received_bytes fs), fs, w)
      else
        let (made, w1) = createDirectories (parentPath target) w in
        if \<not> made then (Inl ''mkdir'', fs, w1)
        else if offset < received_bytes fs then
          (if offset + length data > received_bytes fs \<or> \<not> pathExists (disk w1) target
           then (Inr (False, Overlapping relative, received_bytes fs), fs, w1)
           else (case readFile (disk w1) target of
               None \<Rightarrow> (Inl ''open'', fs, w1)
             | Some content \<Rightarrow>
                 if take (length data) (drop offset content) \<noteq> data
                 then (Inr (False, ConflictingDuplicate relative, received_bytes fs), fs, w1)
                 else (Inr (True, DuplicateStored, received_bytes fs), fs, w1)))
        else if offset \<noteq> received_bytes fs
        then (Inr (False, NonContiguous relative offset (received_bytes fs), received_bytes fs), fs, w1)
        else
          let (opened, w2) = (if pathExists (disk w1) target then openUpdate target w1 else openTrunc target w1) in
          if \<not> opened then (Inl ''open'', fs, w2)
          else
            let (wrote, w3) = writeAt target offset data w2 in
            if \<not> wrote then (Inl ''write'', fs, w3)
            else (Inr (True, Stored, offset + length data),
                  fs\<lparr>hasher := hasher fs @ data, received_bytes := offset + length data\<rparr>, w3))"

definition freshFile :: "nat \<Rightarrow> FileState" where
  "freshFile totalBytes = \<lparr>expected_bytes = totalBytes, received_bytes = 0, hasher = []\<rparr>"

definition store_chunk :: "Host \<Rightarrow> TransferState \<Rightarrow> UploadRequest \<Rightarrow> World \<Rightarrow> (string + reply) \<times> TransferState \<times> World" where
  "store_chunk host st request w =
     (case safe_relative (up_file_path request) of
        None \<Rightarrow> (Inr (False, UnsafePath (up_file_path request), 0), st, w)
      | Some parts \<Rightarrow>
          let relative = joined CHR ''/'' parts; canonical = casefold host relative;
              existing = map_of (canonical_paths st) canonical
          in if existing \<noteq> None \<and> existing \<noteq> Some relative then (Inr (False, CaseCollision relative, 0), st, w)
             else
               let st1 = st\<lparr>canonical_paths := AList.update canonical relative (canonical_paths st)\<rparr>;
                   known = map_of (ts_files st1) relative;
                   fs = (case known of None \<Rightarrow> freshFile (up_total_bytes request) | Some fs \<Rightarrow> fs);
                   st2 = st1\<lparr>ts_files := AList.update relative fs (ts_files st1)\<rparr>
               in if known \<noteq> None \<and> expected_bytes fs \<noteq> up_total_bytes request
                  then (Inr (False, SizeChanged relative, received_bytes fs), st1, w)
                  else (case storeData (staging_dir st @ parts) relative fs (up_offset request) (up_data request) w of
                      (r, fs', w') \<Rightarrow> (r, st2\<lparr>ts_files := AList.update relative fs' (ts_files st2)\<rparr>, w')))"

section \<open>END\<close>

text \<open>\<open>str.splitlines\<close>.\<close>

definition lineBreak :: "char \<Rightarrow> bool" where
  "lineBreak c \<longleftrightarrow> code c \<in> {10, 11, 12, 13, 28, 29, 30, 133}"

function splitlines :: "string \<Rightarrow> string list" where
  "splitlines s =
     (let line = takeWhile (\<lambda>c. \<not> lineBreak c) s; rest = dropWhile (\<lambda>c. \<not> lineBreak c) s
      in if rest = [] then (if line = [] then [] else [line])
         else line # splitlines (if take 2 rest = [CHR 0x0D, CHR 0x0A] then drop 2 rest else tl rest))"
  by pat_completeness auto
termination
proof (relation "measure length", simp, goal_cases)
  case (1 s line rest)
  have "length rest \<le> length s" using 1(2) by (simp add: length_dropWhile_le)
  moreover have "0 < length rest" using 1(3) by simp
  ultimately have "length rest - 2 < length s" "length rest - 1 < length s" by arith+
  then show ?case by simp
qed

declare splitlines.simps [simp del]

definition lowerHex :: "char \<Rightarrow> bool" where
  "lowerHex c \<longleftrightarrow> isdigit c \<or> (97 \<le> code c \<and> code c \<le> 102)"

fun manifestLoop :: "nat \<Rightarrow> string list \<Rightarrow> (string \<times> string) list \<Rightarrow> Verdict + (string \<times> string) list" where
  "manifestLoop n [] expected = Inr expected"
| "manifestLoop n (line # ls) expected =
     (case findTwoSpaces line of None \<Rightarrow> Inl (InvalidLine n)
      | Some p \<Rightarrow>
          let digest = take p line; relative = drop (p + 2) line
          in if length digest \<noteq> 64 \<or> \<not> list_all lowerHex digest \<or> safe_relative relative = None \<or> relative \<in> fst ` set expected
             then Inl (InvalidLine n)
             else manifestLoop (Suc n) ls (expected @ [(relative, digest)]))"

definition verify_checksums :: "Host \<Rightarrow> TransferState \<Rightarrow> disk \<Rightarrow> string + Verdict option" where
  "verify_checksums host st d =
     (case readFile d (staging_dir st @ [''manifest.sha256'']) of
        None \<Rightarrow> Inr (Some ManifestRequired)
      | Some content \<Rightarrow>
          if length content > MAX_MANIFEST_BYTES then Inr (Some ManifestTooLarge)
          else (case decode_utf8 host content of None \<Rightarrow> Inl ''UnicodeDecodeError''
             | Some decoded \<Rightarrow>
                 (case manifestLoop 1 (splitlines decoded) [] of
                    Inl verdict \<Rightarrow> Inr (Some verdict)
                  | Inr expected \<Rightarrow>
                      if expected = [] then Inr (Some NoDataFiles)
                      else if fst ` set expected \<noteq> fst ` set (ts_files st) - {''manifest.sha256''} then Inr (Some FileSetMismatch)
                      else
                        let wrong = (\<lambda>(relative, wanted).
                              case map_of (ts_files st) relative of None \<Rightarrow> True | Some fs \<Rightarrow> hexdigest host (hasher fs) \<noteq> wanted)
                        in Inr (map_option (\<lambda>(relative, wanted). DigestMismatch relative) (find wrong expected)))))"

text \<open>
  The loop over the files: their sizes, and an open for each.  Where a directory is in the place of
  a file, its size is not known; the run then ends in one of two errors, here the second.
\<close>

primrec checkFiles :: "path \<Rightarrow> (string \<times> FileState) list \<Rightarrow> World \<Rightarrow> (string + Verdict option) \<times> World" where
  "checkFiles staging [] w = (Inr None, w)"
| "checkFiles staging (f # rest) w =
     (let (relative, fs) = f; p = staging @ split_fields CHR ''/'' relative;
          actual = (case readFile (disk w) p of None \<Rightarrow> - 1 | Some content \<Rightarrow> int (length content))
      in if isDirectory (disk w) p then (Inl ''IsADirectoryError'', w)
         else if received_bytes fs \<noteq> expected_bytes fs \<or> actual \<noteq> int (expected_bytes fs)
         then (Inr (Some (IncompleteFile relative actual (expected_bytes fs))), w)
         else (case openUpdate p w of
             (False, w') \<Rightarrow> (Inl ''open'', w')
           | (True, w') \<Rightarrow> checkFiles staging rest w'))"


text \<open>
  The publication: an existing copy steps aside as a backup until the new one is in place.
\<close>

definition publish :: "path \<Rightarrow> path \<Rightarrow> path \<Rightarrow> (string, unit) action" where
  "publish staging final backup w =
     (let w1 = snd (rmtree backup w); (synced, w2) = openDirectory (parentPath final) w1 in
      if \<not> synced then (Inl ''open'', w2)
      else
        let (aside, w3) = (if pathExists (disk w2) final then replacePath final backup w2 else (True, w2)) in
        if \<not> aside then (Inl ''replace'', w3)
        else
          let (placed, w4) = replacePath staging final w3 in
          if \<not> placed
          then (Inl ''replace'',
                if pathExists (disk w4) backup \<and> \<not> pathExists (disk w4) final then snd (replacePath backup final w4) else w4)
          else
            let w5 = snd (rmtree backup w4); (synced', w6) = openDirectory (parentPath final) w5
            in (if synced' then Inr () else Inl ''open'', w6))"

definition finish :: "Host \<Rightarrow> Receiver \<Rightarrow> TransferState \<Rightarrow> World \<Rightarrow> (string + reply) \<times> Receiver \<times> World" where
  "finish host R st w =
     (let received = sum_list (map (received_bytes \<circ> snd) (ts_files st)) in
      if length (ts_files st) \<noteq> expected_files st
      then (Inr (False, FileCountMismatch (length (ts_files st)) (expected_files st), received), R, w)
      else if received \<noteq> ts_expected_bytes st
      then (Inr (False, ByteCountMismatch received (ts_expected_bytes st), received), R, w)
      else (case checkFiles (staging_dir st) (ts_files st) w of
          (Inl e, w1) \<Rightarrow> (Inl e, R, w1)
        | (Inr (Some verdict), w1) \<Rightarrow> (Inr (False, verdict, received), R, w1)
        | (Inr None, w1) \<Rightarrow>
            (case verify_checksums host st (disk w1) of
               Inl e \<Rightarrow> (Inl e, R, w1)
             | Inr (Some verdict) \<Rightarrow> (Inr (False, verdict, received), R, w1)
             | Inr None \<Rightarrow>
                 let (synced, w2) = openDirectory (staging_dir st) w1 in
                 if \<not> synced then (Inl ''open'', R, w2)
                 else (case publish (staging_dir st) (final_dir st) (inbox R @ [backupName (ts_event st)]) w2 of
                     (Inl e, w3) \<Rightarrow> (Inl e, R, w3)
                   | (Inr u, w3) \<Rightarrow>
                       (Inr (True, TransferComplete, received),
                        R\<lparr>transfers := AList.delete (ts_event st, ts_transfer_id st) (transfers R)\<rparr>, w3)))))"

section \<open>The node\<close>

definition pruneTransfer :: "int \<Rightarrow> (string \<times> string) \<times> TransferState \<Rightarrow> Receiver \<times> World \<Rightarrow> Receiver \<times> World" where
  "pruneTransfer now entry = (\<lambda>(R, w).
     let (key, st) = entry in
     if last_activity st \<ge> now - TRANSFER_IDLE_SECONDS * 1000000000 then (R, w)
     else (R\<lparr>transfers := AList.delete key (transfers R)\<rparr>, snd (rmtree (staging_dir st) w)))"

definition prune_idle_transfers :: "int \<Rightarrow> Receiver \<Rightarrow> World \<Rightarrow> Receiver \<times> World" where
  "prune_idle_transfers now R w = fold (pruneTransfer now) (transfers R) (R, w)"

text \<open>
  The opcodes are those of \<open>UploadStore.srv\<close>; an unknown one is refused without effect.  The two clock
  readings are those of the pruning and of the request itself.
\<close>

definition dispatch :: "Host \<Rightarrow> int \<Rightarrow> int \<Rightarrow> UploadRequest \<Rightarrow> Receiver \<Rightarrow> World \<Rightarrow> (string + reply) \<times> Receiver \<times> World" where
  "dispatch host pruneTime now request R0 w0 =
     (let (R, w) = prune_idle_transfers pruneTime R0 w0 in
      case (validate_event_name (up_event_name request), validate_event_name (up_transfer_id request)) of
        (Some event, Some transferId) \<Rightarrow>
          if up_opcode request = BEGIN
          then beginTransfer now R event transferId (up_file_count request) (up_total_bytes request) w
          else (case map_of (transfers R) (event, transferId) of
              None \<Rightarrow> (Inr (False, BeforeBegin, 0), R, w)
            | Some st0 \<Rightarrow>
                let st = st0\<lparr>last_activity := now\<rparr>; R1 = R\<lparr>transfers := AList.update (event, transferId) st (transfers R)\<rparr>
                in if up_opcode request = FILE_CHUNK
                   then (case store_chunk host st request w of
                       (r, st', w') \<Rightarrow> (r, R1\<lparr>transfers := AList.update (event, transferId) st' (transfers R1)\<rparr>, w'))
                   else finish host R1 st w)
      | _ \<Rightarrow> (Inr (False, UnsafeName, 0), R, w))"

definition handle_request :: "Host \<Rightarrow> int \<Rightarrow> int \<Rightarrow> UploadRequest \<Rightarrow> Receiver \<Rightarrow> World \<Rightarrow> reply \<times> Receiver \<times> World" where
  "handle_request host pruneTime now request R w =
     (case dispatch host pruneTime now request R w of
        (Inl e, R', w') \<Rightarrow> ((False, ReceiverError e, 0), R', w')
      | (Inr reply, R', w') \<Rightarrow> (reply, R', w'))"

text \<open>The start, with the recovery of backups; \<open>glob\<close> gives the entries of the inbox in the order of the disk.\<close>

definition eventOf :: "path \<Rightarrow> string" where
  "eventOf p = take (length (last p) - length ''..backup'') (drop 1 (last p))"

definition recoverBackup :: "path \<Rightarrow> path \<Rightarrow> (string, unit) action" where
  "recoverBackup dir backup w =
     (let event = eventOf backup in
      if validate_event_name event = None then ret () w
      else if pathExists (disk w) (dir @ [event]) then (Inr (), snd (rmtree backup w))
      else let (replaced, w') = replacePath backup (dir @ [event]) w in (if replaced then Inr () else Inl ''replace'', w'))"

primrec recoverLoop :: "path \<Rightarrow> path list \<Rightarrow> (string, unit) action" where
  "recoverLoop dir [] = ret ()"
| "recoverLoop dir (backup # rest) = andThen (recoverBackup dir backup) (\<lambda>_. recoverLoop dir rest)"

definition isBackup :: "path \<Rightarrow> bool" where
  "isBackup p \<longleftrightarrow> starts_with ''.'' (last p) \<and> ends_with ''.backup'' (last p) \<and> length (last p) \<ge> length ''..backup''"

definition newReceiver :: "path \<Rightarrow> World \<Rightarrow> (string + Receiver) \<times> World" where
  "newReceiver dir w =
     (let (made, w1) = createDirectories dir w in
      if \<not> made then (Inl ''mkdir'', w1)
      else (case recoverLoop dir (filter isBackup (entries (disk w1) dir)) w1 of
          (Inl e, w2) \<Rightarrow> (Inl e, w2)
        | (Inr u, w2) \<Rightarrow> (Inr \<lparr>inbox = dir, transfers = []\<rparr>, w2)))"


section \<open>What the operations do\<close>

lemma prefix_below: "q \<in> set (below d p) \<Longrightarrow> strict_prefix p q"
  by (simp add: below_def)

lemma rmtree_lookup: "rmtree p w = (ok, w') \<Longrightarrow> \<not> prefix p q \<Longrightarrow> lookup (disk w') q = lookup (disk w) q"
  unfolding rmtree_def
  by (erule perform_cases)
    (auto simp: lookup_deleteAll in_set_enumerate_eq dest!: prefix_below [OF nth_mem] dest: prefix_below split: if_splits)

lemma rmtree_gone:
  assumes "rmtree p w = (ok, w')" "lookup (disk w') p = None" "prefix p q" "lookup (disk w) p \<noteq> None"
  shows "lookup (disk w') q = None"
  using assms(1) unfolding rmtree_def
proof (cases rule: perform_cases)
  case effect
  then have "disk w' = deleteAll (p # below (disk w) p) (disk w)" by (auto split: if_splits)
  moreover have "q \<in> set (p # below (disk w) p)" if "lookup (disk w) q = Some x" for x
    using lookup_below [OF _ that, of p] assms(3) by (auto simp: strict_prefix_def)
  ultimately show ?thesis by (cases "lookup (disk w) q") (auto simp: lookup_deleteAll)
next
  case refused
  with assms show ?thesis by simp
next
  case (broken n)
  have "p \<notin> set (below (disk w) p)" using prefix_below [of p "disk w" p] by auto
  then have "p \<notin> snd ` set (filter (\<lambda>(i, q). odd (n div 2 ^ i)) (enumerate 0 (below (disk w) p)))"
    by (auto simp: in_set_enumerate_eq) (metis nth_mem)
  with broken(2) assms(2,4) show ?thesis
    by (simp add: lookup_deleteAll)
qed

lemma openUpdate_disk [simp]: "openUpdate p w = (ok, w') \<Longrightarrow> disk w' = disk w"
  unfolding openUpdate_def by (erule perform_cases) (auto split: if_splits)

lemma openDirectory_disk [simp]: "openDirectory p w = (ok, w') \<Longrightarrow> disk w' = disk w"
  unfolding openDirectory_def by (erule perform_cases) (auto split: if_splits)

lemma makeDirectory_lookup:
  "makeDirectory p w = (ok, w') \<Longrightarrow> \<not> prefix q p \<or> lookup (disk w) q \<noteq> None \<Longrightarrow> lookup (disk w') q = lookup (disk w) q"
  unfolding makeDirectory_def
  by (erule perform_cases)
    (auto simp: lookup_makeDirs ancestors_prefix dest!: in_set_takeD set_takeWhileD split: if_splits)

lemma makeDirectory_reads: "makeDirectory p w = (ok, w') \<Longrightarrow> readFile (disk w') q = readFile (disk w) q"
  unfolding makeDirectory_def
  by (erule perform_cases)
    (auto simp: readFile_def lookup_makeDirs dest!: in_set_takeD set_takeWhileD split: if_splits option.splits node.splits)

lemma makeDirectory_new:
  assumes "makeDirectory p w = (True, w')" "prefix p q"
  shows "lookup (disk w) q = None"
proof -
  have "lookup (disk w) p = None" "below (disk w) p = []"
    using assms(1) unfolding makeDirectory_def by (auto simp: pathExists_def elim!: perform_cases split: if_splits)
  then show ?thesis
    using lookup_below [of p q "disk w"] assms(2) by (cases "p = q"; cases "lookup (disk w) q") (auto simp: strict_prefix_def)
qed

lemma writeAt_lookup: "writeAt p offset data w = (ok, w') \<Longrightarrow> q \<noteq> p \<Longrightarrow> lookup (disk w') q = lookup (disk w) q"
  unfolding writeAt_def by (erule perform_cases) (auto simp: lookup_update split: option.splits if_splits)

lemma writeAt_done:
  "writeAt p offset data w = (True, w') \<Longrightarrow> \<exists>c. readFile (disk w) p = Some c \<and> readFile (disk w') p = Some (patch c offset data)"
  unfolding writeAt_def by (erule perform_cases) (auto simp: readFile_def lookup_update split: option.splits)

lemma openTrunc_done: "openTrunc p w = (True, w') \<Longrightarrow> readFile (disk w') p = Some []"
  unfolding openTrunc_def by (erule perform_cases) (auto simp: readFile_def lookup_update split: if_splits)

lemma patch_extends: "length s = offset \<Longrightarrow> prefix s c \<Longrightarrow> prefix (s @ data) (patch c offset data)"
  by (auto simp: patch_def prefix_def)

lemma patch_keeps: "length s \<le> offset \<Longrightarrow> prefix s c \<Longrightarrow> prefix s (patch c offset data)"
  by (auto simp: patch_def prefix_def)


lemma lookup_moveTree:
  assumes "\<not> prefix p q" "\<not> prefix q p"
  shows "lookup (moveTree p q d) r =
    (if prefix q r then lookup d (p @ drop (length q) r) else if prefix p r then None else lookup d r)"
proof (induction d)
  case Nil
  then show ?case by (simp add: moveTree_def lookup_def)
next
  case (Cons e d)
  obtain s x where e: "e = (s, x)" by (cases e)
  have apart: "\<not> (prefix p t \<and> prefix q t)" for t using assms prefix_same_cases by blast
  show ?case
  proof (cases "prefix q s")
    case True
    moreover from this apart [of s] have "s \<noteq> p @ t" "p @ t \<noteq> s" for t by auto
    ultimately show ?thesis using Cons by (auto simp: moveTree_def lookup_def e)
  next
    case q: False
    show ?thesis
    proof (cases "prefix p s")
      case True
      then obtain t where s: "s = p @ t" by (auto simp: prefix_def)
      have step: "lookup (moveTree p q (e # d)) r = (if q @ t = r then Some x else lookup (moveTree p q d) r)"
        using q by (simp add: moveTree_def lookup_def e s)
      show ?thesis
      proof (cases "prefix q r")
        case True
        with step Cons.IH show ?thesis by (auto simp: e s lookup_def prefix_def)
      next
        case False
        with step Cons.IH show ?thesis by (auto simp: e s lookup_def prefix_def)
      qed
    next
      case False
      have "lookup (moveTree p q (e # d)) r = (if s = r then Some x else lookup (moveTree p q d) r)"
        using q False by (simp add: moveTree_def lookup_def e)
      moreover have "s \<noteq> p @ t" for t using False by auto
      ultimately show ?thesis using q False Cons.IH by (auto simp: e lookup_def)
    qed
  qed
qed

lemma replaceEffect_cases:
  assumes "replaceEffect p q d = Some d'"
  obtains (single) c where "lookup d p = Some (File c)" "\<not> isDirectory d q" "d' = AList.update q (File c) (AList.delete p d)"
  | (subtree) "lookup d p = Some Dir" "\<not> prefix p q" "\<not> prefix q p" "readFile d q = None" "d' = moveTree p q d"
  using assms unfolding replaceEffect_def by (auto split: option.splits node.splits if_splits)

lemma replacePath_cases:
  assumes "replacePath p q w = (ok, w')"
  obtains (replaced) "ok" "replaceEffect p q (disk w) = Some (disk w')" | (failed) "\<not> ok" "disk w' = disk w"
  using assms unfolding replacePath_def by (elim perform_cases) auto

lemma replacePath_failed: "replacePath p q w = (False, w') \<Longrightarrow> disk w' = disk w"
  by (erule replacePath_cases) simp_all

lemma replacePath_frame:
  assumes "replacePath p q w = (ok, w')" "\<not> prefix p r" "\<not> prefix q r"
  shows "lookup (disk w') r = lookup (disk w) r"
  using assms(1)
proof (cases rule: replacePath_cases)
  case replaced
  from replaced(2) show ?thesis
  proof (cases rule: replaceEffect_cases)
    case single
    have "r \<noteq> p" "r \<noteq> q" using assms(2,3) by auto
    then show ?thesis by (simp add: single(3) lookup_update lookup_delete)
  next
    case subtree
    with assms(2,3) show ?thesis by (simp add: lookup_moveTree)
  qed
qed simp

lemma replacePath_tree:
  assumes "replacePath p q w = (True, w')" "lookup (disk w) p = Some Dir"
  shows "lookup (disk w') (q @ r) = lookup (disk w) (p @ r)" "lookup (disk w') (p @ r) = None"
proof -
  have "replaceEffect p q (disk w) = Some (disk w')" using assms(1) by (cases rule: replacePath_cases) simp_all
  then have moved: "disk w' = moveTree p q (disk w)" "\<not> prefix p q" "\<not> prefix q p"
    using assms(2) by (auto elim: replaceEffect_cases)
  have "\<not> prefix q (p @ r)" using moved(2,3) prefix_same_cases [of q "p @ r" p] by auto
  with moved show "lookup (disk w') (q @ r) = lookup (disk w) (p @ r)" "lookup (disk w') (p @ r) = None"
    by (simp_all add: lookup_moveTree)
qed

lemma replacePath_gone:
  assumes "replacePath p q w = (True, w')" "p \<noteq> q"
  shows "lookup (disk w') p = None"
  using assms(1)
proof (cases rule: replacePath_cases)
  case replaced
  from replaced(2) show ?thesis
  proof (cases rule: replaceEffect_cases)
    case single
    with assms(2) show ?thesis by (simp add: lookup_update lookup_delete)
  next
    case subtree
    then show ?thesis by (simp add: lookup_moveTree)
  qed
qed simp


section \<open>Storing a chunk\<close>

lemma split_fields_sep: "f \<in> set (split_fields c s) \<Longrightarrow> c \<notin> set f"
  by (induction s arbitrary: f) (auto split: list.splits if_splits)

lemma joined_split: "joined c (split_fields c s) = s"
  by (induction s) (auto split: list.splits)

lemma safe_relative_parts:
  assumes "safe_relative p = Some parts"
  shows "split_fields CHR ''/'' (joined CHR ''/'' parts) = parts" "parts \<noteq> []" "list_all safePart parts"
  using assms by (auto simp: safe_relative_def Let_def joined_split split: if_splits)

definition fileAt :: "path \<Rightarrow> string \<Rightarrow> path" where
  "fileAt staging relative = staging @ split_fields CHR ''/'' relative"

lemma fileAt_below: "strict_prefix staging (fileAt staging relative)"
  by (simp add: fileAt_def strict_prefix_def)

text \<open>What was received of a file is counted, and stands at the beginning of the file on disk.\<close>

definition file_held :: "path \<Rightarrow> FileState \<Rightarrow> disk \<Rightarrow> bool" where
  "file_held target fs d \<longleftrightarrow> received_bytes fs = length (hasher fs) \<and> received_bytes fs \<le> expected_bytes fs \<and>
     (hasher fs \<noteq> [] \<longrightarrow> (\<exists>c. readFile d target = Some c \<and> prefix (hasher fs) c))"

lemma openUpdate_reads: "openUpdate p w = (ok, w') \<Longrightarrow> readFile (disk w') q = readFile (disk w) q"
  by simp

lemma openTrunc_reads: "openTrunc p w = (ok, w') \<Longrightarrow> q \<noteq> p \<Longrightarrow> readFile (disk w') q = readFile (disk w) q"
  using openTrunc_lookup [of p w ok w' q] by (simp add: readFile_def)

lemma writeAt_reads: "writeAt p offset data w = (ok, w') \<Longrightarrow> q \<noteq> p \<Longrightarrow> readFile (disk w') q = readFile (disk w) q"
  using writeAt_lookup [of p offset data w ok w' q] by (simp add: readFile_def)

lemma writeAt_holds:
  assumes "writeAt p offset data w = (ok, w')" "readFile (disk w) p = Some c" "prefix s c" "length s \<le> offset"
  shows "\<exists>c'. readFile (disk w') p = Some c' \<and> prefix s c'"
  using assms(1) unfolding writeAt_def
proof (cases rule: perform_cases)
  case effect
  with assms(2-4) show ?thesis by (auto simp: readFile_def [of "AList.update p x d" for x d] lookup_update patch_keeps)
next
  case refused
  with assms show ?thesis by simp
next
  case (broken n)
  with assms(2-4) show ?thesis
    by (cases "take n data = []") (auto simp: readFile_def [of "AList.update p x d" for x d] lookup_update patch_keeps)
qed

text \<open>Every run of \<open>storeData\<close> ends in one of three ways.\<close>

lemma storeData_cases:
  assumes "storeData target relative fs offset data w = (r, fs', w')"
  obtains (refused) "w' = w \<or> (\<exists>made. createDirectories (parentPath target) w = (made, w'))" "fs' = fs"
      "\<And>reply. r = Inr reply \<Longrightarrow> fst reply \<Longrightarrow> offset < received_bytes fs"
  | (failed) w1 opened w2 where "createDirectories (parentPath target) w = (True, w1)"
      "(if pathExists (disk w1) target then openUpdate target w1 else openTrunc target w1) = (opened, w2)"
      "offset = received_bytes fs" "fs' = fs" "isl r"
      "w' = w2 \<and> \<not> opened \<or> opened \<and> writeAt target offset data w2 = (False, w')"
  | (stored) w1 w2 where "createDirectories (parentPath target) w = (True, w1)"
      "(if pathExists (disk w1) target then openUpdate target w1 else openTrunc target w1) = (True, w2)"
      "writeAt target offset data w2 = (True, w')" "offset = received_bytes fs" "offset + length data \<le> expected_bytes fs"
      "fs' = fs\<lparr>hasher := hasher fs @ data, received_bytes := offset + length data\<rparr>" "r = Inr (True, Stored, offset + length data)"
proof -
  obtain made w1 where c: "createDirectories (parentPath target) w = (made, w1)" by fastforce
  obtain opened w2 where o: "(if pathExists (disk w1) target then openUpdate target w1 else openTrunc target w1) = (opened, w2)" by fastforce
  obtain wrote w3 where p: "writeAt target offset data w2 = (wrote, w3)" by fastforce
  consider "offset + length data > expected_bytes fs \<or> \<not> made \<or> offset \<noteq> received_bytes fs"
    | "offset + length data \<le> expected_bytes fs" "made" "offset = received_bytes fs" "\<not> opened"
    | "offset + length data \<le> expected_bytes fs" "made" "offset = received_bytes fs" "opened" "\<not> wrote"
    | "offset + length data \<le> expected_bytes fs" "made" "offset = received_bytes fs" "opened" "wrote"
    by linarith
  then show ?thesis
  proof cases
    case 1
    with assms show ?thesis
      by (intro refused) (auto simp: storeData_def c Let_def split: if_splits option.splits)
  next
    case 2
    with assms c o show ?thesis by (intro failed [of w1 opened w2]) (auto simp: storeData_def)
  next
    case 3
    with assms c o p show ?thesis by (intro failed [of w1 opened w2]) (auto simp: storeData_def)
  next
    case 4
    with assms c o p show ?thesis by (intro stored [of w1 w2]) (simp_all add: storeData_def)
  qed
qed


lemma opened_reads:
  "(if pathExists (disk w1) p then openUpdate p w1 else openTrunc p w1) = (ok, w2) \<Longrightarrow> q \<noteq> p \<Longrightarrow>
     readFile (disk w2) q = readFile (disk w1) q"
  by (simp add: openUpdate_reads openTrunc_reads split: if_splits)

lemma opened_kept:
  "(if pathExists (disk w1) p then openUpdate p w1 else openTrunc p w1) = (ok, w2) \<Longrightarrow> readFile (disk w1) p = Some c \<Longrightarrow>
     readFile (disk w2) p = Some c"
  by (auto simp: openUpdate_reads pathExists_def readFile_def split: if_splits option.splits)

lemma storeData_reads:
  assumes "storeData target relative fs offset data w = (r, fs', w')" "q \<noteq> target"
  shows "readFile (disk w') q = readFile (disk w) q"
  using assms(1)
proof (cases rule: storeData_cases)
  case refused
  then show ?thesis using createDirectories_reads by auto
next
  case (failed w1 opened w2)
  then have "readFile (disk w') q = readFile (disk w2) q" using writeAt_reads assms(2) by auto
  then show ?thesis
    using opened_reads [OF failed(2) assms(2)] createDirectories_reads [OF failed(1)] by simp
next
  case (stored w1 w2)
  then show ?thesis
    using writeAt_reads [OF stored(3) assms(2)] opened_reads [OF stored(2) assms(2)] createDirectories_reads [OF stored(1)] by simp
qed

lemma storeData_lookup:
  assumes "storeData target relative fs offset data w = (r, fs', w')" "q \<noteq> target"
    and "\<not> prefix q (parentPath target) \<or> lookup (disk w) q \<noteq> None"
  shows "lookup (disk w') q = lookup (disk w) q"
proof -
  have open': "lookup (disk w2) q = lookup (disk w1) q"
    if "(if pathExists (disk w1) target then openUpdate target w1 else openTrunc target w1) = (ok, w2)" for ok w1 w2
    using that openTrunc_lookup [OF _ assms(2)] by (auto split: if_splits)
  show ?thesis
    using assms(1)
  proof (cases rule: storeData_cases)
    case refused
    then show ?thesis using createDirectories_lookup assms(3) by auto
  next
    case (failed w1 opened w2)
    then have "lookup (disk w') q = lookup (disk w2) q" using writeAt_lookup assms(2) by auto
    then show ?thesis
      using open' [OF failed(2)] createDirectories_lookup [OF failed(1) assms(3)] by simp
  next
    case (stored w1 w2)
    then show ?thesis
      using writeAt_lookup [OF stored(3) assms(2)] open' [OF stored(2)] createDirectories_lookup [OF stored(1) assms(3)] by simp
  qed
qed

lemma storeData_held:
  assumes "storeData target relative fs offset data w = (r, fs', w')" "file_held target fs (disk w)"
  shows "file_held target fs' (disk w') \<and> expected_bytes fs' = expected_bytes fs"
  using assms(1)
proof (cases rule: storeData_cases)
  case refused
  then show ?thesis using assms(2) createDirectories_reads by (auto simp: file_held_def)
next
  case (failed w1 opened w2)
  have "\<exists>c. readFile (disk w') target = Some c \<and> prefix (hasher fs) c" if ne: "hasher fs \<noteq> []"
  proof -
    from assms(2) ne obtain c where c: "readFile (disk w) target = Some c" "prefix (hasher fs) c" by (auto simp: file_held_def)
    then have "readFile (disk w2) target = Some c"
      using opened_kept [OF failed(2)] createDirectories_reads [OF failed(1)] by simp
    moreover have "length (hasher fs) \<le> offset" using failed(3) assms(2) by (simp add: file_held_def)
    ultimately show ?thesis using failed(6) writeAt_holds [OF _ _ c(2)] c(2) by auto
  qed
  with assms(2) failed(4) show ?thesis by (simp add: file_held_def)
next
  case (stored w1 w2)
  from writeAt_done [OF stored(3)] obtain c where
    c: "readFile (disk w2) target = Some c" "readFile (disk w') target = Some (patch c offset data)" by blast
  have len: "length (hasher fs) = offset" using assms(2) stored(4) by (simp add: file_held_def)
  have "prefix (hasher fs) c"
  proof (cases "hasher fs = []")
    case False
    with assms(2) obtain c' where "readFile (disk w) target = Some c'" "prefix (hasher fs) c'" by (auto simp: file_held_def)
    with c(1) opened_kept [OF stored(2)] createDirectories_reads [OF stored(1)] show ?thesis by simp
  qed simp
  from patch_extends [OF len this] c(2) len stored(5) show ?thesis by (simp add: file_held_def stored(6))
qed


lemma fileAt_inject [simp]: "fileAt staging r = fileAt staging r' \<longleftrightarrow> r = r'"
  by (metis append_same_eq fileAt_def joined_split same_append_eq)

text \<open>A transfer and its staging directory: nothing is there that did not come with it.\<close>

definition staged :: "TransferState \<Rightarrow> disk \<Rightarrow> bool" where
  "staged st d \<longleftrightarrow> distinct (map fst (ts_files st)) \<and>
     (\<forall>(relative, fs)\<in>set (ts_files st). file_held (fileAt (staging_dir st) relative) fs d) \<and>
     (\<forall>q. strict_prefix (staging_dir st) q \<longrightarrow> readFile d q \<noteq> None \<longrightarrow> q \<in> fileAt (staging_dir st) ` fst ` set (ts_files st))"

lemma staged_same:
  assumes "staged st d" "ts_files st' = ts_files st" "staging_dir st' = staging_dir st"
    and "\<And>q. strict_prefix (staging_dir st) q \<Longrightarrow> readFile d' q = readFile d q"
  shows "staged st' d'"
proof -
  have held: "file_held (fileAt (staging_dir st) relative) fs d'" if "file_held (fileAt (staging_dir st) relative) fs d" for relative fs
    using that assms(4) [OF fileAt_below] by (simp add: file_held_def)
  show ?thesis using assms(1,4) unfolding staged_def assms(2,3) by (auto intro: held)
qed

lemma store_chunk_cases:
  assumes "store_chunk host st request w = (r, st', w')"
  obtains (refused) c where "\<And>reply. r = Inr reply \<Longrightarrow> \<not> fst reply" "st' = st\<lparr>canonical_paths := c\<rparr>" "w' = w"
  | (handed) parts fs fs' c where "safe_relative (up_file_path request) = Some parts"
      "fs = (case map_of (ts_files st) (joined CHR ''/'' parts) of None \<Rightarrow> freshFile (up_total_bytes request) | Some fs \<Rightarrow> fs)"
      "expected_bytes fs = up_total_bytes request"
      "storeData (fileAt (staging_dir st) (joined CHR ''/'' parts)) (joined CHR ''/'' parts) fs (up_offset request) (up_data request) w = (r, fs', w')"
      "st' = st\<lparr>canonical_paths := c, ts_files := AList.update (joined CHR ''/'' parts) fs' (ts_files st)\<rparr>"
proof (cases "safe_relative (up_file_path request)")
  case None
  with assms show ?thesis by (intro refused [of "canonical_paths st"]) (auto simp: store_chunk_def)
next
  case (Some parts)
  let ?relative = "joined CHR ''/'' parts"
  let ?fs = "case map_of (ts_files st) ?relative of None \<Rightarrow> freshFile (up_total_bytes request) | Some fs \<Rightarrow> fs"
  have at: "staging_dir st @ parts = fileAt (staging_dir st) ?relative"
    by (simp add: fileAt_def safe_relative_parts [OF Some])
  obtain r1 fs' w1 where s: "storeData (fileAt (staging_dir st) ?relative) ?relative ?fs (up_offset request) (up_data request) w = (r1, fs', w1)"
    using prod_cases3 by blast
  let ?existing = "map_of (canonical_paths st) (casefold host ?relative)"
  let ?collision = "?existing \<noteq> None \<and> ?existing \<noteq> Some ?relative"
  let ?changed = "map_of (ts_files st) ?relative \<noteq> None \<and> expected_bytes ?fs \<noteq> up_total_bytes request"
  consider "?collision" | "\<not> ?collision" "?changed" | "\<not> ?collision" "\<not> ?changed" by blast
  then show ?thesis
  proof cases
    case 1
    with assms Some show ?thesis by (intro refused [of "canonical_paths st"]) (auto simp: store_chunk_def Let_def)
  next
    case 2
    with assms Some show ?thesis
      by (intro refused [of "AList.update (casefold host ?relative) ?relative (canonical_paths st)"])
        (auto simp: store_chunk_def Let_def split: option.splits)
  next
    case 3
    then have fits: "expected_bytes ?fs = up_total_bytes request" by (auto simp: freshFile_def)
    have "r = r1 \<and> w' = w1 \<and> st' = st\<lparr>canonical_paths := AList.update (casefold host ?relative) ?relative (canonical_paths st),
        ts_files := AList.update ?relative fs' (ts_files st)\<rparr>"
      using assms Some 3 fits s by (cases "map_of (ts_files st) ?relative") (auto simp: store_chunk_def Let_def at)
    with Some fits s show ?thesis by (intro handed [of parts ?fs fs']) simp_all
  qed
qed


lemma file_held_same: "file_held p fs d \<Longrightarrow> readFile d' p = readFile d p \<Longrightarrow> file_held p fs d'"
  by (simp add: file_held_def)

definition same_transfer :: "TransferState \<Rightarrow> TransferState \<Rightarrow> bool" where
  "same_transfer st st' \<longleftrightarrow> ts_event st' = ts_event st \<and> ts_transfer_id st' = ts_transfer_id st \<and> staging_dir st' = staging_dir st \<and>
     final_dir st' = final_dir st \<and> expected_files st' = expected_files st \<and> ts_expected_bytes st' = ts_expected_bytes st"

lemma staged_update:
  assumes "staged st d" "file_held (fileAt (staging_dir st) relative) fs d'"
    and "\<And>q. q \<noteq> fileAt (staging_dir st) relative \<Longrightarrow> strict_prefix (staging_dir st) q \<Longrightarrow> readFile d' q = readFile d q"
  shows "staged (st\<lparr>canonical_paths := c, ts_files := AList.update relative fs (ts_files st)\<rparr>) d'"
proof -
  have d: "distinct (map fst (AList.update relative fs (ts_files st)))"
    using assms(1) by (simp add: staged_def distinct_update)
  have held: "file_held (fileAt (staging_dir st) r) f d'" if "(r, f) \<in> set (AList.update relative fs (ts_files st))" for r f
  proof (cases "r = relative")
    case True
    have "map_of (AList.update relative fs (ts_files st)) r = Some f" using d that by (rule map_of_is_SomeI)
    with True assms(2) show ?thesis by (simp add: update_conv')
  next
    case False
    have "map_of (AList.update relative fs (ts_files st)) r = Some f" using d that by (rule map_of_is_SomeI)
    then have "(r, f) \<in> set (ts_files st)" using False by (simp add: update_conv' map_of_SomeD)
    then have "file_held (fileAt (staging_dir st) r) f d" using assms(1) by (auto simp: staged_def)
    then show ?thesis by (rule file_held_same) (use False assms(3) fileAt_below in simp)
  qed
  have "q \<in> fileAt (staging_dir st) ` fst ` set (AList.update relative fs (ts_files st))"
    if "strict_prefix (staging_dir st) q" "readFile d' q \<noteq> None" for q
  proof (cases "q = fileAt (staging_dir st) relative")
    case False
    with that assms(1,3) have "q \<in> fileAt (staging_dir st) ` fst ` set (ts_files st)" by (simp add: staged_def)
    then show ?thesis by (simp add: dom_update)
  qed (simp add: dom_update)
  with d held show ?thesis by (auto simp: staged_def)
qed

lemma store_chunk_staged:
  assumes "store_chunk host st request w = (r, st', w')" "staged st (disk w)"
  shows "staged st' (disk w') \<and> same_transfer st st' \<and> last_activity st' = last_activity st"
  using assms(1)
proof (cases rule: store_chunk_cases)
  case refused
  with assms(2) show ?thesis by (auto simp: same_transfer_def intro: staged_same)
next
  case (handed parts fs fs' c)
  let ?relative = "joined CHR ''/'' parts"
  let ?target = "fileAt (staging_dir st) ?relative"
  have "file_held ?target fs (disk w)"
  proof (cases "map_of (ts_files st) ?relative")
    case None
    with handed(2) show ?thesis by (simp add: file_held_def freshFile_def)
  next
    case (Some f)
    then have "(?relative, f) \<in> set (ts_files st)" by (rule map_of_SomeD)
    with Some handed(2) assms(2) show ?thesis by (auto simp: staged_def)
  qed
  from storeData_held [OF handed(4) this] have "file_held ?target fs' (disk w')" ..
  with staged_update [OF assms(2)] storeData_reads [OF handed(4)] show ?thesis
    by (simp add: handed(5) same_transfer_def)
qed

lemma store_chunk_reads:
  assumes "store_chunk host st request w = (r, st', w')" "\<not> strict_prefix (staging_dir st) q"
  shows "readFile (disk w') q = readFile (disk w) q"
  using assms(1)
proof (cases rule: store_chunk_cases)
  case (handed parts fs fs' c)
  show ?thesis by (rule storeData_reads [OF handed(4)]) (use assms(2) fileAt_below in metis)
qed simp

lemma store_chunk_lookup:
  assumes "store_chunk host st request w = (r, st', w')" "\<not> prefix (staging_dir st) q" "\<not> prefix q (staging_dir st) \<or> lookup (disk w) q \<noteq> None"
  shows "lookup (disk w') q = lookup (disk w) q"
  using assms(1)
proof (cases rule: store_chunk_cases)
  case (handed parts fs fs' c)
  let ?target = "fileAt (staging_dir st) (joined CHR ''/'' parts)"
  show ?thesis
  proof (rule storeData_lookup [OF handed(4)])
    show "q \<noteq> ?target" using assms(2) by (auto simp: fileAt_def)
    have "\<not> prefix q (parentPath ?target)" if "\<not> prefix q (staging_dir st)"
    proof
      assume "prefix q (parentPath ?target)"
      then have "prefix q ?target" by (metis parentPath_def prefix_order.trans prefixeq_butlast)
      then show False using that assms(2) prefix_same_cases [of q ?target "staging_dir st"] by (auto simp: fileAt_def)
    qed
    with assms(3) show "\<not> prefix q (parentPath ?target) \<or> lookup (disk w) q \<noteq> None" by blast
  qed
qed simp

text \<open>A chunk that is accepted where the file ends so far extends it.\<close>

lemma store_chunk_appends:
  assumes "store_chunk host st request w = (Inr (True, verdict, n), st', w')"
    and "safe_relative (up_file_path request) = Some parts"
    and "fs = (case map_of (ts_files st) (joined CHR ''/'' parts) of None \<Rightarrow> freshFile (up_total_bytes request) | Some fs \<Rightarrow> fs)"
    and "up_offset request = received_bytes fs"
  shows "ts_files st' = AList.update (joined CHR ''/'' parts)
      (fs\<lparr>hasher := hasher fs @ up_data request, received_bytes := up_offset request + length (up_data request)\<rparr>) (ts_files st)"
  using assms(1)
proof (cases rule: store_chunk_cases)
  case (handed parts' fs0 fs' c)
  then have same: "parts' = parts" "fs0 = fs" using assms(2,3) by simp_all
  from handed(4) show ?thesis
  proof (cases rule: storeData_cases)
    case stored
    with handed(5) same show ?thesis by simp
  qed (use assms(4) same in auto)
qed auto


section \<open>The state of the node\<close>

abbreviation validName :: "string \<Rightarrow> bool" where
  "validName name \<equiv> validate_event_name name = Some name"

lemma validate_name: "validate_event_name name = Some name' \<longleftrightarrow> name' = name \<and> validName name"
  by (auto simp: validate_event_name_def)

lemma validName_chars:
  assumes "validName name"
  shows "name \<noteq> []" "hd name \<noteq> CHR ''.''"
  using assms by (auto simp: validate_event_name_def char_class_defs split: if_splits)

definition stagingOf :: "path \<Rightarrow> string \<times> string \<Rightarrow> path" where
  "stagingOf dir key = dir @ [stagingName (fst key) (snd key)]"

definition backupOf :: "path \<Rightarrow> string \<Rightarrow> path" where
  "backupOf dir event = dir @ [backupName event]"

lemma sibling_prefix [simp]: "prefix (dir @ [a]) (dir @ b # r) \<longleftrightarrow> a = b"
  by simp

lemma published_apart:
  assumes "validName event"
  shows "stagingName e t \<noteq> event" "event \<noteq> stagingName e t" "backupName e \<noteq> event" "event \<noteq> backupName e"
    "stagingName e t \<noteq> backupName e'" "backupName e' \<noteq> stagingName e t"
proof -
  have "stagingName e t \<noteq> event" "backupName e \<noteq> event"
    using validName_chars [OF assms] by (auto simp: stagingName_def backupName_def)
  moreover have "last (stagingName e t) \<noteq> last (backupName e')" by (simp add: stagingName_def backupName_def)
  then have "stagingName e t \<noteq> backupName e'" by metis
  ultimately show "stagingName e t \<noteq> event" "event \<noteq> stagingName e t" "backupName e \<noteq> event" "event \<noteq> backupName e"
    "stagingName e t \<noteq> backupName e'" "backupName e' \<noteq> stagingName e t"
    by metis+
qed

text \<open>Every transfer has its own key and is the only one of its event.\<close>

definition entry_ok :: "path \<Rightarrow> (string \<times> string) \<times> TransferState \<Rightarrow> bool" where
  "entry_ok dir = (\<lambda>(key, st). validName (fst key) \<and> validName (snd key) \<and> key = (ts_event st, ts_transfer_id st) \<and>
     staging_dir st = stagingOf dir key \<and> final_dir st = dir @ [fst key])"

definition receiver_ok :: "Receiver \<Rightarrow> bool" where
  "receiver_ok R \<longleftrightarrow> distinct (map fst (transfers R)) \<and> distinct (map (fst \<circ> fst) (transfers R)) \<and>
     length (transfers R) \<le> MAX_ACTIVE_TRANSFERS \<and> (\<forall>e\<in>set (transfers R). entry_ok (inbox R) e)"

lemma receiver_ok_entry: "receiver_ok R \<Longrightarrow> map_of (transfers R) key = Some st \<Longrightarrow> entry_ok (inbox R) (key, st)"
  by (auto simp: receiver_ok_def dest: map_of_SomeD)

lemma update_present:
  "map_of al k \<noteq> None \<Longrightarrow> map fst (AList.update k v al) = map fst al \<and> length (AList.update k v al) = length al \<and>
     set (AList.update k v al) \<subseteq> insert (k, v) (set al)"
  by (induction al) auto

lemma update_absent: "map_of al k = None \<Longrightarrow> AList.update k v al = al @ [(k, v)]"
  by (induction al) auto

lemma receiver_ok_update:
  assumes "receiver_ok R" "map_of (transfers R) key = Some st" "same_transfer st st'"
  shows "receiver_ok (R\<lparr>transfers := AList.update key st' (transfers R)\<rparr>)"
proof -
  have keys: "map fst (AList.update key st' (transfers R)) = map fst (transfers R)"
    "length (AList.update key st' (transfers R)) = length (transfers R)"
    and sub: "set (AList.update key st' (transfers R)) \<subseteq> insert (key, st') (set (transfers R))"
    using update_present [of "transfers R" key st'] assms(2) by auto
  then have "map (fst \<circ> fst) (AList.update key st' (transfers R)) = map (fst \<circ> fst) (transfers R)" by (metis map_map)
  moreover have "entry_ok (inbox R) (key, st')"
    using receiver_ok_entry [OF assms(1,2)] assms(3) by (auto simp: entry_ok_def same_transfer_def)
  ultimately show ?thesis using assms(1) keys sub by (auto simp: receiver_ok_def)
qed

lemma receiver_ok_delete:
  assumes "receiver_ok R"
  shows "receiver_ok (R\<lparr>transfers := AList.delete key (transfers R)\<rparr>)"
  using assms le_trans [OF length_filter_le]
  by (auto simp: receiver_ok_def AList.delete_eq intro: distinct_map_filter)


definition idle :: "int \<Rightarrow> (string \<times> string) \<times> TransferState \<Rightarrow> bool" where
  "idle now e \<longleftrightarrow> last_activity (snd e) < now - TRANSFER_IDLE_SECONDS * 1000000000"

lemma prune_fold:
  assumes "fold (pruneTransfer now) es (R, w) = (R', w')"
  shows "inbox R' = inbox R \<and> transfers R' = filter (\<lambda>e. fst e \<notin> fst ` set (filter (idle now) es)) (transfers R) \<and>
    ((\<forall>e\<in>set es. idle now e \<longrightarrow> \<not> prefix (staging_dir (snd e)) q) \<longrightarrow> lookup (disk w') q = lookup (disk w) q)"
  using assms
proof (induction es arbitrary: R w)
  case (Cons e es)
  obtain key st where e: "e = (key, st)" by (cases e)
  show ?case
  proof (cases "idle now e")
    case True
    obtain ok w1 where rm: "rmtree (staging_dir st) w = (ok, w1)" by fastforce
    have "pruneTransfer now e (R, w) = (R\<lparr>transfers := AList.delete key (transfers R)\<rparr>, w1)"
      using True rm by (simp add: pruneTransfer_def idle_def e)
    then have "fold (pruneTransfer now) es (R\<lparr>transfers := AList.delete key (transfers R)\<rparr>, w1) = (R', w')"
      using Cons.prems by simp
    from Cons.IH [OF this] rmtree_lookup [OF rm, of q] True show ?thesis
      by (auto simp: e AList.delete_eq case_prod_beta intro!: filter_cong)
  next
    case False
    then have "pruneTransfer now e (R, w) = (R, w)" by (simp add: pruneTransfer_def idle_def e)
    with Cons.prems have "fold (pruneTransfer now) es (R, w) = (R', w')" by simp
    from Cons.IH [OF this] False show ?thesis by simp
  qed
qed simp

lemma prune_idle:
  assumes "prune_idle_transfers now R w = (R', w')" "receiver_ok R"
  shows "receiver_ok R'" "inbox R' = inbox R" "transfers R' = filter (\<lambda>e. \<not> idle now e) (transfers R)"
    "(\<forall>e\<in>set (transfers R). idle now e \<longrightarrow> \<not> prefix (stagingOf (inbox R) (fst e)) q) \<Longrightarrow> lookup (disk w') q = lookup (disk w) q"
proof -
  note run = prune_fold [OF assms(1) [unfolded prune_idle_transfers_def]]
  show inb: "inbox R' = inbox R" using run by blast
  have idle_key: "fst e \<notin> fst ` set (filter (idle now) (transfers R)) \<longleftrightarrow> \<not> idle now e" if "e \<in> set (transfers R)" for e
    using assms(2) that by (fastforce simp: receiver_ok_def distinct_map inj_on_def)
  have "transfers R' = filter (\<lambda>e. fst e \<notin> fst ` set (filter (idle now) (transfers R))) (transfers R)" using run by blast
  also have "\<dots> = filter (\<lambda>e. \<not> idle now e) (transfers R)" by (rule filter_cong [OF refl idle_key])
  finally show tr: "transfers R' = filter (\<lambda>e. \<not> idle now e) (transfers R)" .
  show "receiver_ok R'"
    using assms(2) le_trans [OF length_filter_le] unfolding receiver_ok_def inb tr
    by (auto intro: distinct_map_filter)
  assume free: "\<forall>e\<in>set (transfers R). idle now e \<longrightarrow> \<not> prefix (stagingOf (inbox R) (fst e)) q"
  have "\<not> prefix (staging_dir (snd e)) q" if "e \<in> set (transfers R)" "idle now e" for e
  proof -
    have "entry_ok (inbox R) e" using assms(2) that(1) by (simp add: receiver_ok_def)
    then have "staging_dir (snd e) = stagingOf (inbox R) (fst e)" by (auto simp: entry_ok_def split: prod.splits)
    with free that(2) that(1) show ?thesis by auto
  qed
  then show "lookup (disk w') q = lookup (disk w) q" using run by blast
qed

lemma beginTransfer_cases:
  assumes "beginTransfer now R event transferId n b w = (r, R', w')"
  obtains (refused) "R' = R" "w' = w" "\<And>reply. r = Inr reply \<Longrightarrow> \<not> fst reply"
  | (failed) ok w1 where "R' = R" "isl r" "rmtree (stagingOf (inbox R) (event, transferId)) w = (ok, w1)"
      "makeDirectory (stagingOf (inbox R) (event, transferId)) w1 = (False, w')"
  | (started) ok w1 st where "r = Inr (True, Started, 0)" "rmtree (stagingOf (inbox R) (event, transferId)) w = (ok, w1)"
      "makeDirectory (stagingOf (inbox R) (event, transferId)) w1 = (True, w')"
      "R' = R\<lparr>transfers := AList.update (event, transferId) st (transfers R)\<rparr>"
      "st = \<lparr>ts_event = event, ts_transfer_id = transferId, staging_dir = stagingOf (inbox R) (event, transferId),
         final_dir = inbox R @ [event], expected_files = n, ts_expected_bytes = b, ts_files = [], canonical_paths = [], last_activity = now\<rparr>"
      "map_of (transfers R) (event, transferId) \<noteq> None \<or> length (transfers R) < MAX_ACTIVE_TRANSFERS"
      "\<not> list_ex (\<lambda>(key, st). ts_event st = event \<and> ts_transfer_id st \<noteq> transferId) (transfers R)"
proof -
  let ?staging = "stagingOf (inbox R) (event, transferId)"
  obtain ok w1 where rm: "rmtree ?staging w = (ok, w1)" by fastforce
  obtain made w2 where mk: "makeDirectory ?staging w1 = (made, w2)" by fastforce
  have s: "inbox R @ [stagingName event transferId] = ?staging" by (simp add: stagingOf_def)
  let ?refuse = "n = 0 \<or> n > MAX_FILES \<or> b > MAX_TOTAL_BYTES \<or> length event + length transferId + length ''...part'' > 240 \<or>
    map_of (transfers R) (event, transferId) = None \<and> length (transfers R) \<ge> MAX_ACTIVE_TRANSFERS \<or>
    list_ex (\<lambda>(key, st). ts_event st = event \<and> ts_transfer_id st \<noteq> transferId) (transfers R)"
  consider "?refuse" | "\<not> ?refuse" "\<not> made" | "\<not> ?refuse" "made" by blast
  then show ?thesis
  proof cases
    case 1
    have "R' = R \<and> w' = w \<and> (\<exists>verdict. r = Inr (False, verdict, 0))"
      using assms 1 unfolding beginTransfer_def s by (simp only: if_True if_False prod.inject split: if_splits; blast)
    then show ?thesis by (intro refused) auto
  next
    case 2
    with assms rm mk show ?thesis unfolding beginTransfer_def s by (intro failed) auto
  next
    case 3
    with assms rm mk show ?thesis unfolding beginTransfer_def s by (intro started) (auto simp: not_le)
  qed
qed


lemma checkFiles_disk: "checkFiles staging fs w = (r, w') \<Longrightarrow> disk w' = disk w"
  by (induction fs arbitrary: w) (auto simp: Let_def split: if_splits prod.splits bool.splits)

lemma checkFiles_complete:
  "checkFiles staging fs w = (Inr None, w') \<Longrightarrow> (relative, f) \<in> set fs \<Longrightarrow>
     received_bytes f = expected_bytes f \<and> (\<exists>c. readFile (disk w) (fileAt staging relative) = Some c \<and> length c = expected_bytes f)"
proof (induction fs arbitrary: w)
  case (Cons e fs)
  obtain r g where e: "e = (r, g)" by (cases e)
  obtain ok w1 where o: "openUpdate (fileAt staging r) w = (ok, w1)" by fastforce
  have first: "received_bytes g = expected_bytes g \<and> (\<exists>c. readFile (disk w) (fileAt staging r) = Some c \<and> length c = expected_bytes g)"
    and rest: "checkFiles staging fs w1 = (Inr None, w')"
    using Cons.prems(1) o unfolding e fileAt_def
    by (auto simp: Let_def split: if_splits option.splits bool.splits)
  show ?case
  proof (cases "(relative, f) = (r, g)")
    case False
    then have "(relative, f) \<in> set fs" using Cons.prems(2) by (auto simp: e)
    from Cons.IH [OF rest this] openUpdate_disk [OF o] show ?thesis by simp
  qed (use first in simp)
qed simp

section \<open>Publication\<close>

text \<open>Three entries of one directory, with different names.\<close>

definition siblings :: "path \<Rightarrow> path \<Rightarrow> path \<Rightarrow> bool" where
  "siblings a b c \<longleftrightarrow> (\<exists>dir x y z. a = dir @ [x] \<and> b = dir @ [y] \<and> c = dir @ [z] \<and> x \<noteq> y \<and> x \<noteq> z \<and> y \<noteq> z)"

lemma siblings_apart:
  assumes "siblings a b c"
  shows "\<not> prefix a (b @ r)" "\<not> prefix a (c @ r)" "\<not> prefix b (a @ r)" "\<not> prefix b (c @ r)" "\<not> prefix c (a @ r)" "\<not> prefix c (b @ r)"
  using assms by (auto simp: siblings_def)

lemma publish_frame:
  assumes "publish staging final backup w = (r, w')" "\<not> prefix staging q" "\<not> prefix final q" "\<not> prefix backup q"
  shows "lookup (disk w') q = lookup (disk w) q"
proof -
  obtain o1 w1 where r1: "rmtree backup w = (o1, w1)" by fastforce
  obtain o2 w2 where r2: "openDirectory (parentPath final) w1 = (o2, w2)" by fastforce
  obtain o3 w3 where r3: "(if pathExists (disk w2) final then replacePath final backup w2 else (True, w2)) = (o3, w3)" by fastforce
  obtain o4 w4 where r4: "replacePath staging final w3 = (o4, w4)" by fastforce
  obtain o5 w5 where r5: "rmtree backup w4 = (o5, w5)" by fastforce
  obtain o6 w6 where r6: "openDirectory (parentPath final) w5 = (o6, w6)" by fastforce
  obtain o7 w7 where r7: "replacePath backup final w4 = (o7, w7)" by fastforce
  have "w' \<in> {w2, w3, w4, w6, w7}"
    using assms(1) by (auto simp: publish_def r1 r2 r3 r4 r5 r6 r7 Let_def split: if_splits)
  moreover have same3: "lookup (disk w3) q = lookup (disk w2) q"
    using r3 replacePath_frame [of final backup w2 o3 w3 q] assms(3,4) by (auto split: if_splits)
  ultimately show ?thesis
    using rmtree_lookup [OF r1 assms(4)] openDirectory_disk [OF r2] replacePath_frame [OF r4 assms(2,3)] rmtree_lookup [OF r5 assms(4)]
      openDirectory_disk [OF r6] replacePath_frame [OF r7 assms(4,3)]
    by auto
qed

lemma publish_done:
  assumes "publish staging final backup w = (Inr u, w')" "siblings staging final backup" "lookup (disk w) staging = Some Dir"
  shows "lookup (disk w') (final @ r) = lookup (disk w) (staging @ r)"
proof -
  note apart = siblings_apart [OF assms(2)]
  obtain o1 w1 where r1: "rmtree backup w = (o1, w1)" by fastforce
  obtain o2 w2 where r2: "openDirectory (parentPath final) w1 = (o2, w2)" by fastforce
  obtain o3 w3 where r3: "(if pathExists (disk w2) final then replacePath final backup w2 else (True, w2)) = (o3, w3)" by fastforce
  obtain o4 w4 where r4: "replacePath staging final w3 = (o4, w4)" by fastforce
  obtain o5 w5 where r5: "rmtree backup w4 = (o5, w5)" by fastforce
  obtain o6 w6 where r6: "openDirectory (parentPath final) w5 = (o6, w6)" by fastforce
  have ok: "o4" "w' = w6"
    using assms(1) by (auto simp: publish_def r1 r2 r3 r4 r5 r6 Let_def split: if_splits)
  have staged: "lookup (disk w3) (staging @ t) = lookup (disk w) (staging @ t)" for t
  proof -
    have "lookup (disk w3) (staging @ t) = lookup (disk w2) (staging @ t)"
      using r3 replacePath_frame [of final backup w2 o3 w3 "staging @ t"] apart by (auto split: if_splits)
    then show ?thesis
      using rmtree_lookup [OF r1, of "staging @ t"] openDirectory_disk [OF r2] apart by simp
  qed
  from staged [of "[]"] assms(3) have "lookup (disk w3) staging = Some Dir" by simp
  from replacePath_tree(1) [OF r4 [unfolded eqTrueI [OF ok(1)]] this] staged
  have "lookup (disk w4) (final @ r) = lookup (disk w) (staging @ r)" by simp
  then show ?thesis
    using rmtree_lookup [OF r5, of "final @ r"] openDirectory_disk [OF r6] apart ok(2) by simp
qed


text \<open>What \<open>END\<close> checks before anything is published.\<close>

definition complete_transfer :: "Host \<Rightarrow> TransferState \<Rightarrow> disk \<Rightarrow> bool" where
  "complete_transfer host st d \<longleftrightarrow> length (ts_files st) = expected_files st \<and>
     sum_list (map (received_bytes \<circ> snd) (ts_files st)) = ts_expected_bytes st \<and>
     (\<forall>(relative, f)\<in>set (ts_files st). received_bytes f = expected_bytes f \<and>
        (\<exists>c. readFile d (fileAt (staging_dir st) relative) = Some c \<and> length c = expected_bytes f)) \<and>
     verify_checksums host st d = Inr None \<and> isDirectory d (staging_dir st)"

lemma finish_cases:
  assumes "finish host R st w = (r, R', w')"
  obtains (refused) "R' = R" "disk w' = disk w" "\<And>reply. r = Inr reply \<Longrightarrow> \<not> fst reply"
  | (broken) w2 e where "disk w2 = disk w" "complete_transfer host st (disk w)" "R' = R" "r = Inl e"
      "publish (staging_dir st) (final_dir st) (backupOf (inbox R) (ts_event st)) w2 = (Inl e, w')"
  | (published) w2 where "disk w2 = disk w" "complete_transfer host st (disk w)"
      "R' = R\<lparr>transfers := AList.delete (ts_event st, ts_transfer_id st) (transfers R)\<rparr>"
      "r = Inr (True, TransferComplete, ts_expected_bytes st)"
      "publish (staging_dir st) (final_dir st) (backupOf (inbox R) (ts_event st)) w2 = (Inr (), w')"
proof -
  let ?received = "sum_list (map (received_bytes \<circ> snd) (ts_files st))"
  obtain checked w1 where ck: "checkFiles (staging_dir st) (ts_files st) w = (checked, w1)" by fastforce
  obtain synced w2 where sy: "openDirectory (staging_dir st) w1 = (synced, w2)" by fastforce
  obtain out w3 where pub: "publish (staging_dir st) (final_dir st) (backupOf (inbox R) (ts_event st)) w2 = (out, w3)" by fastforce
  have d1: "disk w1 = disk w" and d2: "disk w2 = disk w" using checkFiles_disk [OF ck] openDirectory_disk [OF sy] by simp_all
  let ?pass = "length (ts_files st) = expected_files st \<and> ?received = ts_expected_bytes st \<and> checked = Inr None \<and>
    verify_checksums host st (disk w) = Inr None \<and> synced"
  show ?thesis
  proof (cases ?pass)
    case False
    have "R' = R \<and> (w' = w \<or> w' = w1 \<or> w' = w2) \<and> (\<forall>reply. r = Inr reply \<longrightarrow> \<not> fst reply)"
      using assms False unfolding finish_def ck sy d1 Let_def prod.case
      by (auto split: if_splits sum.splits option.splits)
    then show ?thesis using d1 d2 by (intro refused) auto
  next
    case True
    have "isDirectory (disk w1) (staging_dir st)"
      using sy True unfolding openDirectory_def by (auto elim!: perform_cases split: if_splits)
    moreover have "\<forall>(relative, f)\<in>set (ts_files st). received_bytes f = expected_bytes f \<and>
        (\<exists>c. readFile (disk w) (fileAt (staging_dir st) relative) = Some c \<and> length c = expected_bytes f)"
      using checkFiles_complete [of "staging_dir st" "ts_files st" w w1] ck True by auto
    ultimately have complete: "complete_transfer host st (disk w)" using True d1 by (simp add: complete_transfer_def)
    have run: "(r, R', w') = (case out of Inl e \<Rightarrow> (Inl e, R, w3) | Inr u \<Rightarrow> (Inr (True, TransferComplete, ?received),
        R\<lparr>transfers := AList.delete (ts_event st, ts_transfer_id st) (transfers R)\<rparr>, w3))"
      using assms True pub by (cases out) (auto simp: finish_def ck sy d1 backupOf_def)
    show ?thesis
    proof (cases out)
      case (Inl e)
      with run pub complete d2 show ?thesis by (intro broken) simp_all
    next
      case (Inr u)
      with run pub complete d2 True show ?thesis by (intro published) simp_all
    qed
  qed
qed


section \<open>One request\<close>

lemma siblings_dirs:
  assumes "entry_ok dir (key, st)"
  shows "siblings (staging_dir st) (final_dir st) (backupOf dir (ts_event st))"
proof -
  have "validName (fst key)" "staging_dir st = dir @ [stagingName (fst key) (snd key)]" "final_dir st = dir @ [fst key]"
    "backupOf dir (ts_event st) = dir @ [backupName (ts_event st)]"
    using assms by (auto simp: entry_ok_def stagingOf_def backupOf_def)
  with published_apart [of "fst key"] show ?thesis unfolding siblings_def by blast
qed

text \<open>Every request ends in one of five ways.\<close>

lemma dispatch_cases:
  assumes "dispatch host t t' request R0 w0 = (r, R', w')"
  obtains (refused) R w where "prune_idle_transfers t R0 w0 = (R, w)" "R' = R" "w' = w" "\<And>reply. r = Inr reply \<Longrightarrow> \<not> fst reply"
  | (begun) R w where "prune_idle_transfers t R0 w0 = (R, w)" "up_opcode request = BEGIN"
      "validName (up_event_name request)" "validName (up_transfer_id request)"
      "beginTransfer t' R (up_event_name request) (up_transfer_id request) (up_file_count request) (up_total_bytes request) w = (r, R', w')"
  | (chunk) R w st st' where "prune_idle_transfers t R0 w0 = (R, w)" "up_opcode request = FILE_CHUNK"
      "map_of (transfers R) (up_event_name request, up_transfer_id request) = Some st"
      "store_chunk host (st\<lparr>last_activity := t'\<rparr>) request w = (r, st', w')"
      "R' = R\<lparr>transfers := AList.update (up_event_name request, up_transfer_id request) st' (transfers R)\<rparr>"
  | (ended) R w st where "prune_idle_transfers t R0 w0 = (R, w)" "up_opcode request = END"
      "map_of (transfers R) (up_event_name request, up_transfer_id request) = Some st"
      "finish host (R\<lparr>transfers := AList.update (up_event_name request, up_transfer_id request) (st\<lparr>last_activity := t'\<rparr>) (transfers R)\<rparr>)
         (st\<lparr>last_activity := t'\<rparr>) w = (r, R', w')"
proof -
  let ?key = "(up_event_name request, up_transfer_id request)"
  obtain R w where p: "prune_idle_transfers t R0 w0 = (R, w)" by fastforce
  note run = assms [unfolded dispatch_def p Let_def prod.case]
  show ?thesis
  proof (cases "validName (up_event_name request) \<and> validName (up_transfer_id request)")
    case False
    then have "validate_event_name (up_event_name request) = None \<or> validate_event_name (up_transfer_id request) = None"
      by (metis not_None_eq validate_name)
    with run have "r = Inr (False, UnsafeName, 0) \<and> R' = R \<and> w' = w" by (auto split: option.splits)
    with p show ?thesis by (intro refused) auto
  next
    case True
    note run = run [unfolded conjunct1 [OF True] conjunct2 [OF True] prod.case option.case]
    show ?thesis
    proof (cases "up_opcode request = BEGIN")
      case b: True
      with run p True show ?thesis by (intro begun) simp_all
    next
      case b: False
      show ?thesis
      proof (cases "map_of (transfers R) ?key")
        case None
        with run b p show ?thesis by (intro refused) auto
      next
        case (Some st)
        show ?thesis
        proof (cases "up_opcode request = FILE_CHUNK")
          case c: True
          obtain r1 st' w1 where s: "store_chunk host (st\<lparr>last_activity := t'\<rparr>) request w = (r1, st', w1)" using prod_cases3 by blast
          with run b Some c p show ?thesis by (intro chunk [of R w st st']) auto
        next
          case c: False
          with b have "up_opcode request = END" by (cases "up_opcode request") simp_all
          with run b Some c p show ?thesis by (intro ended) simp_all
        qed
      qed
    qed
  qed
qed


lemma store_chunk_same:
  assumes "store_chunk host st request w = (r, st', w')"
  shows "same_transfer st st'"
  using assms by (cases rule: store_chunk_cases) (simp_all add: same_transfer_def)

lemma receiver_ok_started:
  assumes "receiver_ok R" "entry_ok (inbox R) ((event, transferId), st)"
    and "map_of (transfers R) (event, transferId) \<noteq> None \<or> length (transfers R) < MAX_ACTIVE_TRANSFERS"
    and "\<not> list_ex (\<lambda>(key, st). ts_event st = event \<and> ts_transfer_id st \<noteq> transferId) (transfers R)"
  shows "receiver_ok (R\<lparr>transfers := AList.update (event, transferId) st (transfers R)\<rparr>)"
proof (cases "map_of (transfers R) (event, transferId)")
  case None
  have "fst (fst e) \<noteq> event" if "e \<in> set (transfers R)" for e
  proof
    assume eq: "fst (fst e) = event"
    have "entry_ok (inbox R) e" using assms(1) that by (simp add: receiver_ok_def)
    then have "fst e = (ts_event (snd e), ts_transfer_id (snd e))" by (auto simp: entry_ok_def split: prod.splits)
    moreover have "ts_event (snd e) = event \<longrightarrow> ts_transfer_id (snd e) = transferId"
      using assms(4) that by (auto simp: list_ex_iff)
    ultimately have "fst e = (event, transferId)" using eq by (cases e) auto
    with None imageI [OF that, of fst] show False by (simp add: map_of_eq_None_iff)
  qed
  with None assms(1-3) show ?thesis by (auto simp: update_absent receiver_ok_def map_of_eq_None_iff)
next
  case (Some st0)
  have keys: "map fst (AList.update (event, transferId) st (transfers R)) = map fst (transfers R)"
    "length (AList.update (event, transferId) st (transfers R)) = length (transfers R)"
    "set (AList.update (event, transferId) st (transfers R)) \<subseteq> insert ((event, transferId), st) (set (transfers R))"
    using update_present [of "transfers R" "(event, transferId)" st] Some by auto
  then have "map (fst \<circ> fst) (AList.update (event, transferId) st (transfers R)) = map (fst \<circ> fst) (transfers R)" by (metis map_map)
  with assms(1,2) keys show ?thesis by (auto simp: receiver_ok_def)
qed

lemma dispatch_ok:
  assumes "dispatch host t t' request R0 w0 = (r, R', w')" "receiver_ok R0"
  shows "receiver_ok R' \<and> inbox R' = inbox R0"
  using assms(1)
proof (cases rule: dispatch_cases)
  case (refused R w)
  with prune_idle(1,2) [OF refused(1) assms(2)] show ?thesis by simp
next
  case (begun R w)
  note ok = prune_idle(1,2) [OF begun(1) assms(2)]
  from begun(5) show ?thesis
  proof (cases rule: beginTransfer_cases)
    case (started b w1 st)
    have "entry_ok (inbox R) ((up_event_name request, up_transfer_id request), st)"
      using begun(3,4) by (simp add: started(5) entry_ok_def)
    from receiver_ok_started [OF ok(1) this started(6,7)] ok(2) started(4) show ?thesis by simp
  qed (use ok in simp_all)
next
  case (chunk R w st st')
  note ok = prune_idle(1,2) [OF chunk(1) assms(2)]
  have "same_transfer st st'" using store_chunk_same [OF chunk(4)] by (simp add: same_transfer_def)
  from receiver_ok_update [OF ok(1) chunk(3) this] ok(2) chunk(5) show ?thesis by simp
next
  case (ended R w st)
  note ok = prune_idle(1,2) [OF ended(1) assms(2)]
  let ?R1 = "R\<lparr>transfers := AList.update (up_event_name request, up_transfer_id request) (st\<lparr>last_activity := t'\<rparr>) (transfers R)\<rparr>"
  have "same_transfer st (st\<lparr>last_activity := t'\<rparr>)" by (simp add: same_transfer_def)
  from receiver_ok_update [OF ok(1) ended(3) this] have R1: "receiver_ok ?R1" .
  from ended(4) show ?thesis
  proof (cases rule: finish_cases)
    case published
    with receiver_ok_delete [OF R1] ok(2) show ?thesis by simp
  qed (use R1 ok(2) in simp_all)
qed

text \<open>
  The paths a request can change: its own and idle staging directories, and for \<open>END\<close> the published copy
  of its event and its backup.  Missing directories above are made.
\<close>

definition untouched :: "int \<Rightarrow> Receiver \<Rightarrow> UploadRequest \<Rightarrow> path \<Rightarrow> bool" where
  "untouched now R request q \<longleftrightarrow>
     (\<forall>e\<in>set (transfers R). idle now e \<longrightarrow> \<not> prefix (stagingOf (inbox R) (fst e)) q) \<and>
     \<not> prefix (stagingOf (inbox R) (up_event_name request, up_transfer_id request)) q \<and>
     (up_opcode request = END \<longrightarrow> validName (up_event_name request) \<longrightarrow> \<not> prefix (inbox R @ [up_event_name request]) q \<and> \<not> prefix (backupOf (inbox R) (up_event_name request)) q)"

lemma dispatch_frame:
  assumes "dispatch host t t' request R0 w0 = (r, R', w')" "receiver_ok R0" "untouched t R0 request q"
    and "lookup (disk w0) q \<noteq> None \<or> \<not> prefix q (stagingOf (inbox R0) (up_event_name request, up_transfer_id request))"
  shows "lookup (disk w') q = lookup (disk w0) q"
proof -
  let ?key = "(up_event_name request, up_transfer_id request)"
  have mine: "\<not> prefix (stagingOf (inbox R0) ?key) q" using assms(3) by (simp add: untouched_def)
  have kept: "lookup (disk w) q = lookup (disk w0) q" if "prune_idle_transfers t R0 w0 = (R, w)" for R w
    by (rule prune_idle(4) [OF that assms(2)]) (use assms(3) in \<open>simp add: untouched_def\<close>)
  show ?thesis
    using assms(1)
  proof (cases rule: dispatch_cases)
    case (refused R w)
    with kept show ?thesis by simp
  next
    case (begun R w)
    note inb = prune_idle(2) [OF begun(1) assms(2)]
    have gone: "lookup (disk w1) q = lookup (disk w0) q" if "rmtree (stagingOf (inbox R) ?key) w = (ok, w1)" for ok w1
      using rmtree_lookup [OF that, of q] mine kept [OF begun(1)] inb by simp
    from begun(5) show ?thesis
    proof (cases rule: beginTransfer_cases)
      case refused
      with kept [OF begun(1)] show ?thesis by simp
    next
      case (failed b w1)
      from makeDirectory_lookup [OF failed(4), of q] gone [OF failed(3)] assms(4) inb show ?thesis by auto
    next
      case (started b w1 st)
      from makeDirectory_lookup [OF started(3), of q] gone [OF started(2)] assms(4) inb show ?thesis by auto
    qed
  next
    case (chunk R w st st')
    note ok = prune_idle(1,2) [OF chunk(1) assms(2)]
    have "staging_dir st = stagingOf (inbox R0) ?key"
      using receiver_ok_entry [OF ok(1) chunk(3)] ok(2) by (simp add: entry_ok_def)
    with store_chunk_lookup [OF chunk(4), of q] mine assms(4) kept [OF chunk(1)] show ?thesis by auto
  next
    case (ended R w st)
    note ok = prune_idle(1,2) [OF ended(1) assms(2)]
    have dirs: "staging_dir st = stagingOf (inbox R0) ?key" "final_dir st = inbox R0 @ [up_event_name request]" "ts_event st = up_event_name request"
      "validName (up_event_name request)"
      using receiver_ok_entry [OF ok(1) ended(3)] ok(2) by (auto simp: entry_ok_def)
    have free: "\<not> prefix (inbox R0 @ [up_event_name request]) q" "\<not> prefix (backupOf (inbox R0) (up_event_name request)) q"
      using assms(3) ended(2) dirs(4) by (simp_all add: untouched_def)
    from ended(4) show ?thesis
    proof (cases rule: finish_cases)
      case refused
      with kept [OF ended(1)] show ?thesis by simp
    next
      case (broken w2 e)
      from publish_frame [OF broken(5), of q] broken(1) kept [OF ended(1)] free mine dirs ok(2) show ?thesis by simp
    next
      case (published w2)
      from publish_frame [OF published(5), of q] published(1) kept [OF ended(1)] free mine dirs ok(2) show ?thesis by simp
    qed
  qed
qed


lemma handle_dispatch:
  assumes "handle_request host t t' request R w = (reply, R', w')"
  obtains r where "dispatch host t t' request R w = (r, R', w')" "r = Inr reply \<or> (\<exists>e. r = Inl e \<and> reply = (False, ReceiverError e, 0))"
  using assms unfolding handle_request_def by (auto split: prod.splits sum.splits)

lemma handle_ok:
  "handle_request host t t' request R w = (reply, R', w') \<Longrightarrow> receiver_ok R \<Longrightarrow> receiver_ok R' \<and> inbox R' = inbox R"
  by (erule handle_dispatch) (rule dispatch_ok)

lemma map_of_prune:
  assumes "receiver_ok R" "map_of (filter (\<lambda>e. \<not> idle t e) (transfers R)) key = Some st"
  shows "map_of (transfers R) key = Some st \<and> \<not> idle t (key, st)"
proof -
  have "(key, st) \<in> set (filter (\<lambda>e. \<not> idle t e) (transfers R))" using assms(2) by (rule map_of_SomeD)
  with assms(1) show ?thesis by (auto simp: receiver_ok_def)
qed

section \<open>Properties\<close>

text \<open>
  The receiver stays in its inbox: whatever a request says and whatever fails, handling it changes
  only hidden entries of the inbox (staging and backup directories) and, if it ends a transfer,
  the published directory of its own event; outside the inbox it can at most make
  the missing directories above the inbox.
\<close>

theorem receiver_contained:
  assumes "handle_request host t t' request R w = (reply, R', w')" "receiver_ok R"
    and "lookup (disk w') q \<noteq> lookup (disk w) q"
  shows "(\<exists>x r. q = inbox R @ x # r \<and>
      (hd x = CHR ''.'' \<or> x = up_event_name request \<and> up_opcode request = END)) \<or>
    (prefix q (inbox R) \<and> lookup (disk w) q = None)"
proof -
  from assms(1) obtain r where run: "dispatch host t t' request R w = (r, R', w')" by (rule handle_dispatch)
  let ?staging = "stagingOf (inbox R) (up_event_name request, up_transfer_id request)"
  have hidden: "\<exists>x s. q = inbox R @ x # s \<and> hd x = CHR ''.''" if "prefix (stagingOf (inbox R) key) q \<or> prefix (backupOf (inbox R) e) q" for key e
    using that by (auto simp: stagingOf_def backupOf_def stagingName_def backupName_def prefix_def)
  consider "\<not> untouched t R request q" | "lookup (disk w) q = None" "prefix q ?staging"
    using dispatch_frame [OF run assms(2)] assms(3) by blast
  then show ?thesis
  proof cases
    case 1
    then consider key where "prefix (stagingOf (inbox R) key) q" | "up_opcode request = END" "prefix (inbox R @ [up_event_name request]) q"
      | "prefix (backupOf (inbox R) (up_event_name request)) q"
      unfolding untouched_def by blast
    then show ?thesis
    proof cases
      case 1
      with hidden show ?thesis by blast
    next
      case 2
      then obtain s where "q = inbox R @ up_event_name request # s" by (auto simp: prefix_def)
      with 2 show ?thesis by blast
    next
      case 3
      with hidden show ?thesis by blast
    qed
  next
    case 2
    then have "q = ?staging \<or> prefix q (inbox R)" by (auto simp: stagingOf_def)
    with hidden [of "(up_event_name request, up_transfer_id request)"] 2(1) show ?thesis by blast
  qed
qed

section \<open>A sample request\<close>

definition sampleHost :: Host where
  "sampleHost = \<lparr>casefold = id, hexdigest = (\<lambda>s. replicate 64 (CHR ''0'')), decode_utf8 = Some\<rparr>"

text \<open>The end of a complete transfer of an event that is already published; the process dies between the two renames.\<close>

definition sampleRow :: string where
  "sampleRow = replicate 64 (CHR ''0'') @ ''  d''"

definition sampleReceiver :: Receiver where
  "sampleReceiver = \<lparr>inbox = [''i''], transfers = [((''e'', ''t''),
     \<lparr>ts_event = ''e'', ts_transfer_id = ''t'', staging_dir = [''i'', ''.e.t.part''], final_dir = [''i'', ''e''],
      expected_files = 2, ts_expected_bytes = 70,
      ts_files = [(''d'', \<lparr>expected_bytes = 3, received_bytes = 3, hasher = ''new''\<rparr>),
        (''manifest.sha256'', \<lparr>expected_bytes = 67, received_bytes = 67, hasher = sampleRow\<rparr>)],
      canonical_paths = [], last_activity = 0\<rparr>)]\<rparr>"

definition crashingStore :: World where
  "crashingStore = \<lparr>disk = [([''i''], Dir), ([''i'', ''e''], Dir), ([''i'', ''e'', ''d''], File ''old''),
     ([''i'', ''.e.t.part''], Dir), ([''i'', ''.e.t.part'', ''d''], File ''new''),
     ([''i'', ''.e.t.part'', ''manifest.sha256''], File sampleRow)],
     script = [Done, Done, Done, Done, Done, Done, Crashed]\<rparr>"

lemma sample_crash:
  "case handle_request sampleHost 0 0 (emptyRequest ''e'' ''t'' END) sampleReceiver crashingStore of
     (reply, R', w') \<Rightarrow> reply = (False, ReceiverError ''replace'', 0) \<and> lookup (disk w') [''i'', ''e''] = None"
  by code_simp

lemma sample_receiver_ok: "receiver_ok sampleReceiver"
  by (simp add: receiver_ok_def sampleReceiver_def entry_ok_def stagingOf_def stagingName_def MAX_ACTIVE_TRANSFERS_def validate_event_name_def MAX_EVENT_NAME_def text_eval)

theorem receiver_contained_witness:
  "\<exists>reply R' w'. handle_request sampleHost 0 0 (emptyRequest ''e'' ''t'' END) sampleReceiver crashingStore = (reply, R', w') \<and>
     lookup (disk w') [''i'', ''e''] \<noteq> lookup (disk crashingStore) [''i'', ''e''] \<and>
     ((\<exists>x r. [''i'', ''e''] = inbox sampleReceiver @ x # r \<and> (hd x = CHR ''.'' \<or> x = ''e'')) \<or>
      prefix [''i'', ''e''] (inbox sampleReceiver))"
proof -
  obtain reply R' w' where run: "handle_request sampleHost 0 0 (emptyRequest ''e'' ''t'' END) sampleReceiver crashingStore = (reply, R', w')"
    by (metis prod.exhaust)
  have moved: "lookup (disk w') [''i'', ''e''] \<noteq> lookup (disk crashingStore) [''i'', ''e'']"
    using sample_crash unfolding run by (simp add: crashingStore_def lookup_def)
  from receiver_contained [OF run sample_receiver_ok moved] have
    "(\<exists>x r. [''i'', ''e''] = inbox sampleReceiver @ x # r \<and> (hd x = CHR ''.'' \<or> x = ''e'')) \<or>
      prefix [''i'', ''e''] (inbox sampleReceiver)" by (auto simp: emptyRequest_def)
  with run moved show ?thesis by blast
qed

end
