(* ===== verification/Upload_Delivery.thy ===== *)
theory Upload_Delivery
  imports Upload_Receiver "HOL-Library.Code_Target_Nat" "HOL-Library.Code_Target_Int"
begin

text \<open>
  Both ends of an upload together: the upload worker (theory Upload_Worker) with the receiver
  (theory Upload_Receiver) as its service, over a network that loses requests and replies,
  among requests of other senders.
\<close>

section \<open>The service as the worker sees it\<close>

text \<open>
  What happens to the \<open>n\<close>-th call: the requests of others that are handled before it, whether it
  reaches the receiver, the clock readings there and what the waiting loop sees.
\<close>

record Link =
  arrivals :: "(int \<times> int \<times> UploadRequest) list"
  reachable :: bool
  delivered :: bool
  pruneClock :: int
  requestClock :: int
  link_sentAt :: int
  link_ticks :: "CallTick list"

definition serveOther :: "Host \<Rightarrow> int \<times> int \<times> UploadRequest \<Rightarrow> Receiver \<times> World \<Rightarrow> Receiver \<times> World" where
  "serveOther host = (\<lambda>(t, t', request) (R, w). snd (handle_request host t t' request R w))"

definition receiverClient :: "Host \<Rightarrow> (Verdict \<Rightarrow> string) \<Rightarrow> (nat \<Rightarrow> Link) \<Rightarrow> (nat \<times> Receiver \<times> World) client" where
  "receiverClient host wording links request = (\<lambda>(n, R, w).
     let l = links n; (R1, w1) = fold (serveOther host) (arrivals l) (R, w);
         seen = (\<lambda>reply. \<lparr>ex_serviceReady = reachable l, ex_sentAt = link_sentAt l, ex_ticks = link_ticks l, ex_reply = reply\<rparr>)
     in if reachable l \<and> delivered l
        then (case handle_request host (pruneClock l) (requestClock l) request R1 w1 of
            ((ok, verdict, received), R2, w2) \<Rightarrow>
              (seen (Inr \<lparr>ur_success = ok, ur_message = wording verdict, ur_received_bytes = received\<rparr>), Suc n, R2, w2))
        else (seen (Inl ''no reply''), Suc n, R1, w1))"

section \<open>Conversations as request sequences\<close>

fun replay :: "UploadConfig \<Rightarrow> 'r client \<Rightarrow> call_log \<Rightarrow> 'r \<Rightarrow> 'r option" where
  "replay cfg client [] r = Some r"
| "replay cfg client ((q, a) # l) r =
     (case client q r of (ex, r') \<Rightarrow> if callResult cfg ex = a then replay cfg client l r' else None)"

lemma replay_append: "replay cfg client (l @ l') r = Option.bind (replay cfg client l r) (replay cfg client l')"
  by (induction l arbitrary: r) (auto split: prod.split)

text \<open>An invariant of every call is one of a conversation.\<close>

definition client_keeps :: "('r \<Rightarrow> bool) \<Rightarrow> 'r client \<Rightarrow> bool" where
  "client_keeps I client \<longleftrightarrow> (\<forall>q r ex r'. client q r = (ex, r') \<longrightarrow> I r \<longrightarrow> I r')"

lemma call_keeps: "client_keeps I client \<Longrightarrow> call cfg client q r = (a, r') \<Longrightarrow> I r \<Longrightarrow> I r'"
  by (auto simp: client_keeps_def call_def split: prod.splits)

lemma callOk_keeps: "client_keeps I client \<Longrightarrow> callOk cfg client q r = (ok, r') \<Longrightarrow> I r \<Longrightarrow> I r'"
  by (auto simp: callOk_def dest: call_keeps split: prod.splits)

lemma sendChunks_keeps:
  "client_keeps I client \<Longrightarrow> sendChunks cfg client rq fileSize offset bytes r = (a, r') \<Longrightarrow> I r \<Longrightarrow> I r'"
proof (induction cfg client rq fileSize offset bytes r rule: sendChunks.induct)
  case (1 cfg client rq fileSize offset bytes r)
  show ?case
  proof (cases "offset < fileSize \<and> take (chunkBytes cfg) bytes \<noteq> []")
    case False
    with "1.prems" show ?thesis by (auto simp: sendChunks.simps [of cfg client rq] Let_def split: if_splits)
  next
    case True
    obtain ok r1 where c: "callOk cfg client (rq offset (take (chunkBytes cfg) bytes)) r = (ok, r1)"
      by (cases "callOk cfg client (rq offset (take (chunkBytes cfg) bytes)) r") simp
    have "I r1" by (rule callOk_keeps [OF "1.prems"(1) c "1.prems"(3)])
    show ?thesis
    proof (cases ok)
      case False
      with True c "1.prems"(2) \<open>I r1\<close> show ?thesis by (simp add: sendChunks.simps [of cfg client rq fileSize offset] Let_def)
    next
      case ok: True
      have "sendChunks cfg client rq fileSize (offset + length (take (chunkBytes cfg) bytes)) (drop (chunkBytes cfg) bytes) r1 = (a, r')"
        using "1.prems"(2) True c ok by (simp add: sendChunks.simps [of cfg client rq fileSize offset] Let_def)
      with "1.IH" [OF conjunct1 [OF True] refl conjunct2 [OF True] c [symmetric] refl] ok "1.prems"(1) \<open>I r1\<close> show ?thesis by blast
    qed
  qed
qed

lemma sendFile_keeps:
  assumes "client_keeps I client" "sendFile cfg client event transferId v f r = (a, r')" "I r"
  shows "I r'"
  using assms(2,3) callOk_keeps [OF assms(1)] sendChunks_keeps [OF assms(1)]
  by (auto simp: sendFile_def Let_def split: option.splits prod.splits if_splits)

lemma sendFiles_keeps:
  assumes "client_keeps I client" "sendFiles cfg client event transferId v fs sent r = (a, r')" "I r"
  shows "I r'"
  using assms(2,3) sendFile_keeps [OF assms(1)]
  by (induction fs arbitrary: sent r) (auto split: option.splits prod.splits)

lemma conversation_keeps:
  assumes "client_keeps I client" "conversation cfg client event transferId v infos b r = (a, r')" "I r"
  shows "I r'"
  using assms(2,3) callOk_keeps [OF assms(1)] call_keeps [OF assms(1)] sendFiles_keeps [OF assms(1)]
  by (auto simp: conversation_def Let_def split: option.splits prod.splits if_splits)

lemma upload_keeps:
  assumes "client_keeps I client" "uploadDirectory u client view now dir w r = (ok, u', w', r')" "I r"
  shows "I r'"
  using assms(2,3) conversation_keeps [OF assms(1)]
  by (auto simp: uploadDirectory_def transferDirectory_def Let_def split: option.splits prod.splits if_splits bool.splits)

lemma upload_replay:
  assumes "uploadDirectory u (logged (uploadConfig u) client) view now dir w ([], r) = (ok, u', w', (log, r'))"
  shows "replay (uploadConfig u) client log r = Some r'"
proof -
  have "client_keeps (\<lambda>s. replay (uploadConfig u) client (fst s) r = Some (snd s)) (logged (uploadConfig u) client)"
    by (auto simp: client_keeps_def logged_def replay_append split: prod.splits)
  from upload_keeps [OF this assms] show ?thesis by simp
qed


section \<open>One transfer among others\<close>

definition apart :: "string \<Rightarrow> string \<Rightarrow> bool" where
  "apart e e' \<longleftrightarrow> \<not> prefix e e' \<and> \<not> prefix e' e"

lemma apart_staging:
  assumes "apart e e'"
  shows "stagingName e t \<noteq> stagingName e' t'"
proof
  assume "stagingName e t = stagingName e' t'"
  then have "e @ ''.'' @ t = e' @ ''.'' @ t'" by (simp add: stagingName_def)
  then have "prefix e (e' @ ''.'' @ t')" "prefix e' (e' @ ''.'' @ t')" by (metis prefixI)+
  with assms show False using prefix_same_cases unfolding apart_def by blast
qed

lemma apart_stagingOf: "apart (fst k) (fst k') \<Longrightarrow> \<not> prefix (stagingOf dir k) (stagingOf dir k' @ r)"
  using apart_staging by (simp add: stagingOf_def)

text \<open>
  The transfer with a key has the files it was sent so far, if the receiver still has it; other
  transfers are of the same event (and then refused) or of events whose names are apart.
\<close>

definition lane :: "string \<times> string \<Rightarrow> (string \<times> FileState) list \<Rightarrow> nat \<Rightarrow> nat \<Rightarrow> Receiver \<Rightarrow> World \<Rightarrow> bool" where
  "lane key fs n b R w \<longleftrightarrow> receiver_ok R \<and>
     (\<forall>k\<in>fst ` set (transfers R). fst k = fst key \<or> apart (fst key) (fst k)) \<and>
     (\<forall>st. map_of (transfers R) key = Some st \<longrightarrow>
        staged st (disk w) \<and> ts_files st = fs \<and> expected_files st = n \<and> ts_expected_bytes st = b)"

lemma same_event:
  assumes "receiver_ok R" "map_of (transfers R) key = Some st" "e \<in> set (transfers R)" "fst (fst e) = fst key"
  shows "e = (key, st)"
proof -
  have "(key, st) \<in> set (transfers R)" using assms(2) by (rule map_of_SomeD)
  with assms(1,3,4) show ?thesis by (auto simp: receiver_ok_def distinct_map inj_on_def)
qed

text \<open>A request changes the transfers of its own key only, but for those it prunes.\<close>

lemma dispatch_others:
  assumes "dispatch host t t' request R0 w0 = (r, R', w')" "receiver_ok R0"
  shows "fst ` set (transfers R') \<subseteq> insert (up_event_name request, up_transfer_id request) (fst ` set (transfers R0)) \<and>
    (k \<noteq> (up_event_name request, up_transfer_id request) \<longrightarrow> map_of (transfers R') k = Some st \<longrightarrow>
       map_of (transfers R0) k = Some st \<and> \<not> idle t (k, st))"
proof -
  let ?key = "(up_event_name request, up_transfer_id request)"
  have pruned: "fst ` set (transfers R) \<subseteq> fst ` set (transfers R0) \<and>
      (map_of (transfers R) k = Some st \<longrightarrow> map_of (transfers R0) k = Some st \<and> \<not> idle t (k, st))"
    if "prune_idle_transfers t R0 w0 = (R, w)" for R w
    using map_of_prune [OF assms(2), of t k st] unfolding prune_idle(3) [OF that assms(2)] by auto
  have upd: "fst ` set (AList.update ?key x al) = insert ?key (fst ` set al)" "map_of (AList.update ?key x al) = (map_of al)(?key \<mapsto> x)"
    for x and al :: "((string \<times> string) \<times> TransferState) list"
    by (simp_all add: dom_update update_conv')
  show ?thesis
    using assms(1)
  proof (cases rule: dispatch_cases)
    case (refused R w)
    with pruned show ?thesis by auto
  next
    case (begun R w)
    from begun(5) pruned [OF begun(1)] show ?thesis
      by (cases rule: beginTransfer_cases) (auto simp: upd)
  next
    case (chunk R w st0 st')
    with pruned [OF chunk(1)] show ?thesis by (auto simp: upd)
  next
    case (ended R w st0)
    have del: "fst ` set (AList.delete x al) \<subseteq> fst ` set al" "map_of (AList.delete x al) k = Some st \<Longrightarrow> map_of al k = Some st"
      for x and al :: "((string \<times> string) \<times> TransferState) list"
      by (auto simp: AList.delete_eq) (metis AList.delete_eq delete_conv' fun_upd_apply option.distinct(1))
    let ?al = "AList.update ?key (st0\<lparr>last_activity := t'\<rparr>) (transfers R)"
    have "transfers R' = ?al \<or> (\<exists>x. transfers R' = AList.delete x ?al)"
      using ended(4) by (cases rule: finish_cases) auto
    then have h: "fst ` set (transfers R') \<subseteq> fst ` set ?al \<and> (map_of (transfers R') k = Some st \<longrightarrow> map_of ?al k = Some st)"
    proof (elim disjE exE)
      fix x assume "transfers R' = AList.delete x ?al"
      with del [of x ?al] show ?thesis by simp
    qed simp
    note p = pruned [OF ended(1)]
    have "fst ` set (transfers R') \<subseteq> insert ?key (fst ` set (transfers R0))"
      using subset_trans [OF conjunct1 [OF h, unfolded upd(1)] insert_mono [OF conjunct1 [OF p]]] .
    moreover have "map_of (transfers R0) k = Some st \<and> \<not> idle t (k, st)" if "k \<noteq> ?key" "map_of (transfers R') k = Some st"
      using conjunct2 [OF h] conjunct2 [OF p] that by (simp add: upd(2))
    ultimately show ?thesis by blast
  qed
qed

lemma lane_other:
  assumes "lane key fs n b R w" "handle_request host t t' request R w = (reply, R', w')"
    and "apart (fst key) (up_event_name request)"
  shows "lane key fs n b R' w'"
proof -
  let ?k = "(up_event_name request, up_transfer_id request)"
  from assms(2) obtain r where run: "dispatch host t t' request R w = (r, R', w')" by (rule handle_dispatch)
  have ok: "receiver_ok R" using assms(1) by (simp add: lane_def)
  have ok': "receiver_ok R'" "inbox R' = inbox R" using dispatch_ok [OF run ok] by simp_all
  have ne: "key \<noteq> ?k" using assms(3) by (auto simp: apart_def)
  note others = dispatch_others [OF run ok]
  have keys: "fst k = fst key \<or> apart (fst key) (fst k)" if "k \<in> fst ` set (transfers R')" for k
  proof (cases "k = ?k")
    case False
    with that subsetD [OF conjunct1 [OF others] that] have "k \<in> fst ` set (transfers R)" by simp
    with assms(1) show ?thesis unfolding lane_def by blast
  qed (use assms(3) in simp)
  have mine: "staged st (disk w') \<and> ts_files st = fs \<and> expected_files st = n \<and> ts_expected_bytes st = b"
    if "map_of (transfers R') key = Some st" for st
  proof -
    have old: "map_of (transfers R) key = Some st" "\<not> idle t (key, st)" using others that ne by blast+
    have dir: "staging_dir st = stagingOf (inbox R) key" using receiver_ok_entry [OF ok old(1)] by (simp add: entry_ok_def)
    have "lookup (disk w') q = lookup (disk w) q" if q: "strict_prefix (staging_dir st) q" for q
    proof (rule dispatch_frame [OF run ok])
      obtain s where s: "q = stagingOf (inbox R) key @ s" "s \<noteq> []" using q dir by (auto simp: strict_prefix_def prefix_def)
      have "\<not> prefix (stagingOf (inbox R) (fst e)) q" if "e \<in> set (transfers R)" "idle t e" for e
      proof -
        have "fst (fst e) \<noteq> fst key" using same_event [OF ok old(1) that(1)] old(2) that(2) by auto
        then have "apart (fst (fst e)) (fst key)" using assms(1) that(1) by (auto simp: lane_def apart_def)
        then show ?thesis unfolding s(1) by (rule apart_stagingOf)
      qed
      moreover have "\<not> prefix (stagingOf (inbox R) ?k) q"
        unfolding s(1) by (rule apart_stagingOf) (use assms(3) in \<open>simp add: apart_def\<close>)
      moreover have "\<not> prefix (inbox R @ [up_event_name request]) q" if "validName (up_event_name request)"
        using published_apart [OF that] by (auto simp: s stagingOf_def)
      moreover have "stagingName (fst key) (snd key) \<noteq> backupName (up_event_name request)"
      proof -
        have "validName (fst key)" using receiver_ok_entry [OF ok old(1)] by (auto simp: entry_ok_def)
        then show ?thesis by (rule published_apart(5))
      qed
      then have "\<not> prefix (backupOf (inbox R) (up_event_name request)) q" by (auto simp: s stagingOf_def backupOf_def)
      ultimately show "untouched t R request q" by (auto simp: untouched_def)
      have "length (stagingOf (inbox R) ?k) < length q" using s(2) by (cases s) (simp_all add: s(1) stagingOf_def)
      then show "lookup (disk w) q \<noteq> None \<or> \<not> prefix q (stagingOf (inbox R) ?k)" using prefix_length_le by fastforce
    qed
    then have "readFile (disk w') q = readFile (disk w) q" if "strict_prefix (staging_dir st) q" for q
      using that by (simp add: readFile_def)
    with assms(1) old(1) show ?thesis by (auto simp: lane_def intro: staged_same)
  qed
  from ok' keys mine show ?thesis by (auto simp: lane_def)
qed


lemma lane_begin:
  assumes "handle_request host t t' request R w = ((True, verdict, m), R', w')" "receiver_ok R"
    and "\<forall>k\<in>fst ` set (transfers R). fst k = fst key \<or> apart (fst key) (fst k)"
    and "up_opcode request = BEGIN" "key = (up_event_name request, up_transfer_id request)"
  shows "lane key [] (up_file_count request) (up_total_bytes request) R' w' \<and> inbox R' = inbox R"
proof -
  from assms(1) obtain r where run: "dispatch host t t' request R w = (r, R', w')" and r: "r = Inr (True, verdict, m)"
    by (rule handle_dispatch) auto
  have ok': "receiver_ok R'" "inbox R' = inbox R" using dispatch_ok [OF run assms(2)] by simp_all
  from run show ?thesis
  proof (cases rule: dispatch_cases)
    case refused
    with r show ?thesis by simp
  next
    case (begun R1 w1)
    from begun(5) show ?thesis
    proof (cases rule: beginTransfer_cases)
      case refused
      with r show ?thesis by simp
    next
      case failed
      with r show ?thesis by simp
    next
      case (started ok w2 st)
      have "readFile (disk w') q = None" if "strict_prefix (staging_dir st) q" for q
      proof -
        have "prefix (stagingOf (inbox R1) (up_event_name request, up_transfer_id request)) q"
          using that by (simp add: started(5) strict_prefix_def)
        from makeDirectory_new [OF started(3) this] have "readFile (disk w2) q = None" by (simp add: readFile_def)
        then show ?thesis using makeDirectory_reads [OF started(3)] by simp
      qed
      then have "staged st (disk w')" by (auto simp: staged_def started(5))
      moreover have "map_of (transfers R') key = Some st" by (simp add: started(4) assms(5) update_conv')
      moreover have "fst k = fst key \<or> apart (fst key) (fst k)" if "k \<in> fst ` set (transfers R')" for k
        using subsetD [OF conjunct1 [OF dispatch_others [OF run assms(2)]] that] assms(3,5) by auto
      ultimately show ?thesis using ok' by (simp add: lane_def started(5))
    qed
  qed (use assms(4) in simp_all)
qed

text \<open>Pruning that spares the transfer leaves its files alone.\<close>

lemma lane_prune:
  assumes "lane key fs n b R w" "prune_idle_transfers t R w = (R1, w1)" "map_of (transfers R1) key = Some st"
  shows "staged st (disk w1) \<and> ts_files st = fs \<and> expected_files st = n \<and> ts_expected_bytes st = b \<and>
    entry_ok (inbox R) (key, st)"
proof -
  have ok: "receiver_ok R" using assms(1) by (simp add: lane_def)
  have old: "map_of (transfers R) key = Some st" "\<not> idle t (key, st)"
    using map_of_prune [OF ok] assms(3) unfolding prune_idle(3) [OF assms(2) ok] by blast+
  have entry: "entry_ok (inbox R) (key, st)" by (rule receiver_ok_entry [OF ok old(1)])
  then have dir: "staging_dir st = stagingOf (inbox R) key" by (simp add: entry_ok_def)
  have "readFile (disk w1) q = readFile (disk w) q" if q: "strict_prefix (staging_dir st) q" for q
  proof -
    obtain s where s: "q = stagingOf (inbox R) key @ s" using q dir by (auto simp: strict_prefix_def prefix_def)
    have "\<not> prefix (stagingOf (inbox R) (fst e)) q" if "e \<in> set (transfers R)" "idle t e" for e
    proof -
      have "fst (fst e) \<noteq> fst key" using same_event [OF ok old(1) that(1)] old(2) that(2) by auto
      then have "apart (fst (fst e)) (fst key)" using assms(1) that(1) by (auto simp: lane_def apart_def)
      then show ?thesis unfolding s by (rule apart_stagingOf)
    qed
    then have "lookup (disk w1) q = lookup (disk w) q" using prune_idle(4) [OF assms(2) ok] by blast
    then show ?thesis by (simp add: readFile_def)
  qed
  with assms(1) old(1) entry show ?thesis by (auto simp: lane_def intro: staged_same)
qed

lemma safe_relative_plain:
  "safe_relative p = Some parts \<Longrightarrow> CHR 0x5C \<notin> set p \<Longrightarrow> parts = split_fields CHR ''/'' p"
proof -
  assume "safe_relative p = Some parts" "CHR 0x5C \<notin> set p"
  moreover from this have "map (\<lambda>c. if c = CHR 0x5C then CHR ''/'' else c) p = p" by (auto intro!: map_idI)
  ultimately show ?thesis by (auto simp: safe_relative_def Let_def split: if_splits)
qed

lemma lane_chunk:
  assumes "lane key fs n b R w" "handle_request host t t' request R w = ((True, verdict, m), R', w')"
    and "up_opcode request = FILE_CHUNK" "key = (up_event_name request, up_transfer_id request)" "CHR 0x5C \<notin> set (up_file_path request)"
    and "f = (case map_of fs (up_file_path request) of None \<Rightarrow> freshFile (up_total_bytes request) | Some f \<Rightarrow> f)"
    and "up_offset request = received_bytes f"
  shows "lane key (AList.update (up_file_path request)
      (f\<lparr>hasher := hasher f @ up_data request, received_bytes := up_offset request + length (up_data request)\<rparr>) fs) n b R' w' \<and>
    inbox R' = inbox R"
proof -
  have ok: "receiver_ok R" using assms(1) by (simp add: lane_def)
  from assms(2) obtain r where run: "dispatch host t t' request R w = (r, R', w')" and r: "r = Inr (True, verdict, m)"
    by (rule handle_dispatch) auto
  have ok': "receiver_ok R'" "inbox R' = inbox R" using dispatch_ok [OF run ok] by simp_all
  from run show ?thesis
  proof (cases rule: dispatch_cases)
    case refused
    with r show ?thesis by simp
  next
    case (chunk R1 w1 st st')
    let ?st = "st\<lparr>last_activity := t'\<rparr>"
    have "map_of (transfers R1) key = Some st" using chunk(3) assms(4) by simp
    note mine = lane_prune [OF assms(1) chunk(1) this]
    then have staged: "staged ?st (disk w1)" "ts_files ?st = fs" by (auto intro: staged_same)
    note s = chunk(4) [unfolded r]
    have "\<exists>parts. safe_relative (up_file_path request) = Some parts"
      using s by (cases rule: store_chunk_cases) auto
    then obtain parts where parts: "safe_relative (up_file_path request) = Some parts" by blast
    then have path: "joined CHR ''/'' parts = up_file_path request"
      using safe_relative_plain [OF _ assms(5)] by (simp add: joined_split)
    have st': "staged st' (disk w')" "same_transfer ?st st'" using store_chunk_staged [OF s staged(1)] by simp_all
    have "ts_files st' = AList.update (up_file_path request)
        (f\<lparr>hasher := hasher f @ up_data request, received_bytes := up_offset request + length (up_data request)\<rparr>) fs"
      using store_chunk_appends [OF s parts _ assms(7)] assms(6) staged(2) by (simp add: path)
    moreover have "map_of (transfers R') key = Some st'" by (simp add: chunk(5) assms(4) update_conv')
    moreover have "fst k = fst key \<or> apart (fst key) (fst k)" if "k \<in> fst ` set (transfers R')" for k
      using subsetD [OF conjunct1 [OF dispatch_others [OF run ok]] that] assms(1,4) unfolding lane_def by auto
    ultimately show ?thesis using ok' st' mine by (simp add: lane_def same_transfer_def)
  qed (use assms(3) in simp_all)
qed


lemma lane_end:
  assumes "lane key fs n b R w" "handle_request host t t' request R w = ((True, verdict, m), R', w')"
    and "up_opcode request = END" "key = (up_event_name request, up_transfer_id request)"
  shows "(\<forall>(relative, f)\<in>set fs. readFile (disk w') (fileAt (inbox R @ [fst key]) relative) = Some (hasher f)) \<and>
    (\<forall>q. strict_prefix (inbox R @ [fst key]) q \<longrightarrow> readFile (disk w') q \<noteq> None \<longrightarrow>
       q \<in> fileAt (inbox R @ [fst key]) ` fst ` set fs) \<and>
    m = b \<and> inbox R' = inbox R"
proof -
  have ok: "receiver_ok R" using assms(1) by (simp add: lane_def)
  from assms(2) obtain r where run: "dispatch host t t' request R w = (r, R', w')" and r: "r = Inr (True, verdict, m)"
    by (rule handle_dispatch) auto
  have ok': "inbox R' = inbox R" using dispatch_ok [OF run ok] by simp
  from run show ?thesis
  proof (cases rule: dispatch_cases)
    case refused
    with r show ?thesis by simp
  next
    case (ended R1 w1 st)
    let ?st = "st\<lparr>last_activity := t'\<rparr>"
    have "map_of (transfers R1) key = Some st" using ended(3) assms(4) by simp
    note mine = lane_prune [OF assms(1) ended(1) this]
    then have staged: "staged ?st (disk w1)" "ts_files ?st = fs" "entry_ok (inbox R) (key, ?st)"
      by (auto simp: entry_ok_def intro: staged_same)
    then have dirs: "final_dir ?st = inbox R @ [fst key]" by (simp add: entry_ok_def)
    have inb: "inbox R1 = inbox R" by (rule prune_idle(2) [OF ended(1) ok])
    note sib = siblings_dirs [OF staged(3)]
    from ended(4) show ?thesis
    proof (cases rule: finish_cases)
      case refused
      with r show ?thesis by simp
    next
      case broken
      with r show ?thesis by simp
    next
      case (published w2)
      have "staging_dir ?st \<noteq> []" using sib by (auto simp: siblings_def)
      then have Dir: "lookup (disk w2) (staging_dir ?st) = Some Dir"
        using published(1,2) by (simp add: complete_transfer_def isDirectory_def)
      have pub: "publish (staging_dir ?st) (final_dir ?st) (backupOf (inbox R) (ts_event ?st)) w2 = (Inr (), w')"
        using published(5) inb by simp
      have moved: "readFile (disk w') (inbox R @ [fst key] @ s) = readFile (disk w1) (staging_dir ?st @ s)" for s
        using publish_done [OF pub sib Dir, of s] published(1) dirs by (simp add: readFile_def)
      have whole: "\<forall>(relative, f)\<in>set fs. received_bytes f = expected_bytes f \<and>
          (\<exists>c. readFile (disk w1) (fileAt (staging_dir ?st) relative) = Some c \<and> length c = expected_bytes f)"
        using published(2) staged(2) by (simp add: complete_transfer_def)
      have "readFile (disk w') (fileAt (inbox R @ [fst key]) relative) = Some (hasher f)" if listed: "(relative, f) \<in> set fs" for relative f
      proof -
        have "file_held (fileAt (staging_dir ?st) relative) f (disk w1)" using staged(1,2) listed by (auto simp: staged_def)
        moreover obtain c where "readFile (disk w1) (fileAt (staging_dir ?st) relative) = Some c" "length c = expected_bytes f"
          "received_bytes f = expected_bytes f"
          using bspec [OF whole listed] by auto
        ultimately have "readFile (disk w1) (fileAt (staging_dir ?st) relative) = Some (hasher f)"
          by (cases "hasher f = []") (auto simp: file_held_def prefix_def)
        then show ?thesis using moved [of "split_fields CHR ''/'' relative"] by (simp add: fileAt_def)
      qed
      moreover have "q \<in> fileAt (inbox R @ [fst key]) ` fst ` set fs"
        if there: "strict_prefix (inbox R @ [fst key]) q" "readFile (disk w') q \<noteq> None" for q
      proof -
        obtain s where s: "q = inbox R @ [fst key] @ s" "s \<noteq> []" using there(1) by (auto simp: strict_prefix_def prefix_def)
        then have "readFile (disk w1) (staging_dir ?st @ s) \<noteq> None" using there(2) moved [of s] by simp
        then have "staging_dir ?st @ s \<in> fileAt (staging_dir ?st) ` fst ` set fs"
          using staged(1,2) s(2) by (simp add: staged_def strict_prefix_def)
        then obtain f where f: "f \<in> set fs" "s = split_fields CHR ''/'' (fst f)" by (auto simp: fileAt_def)
        then have "q = fileAt (inbox R @ [fst key]) (fst f)" by (simp add: s fileAt_def)
        with f(1) show ?thesis by blast
      qed
      moreover have "m = b" using r published(4) mine by simp
      ultimately show ?thesis using ok' by auto
    qed
  qed (use assms(3) in simp_all)
qed


section \<open>The whole conversation\<close>

text \<open>A client that only keeps more state behaves the same; here the one with the log.\<close>

definition client_image :: "('s \<Rightarrow> 'r) \<Rightarrow> 's client \<Rightarrow> 'r client \<Rightarrow> bool" where
  "client_image h c d \<longleftrightarrow> (\<forall>q s. d q (h s) = apsnd h (c q s))"

lemma call_image: "client_image h c d \<Longrightarrow> call cfg d q (h s) = apsnd h (call cfg c q s)"
  by (simp add: call_def client_image_def split: prod.split)

lemma callOk_image: "client_image h c d \<Longrightarrow> callOk cfg d q (h s) = apsnd h (callOk cfg c q s)"
  by (simp add: callOk_def call_image split: prod.split)

lemma sendChunks_image:
  "client_image h c d \<Longrightarrow> sendChunks cfg d rq fileSize offset bytes (h s) = apsnd h (sendChunks cfg c rq fileSize offset bytes s)"
proof (induction cfg c rq fileSize offset bytes s rule: sendChunks.induct)
  case (1 cfg c rq fileSize offset bytes s)
  obtain ok s1 where one: "callOk cfg c (rq offset (take (chunkBytes cfg) bytes)) s = (ok, s1)"
    by (cases "callOk cfg c (rq offset (take (chunkBytes cfg) bytes)) s") simp
  show ?case
  proof (cases "offset < fileSize \<and> take (chunkBytes cfg) bytes \<noteq> [] \<and> ok")
    case True
    then have "sendChunks cfg d rq fileSize (offset + length (take (chunkBytes cfg) bytes)) (drop (chunkBytes cfg) bytes) (h s1) =
        apsnd h (sendChunks cfg c rq fileSize (offset + length (take (chunkBytes cfg) bytes)) (drop (chunkBytes cfg) bytes) s1)"
      using "1.IH" [OF _ refl _ one [symmetric] refl] "1.prems" by blast
    with True one callOk_image [OF "1.prems", of cfg "rq offset (take (chunkBytes cfg) bytes)" s] show ?thesis
      by (simp add: sendChunks.simps [of cfg _ rq fileSize offset] Let_def)
  next
    case False
    with one callOk_image [OF "1.prems", of cfg "rq offset (take (chunkBytes cfg) bytes)" s] show ?thesis
      by (auto simp: sendChunks.simps [of cfg _ rq fileSize offset] Let_def)
  qed
qed

lemma sendFile_image:
  "client_image h c d \<Longrightarrow> sendFile cfg d event transferId v f (h s) = apsnd h (sendFile cfg c event transferId v f s)"
  by (simp add: sendFile_def callOk_image sendChunks_image Let_def split: option.split prod.split)

lemma sendFiles_image:
  "client_image h c d \<Longrightarrow> sendFiles cfg d event transferId v fs sent (h s) = apsnd h (sendFiles cfg c event transferId v fs sent s)"
  by (induction fs arbitrary: sent s) (simp_all add: sendFile_image split: option.split prod.split)

lemma conversation_image:
  "client_image h c d \<Longrightarrow> conversation cfg d event transferId v infos b (h s) = apsnd h (conversation cfg c event transferId v infos b s)"
  by (simp add: conversation_def callOk_image call_image sendFiles_image Let_def split: option.split prod.split)

lemma upload_image:
  assumes "client_image h c d"
  shows "uploadDirectory u d view now dir w (h s) = (case uploadDirectory u c view now dir w s of (ok, u', w', s') \<Rightarrow> (ok, u', w', h s'))"
proof -
  have "transferDirectory u d view now dir w1 (h s) = (case transferDirectory u c view now dir w1 s of (ok, u', w', s') \<Rightarrow> (ok, u', w', h s'))" for w1
    by (simp add: transferDirectory_def conversation_image [OF assms] Let_def split: option.split prod.split)
  then show ?thesis by (simp add: uploadDirectory_def Let_def split: prod.split bool.split)
qed

lemma upload_logged:
  assumes "uploadDirectory u client view now dir w r = (ok, u', w', r')"
  shows "\<exists>log. uploadDirectory u (logged (uploadConfig u) client) view now dir w ([], r) = (ok, u', w', (log, r'))"
proof -
  have image: "client_image snd (logged (uploadConfig u) client) client"
    by (simp add: client_image_def logged_def split: prod.split)
  obtain ok' u1 w1 s where run: "uploadDirectory u (logged (uploadConfig u) client) view now dir w ([], r) = (ok', u1, w1, s)"
    using prod_cases4 by blast
  with upload_image [OF image, of u view now dir w "([], r)"] assms show ?thesis by (cases s) simp
qed


section \<open>What the receiver has after a confirmed conversation\<close>

definition othersApart :: "string \<Rightarrow> (nat \<Rightarrow> Link) \<Rightarrow> bool" where
  "othersApart event links \<longleftrightarrow> (\<forall>i. \<forall>(t, t', request)\<in>set (arrivals (links i)). apart event (up_event_name request))"

definition clear :: "string \<Rightarrow> Receiver \<Rightarrow> bool" where
  "clear event R \<longleftrightarrow> receiver_ok R \<and> (\<forall>k\<in>fst ` set (transfers R). fst k = event \<or> apart event (fst k))"

lemma clear_other:
  assumes "clear event R" "handle_request host t t' request R w = (reply, R', w')" "apart event (up_event_name request)"
  shows "clear event R' \<and> inbox R' = inbox R"
proof -
  have ok: "receiver_ok R" using assms(1) by (simp add: clear_def)
  from assms(2) obtain r where run: "dispatch host t t' request R w = (r, R', w')" by (rule handle_dispatch)
  have "fst k = event \<or> apart event (fst k)" if "k \<in> fst ` set (transfers R')" for k
    using subsetD [OF conjunct1 [OF dispatch_others [OF run ok]] that] assms(1,3) unfolding clear_def by auto
  with dispatch_ok [OF run ok] show ?thesis by (simp add: clear_def)
qed

lemma others_keep:
  assumes "\<And>t t' request R w reply R' w'. (t, t', request) \<in> set qs \<Longrightarrow> handle_request host t t' request R w = (reply, R', w') \<Longrightarrow>
      I R w \<Longrightarrow> I R' w'"
    and "fold (serveOther host) qs (R, w) = (R1, w1)" "I R w"
  shows "I R1 w1"
  using assms
proof (induction qs arbitrary: R w)
  case (Cons q qs)
  obtain t t' request where q: "q = (t, t', request)" by (cases q) auto
  obtain reply R2 w2 where h: "handle_request host t t' request R w = (reply, R2, w2)" using prod_cases3 by blast
  have "I R2 w2" using Cons.prems(1) [OF _ h Cons.prems(3)] by (simp add: q)
  moreover have "fold (serveOther host) qs (R2, w2) = (R1, w1)" using Cons.prems(2) by (simp add: q serveOther_def h)
  ultimately show ?case using Cons.IH Cons.prems(1) by (metis list.set_intros(2))
qed simp

text \<open>A successful call: the requests of others, then this one.\<close>

lemma replay_step:
  assumes "replay cfg (receiverClient host wording links) ((q, Some a) # l) (n, R, w) = Some s'" "ur_success a"
  shows "\<exists>R1 w1 verdict R2 w2. fold (serveOther host) (arrivals (links n)) (R, w) = (R1, w1) \<and>
    handle_request host (pruneClock (links n)) (requestClock (links n)) q R1 w1 = ((True, verdict, ur_received_bytes a), R2, w2) \<and>
    replay cfg (receiverClient host wording links) l (Suc n, R2, w2) = Some s'"
proof -
  obtain R1 w1 where o: "fold (serveOther host) (arrivals (links n)) (R, w) = (R1, w1)" by fastforce
  obtain ok verdict m R2 w2 where h: "handle_request host (pruneClock (links n)) (requestClock (links n)) q R1 w1 = ((ok, verdict, m), R2, w2)"
    by (metis prod.exhaust)
  have up: "reachable (links n) \<and> delivered (links n)"
  proof (rule ccontr)
    assume "\<not> ?thesis"
    with assms(1) o show False by (auto simp: receiverClient_def callResult_def Let_def split: if_splits)
  qed
  with assms o h show ?thesis
    by (auto simp: receiverClient_def callResult_def Let_def split: if_splits)
qed

lemma lane_others:
  assumes "lane key fs nf b R w" "fold (serveOther host) (arrivals (links n)) (R, w) = (R1, w1)" "othersApart (fst key) links"
  shows "lane key fs nf b R1 w1 \<and> inbox R1 = inbox R"
proof -
  have step: "lane key fs nf b R' w' \<and> inbox R' = inbox R"
    if "(t, t', request) \<in> set (arrivals (links n))" "handle_request host t t' request R0 w0 = (reply, R', w')"
      "lane key fs nf b R0 w0 \<and> inbox R0 = inbox R" for t t' request R0 w0 reply R' w'
  proof -
    have "apart (fst key) (up_event_name request)" using assms(3) that(1) unfolding othersApart_def by fastforce
    from lane_other [OF conjunct1 [OF that(3)] that(2) this] have "lane key fs nf b R' w'" .
    moreover have "receiver_ok R0" using that(3) by (simp add: lane_def)
    ultimately show ?thesis using handle_ok [OF that(2)] that(3) by simp
  qed
  show ?thesis
    by (rule others_keep [where I = "\<lambda>R' w'. lane key fs nf b R' w' \<and> inbox R' = inbox R", OF _ assms(2)])
      (erule (2) step, simp add: assms(1))
qed

lemma replay_chunk:
  assumes "replay cfg (receiverClient host wording links) ((q, Some a) # l) (n, R, w) = Some s'" "ur_success a"
    and "lane key fs nf b R w" "othersApart (fst key) links"
    and "up_opcode q = FILE_CHUNK" "key = (up_event_name q, up_transfer_id q)" "CHR 0x5C \<notin> set (up_file_path q)"
    and "f = (case map_of fs (up_file_path q) of None \<Rightarrow> freshFile (up_total_bytes q) | Some f \<Rightarrow> f)" "up_offset q = received_bytes f"
  shows "\<exists>R' w'. replay cfg (receiverClient host wording links) l (Suc n, R', w') = Some s' \<and> inbox R' = inbox R \<and>
    lane key (AList.update (up_file_path q)
      (f\<lparr>hasher := hasher f @ up_data q, received_bytes := up_offset q + length (up_data q)\<rparr>) fs) nf b R' w'"
proof -
  from replay_step [OF assms(1,2)] obtain R1 w1 verdict R2 w2 where
    s: "fold (serveOther host) (arrivals (links n)) (R, w) = (R1, w1)"
    "handle_request host (pruneClock (links n)) (requestClock (links n)) q R1 w1 = ((True, verdict, ur_received_bytes a), R2, w2)"
    "replay cfg (receiverClient host wording links) l (Suc n, R2, w2) = Some s'" by blast
  from lane_others [OF assms(3) s(1) assms(4)] have "lane key fs nf b R1 w1" "inbox R1 = inbox R" by simp_all
  with lane_chunk [OF _ s(2) assms(5-9)] s(3) show ?thesis by metis
qed


definition heldFile :: "nat \<Rightarrow> string \<Rightarrow> FileState" where
  "heldFile n s = \<lparr>expected_bytes = n, received_bytes = length s, hasher = s\<rparr>"

lemma update_last: "k \<notin> fst ` set al \<Longrightarrow> AList.update k v (al @ [(k, x)]) = al @ [(k, v)]"
  by (induction al) auto

lemma confirmed_Cons: "confirmed (q # qs) l \<Longrightarrow> \<exists>a l'. l = (q, Some a) # l' \<and> ur_success a \<and> confirmed qs l'"
  by (cases l) (auto simp: confirmed_def)

lemma confirmed_split: "confirmed (qs @ qs') l \<Longrightarrow> \<exists>l1 l2. l = l1 @ l2 \<and> confirmed qs l1 \<and> confirmed qs' l2"
proof (induction qs arbitrary: l)
  case Nil
  then have "l = [] @ l \<and> confirmed [] [] \<and> confirmed qs' l" by simp
  then show ?case by blast
next
  case (Cons q qs)
  from Cons.prems have "confirmed (q # (qs @ qs')) l" by simp
  from confirmed_Cons [OF this] obtain a l' where l': "l = (q, Some a) # l'" "ur_success a" "confirmed (qs @ qs') l'" by blast
  from Cons.IH [OF this(3)] obtain l1 l2 where s: "l' = l1 @ l2" "confirmed qs l1" "confirmed qs' l2" by blast
  have "confirmed (q # qs) ((q, Some a) # l1)" using s(2) l'(2) by (simp add: confirmed_def)
  with l'(1) s show ?case by (metis append_Cons)
qed

lemma replay_chunks:
  assumes "replay cfg (receiverClient host wording links) l (n, R, w) = Some (n', R', w')"
    and "confirmed (map (\<lambda>(o', d). chunkRequest event transferId f o' d) (chunksFrom cb (length s) rest)) l" "0 < cb"
    and "lane (event, transferId) (fs @ [(fi_relative f, heldFile (fi_size f) s)]) nf b R w" "othersApart event links"
    and "fi_relative f \<notin> fst ` set fs" "CHR 0x5C \<notin> set (fi_relative f)"
  shows "lane (event, transferId) (fs @ [(fi_relative f, heldFile (fi_size f) (s @ rest))]) nf b R' w' \<and> inbox R' = inbox R"
  using assms(1,2,4)
proof (induction "length rest" arbitrary: s rest n R w l rule: less_induct)
  case less
  show ?case
  proof (cases "rest = []")
    case True
    with less.prems have "l = []" by (simp add: chunksFrom.simps confirmed_def)
    with less.prems True show ?thesis by simp
  next
    case False
    let ?d = "take cb rest"
    let ?q = "chunkRequest event transferId f (length s) ?d"
    have chunks: "chunksFrom cb (length s) rest = (length s, ?d) # chunksFrom cb (length (s @ ?d)) (drop cb rest)"
      using False assms(3) by (subst chunksFrom.simps) simp
    have "confirmed (?q # map (\<lambda>(o', d). chunkRequest event transferId f o' d) (chunksFrom cb (length (s @ ?d)) (drop cb rest))) l"
      using less.prems(2) unfolding chunks by simp
    from confirmed_Cons [OF this] obtain a l' where
      l: "l = (?q, Some a) # l'" "ur_success a"
      "confirmed (map (\<lambda>(o', d). chunkRequest event transferId f o' d) (chunksFrom cb (length (s @ ?d)) (drop cb rest))) l'" by blast
    have q: "up_opcode ?q = FILE_CHUNK" "(event, transferId) = (up_event_name ?q, up_transfer_id ?q)" "up_file_path ?q = fi_relative f"
      "up_data ?q = ?d" "up_offset ?q = length s" "up_total_bytes ?q = fi_size f"
      by (simp_all add: chunkRequest_def emptyRequest_def)
    let ?fs = "fs @ [(fi_relative f, heldFile (fi_size f) s)]"
    have known: "map_of ?fs (up_file_path ?q) = Some (heldFile (fi_size f) s)"
      using assms(6) by (simp add: q map_add_def map_of_eq_None_iff [symmetric])
    have apart: "othersApart (fst (event, transferId)) links" using assms(5) by simp
    have plain: "CHR 0x5C \<notin> set (up_file_path ?q)" using assms(7) by (simp add: q)
    have f: "heldFile (fi_size f) s = (case map_of ?fs (up_file_path ?q) of None \<Rightarrow> freshFile (up_total_bytes ?q) | Some f \<Rightarrow> f)"
      unfolding known by simp
    have o: "up_offset ?q = received_bytes (heldFile (fi_size f) s)" by (simp add: q heldFile_def)
    from replay_chunk [OF less.prems(1) [unfolded l(1)] l(2) less.prems(3) apart q(1,2) plain f o] obtain R1 w1 where
      s: "replay cfg (receiverClient host wording links) l' (Suc n, R1, w1) = Some (n', R', w')" "inbox R1 = inbox R"
      "lane (event, transferId) (AList.update (fi_relative f) (heldFile (fi_size f) (s @ ?d)) ?fs) nf b R1 w1"
      by (auto simp: q heldFile_def)
    then have "lane (event, transferId) (fs @ [(fi_relative f, heldFile (fi_size f) (s @ ?d))]) nf b R1 w1"
      by (simp add: update_last assms(6))
    moreover have "length (drop cb rest) < length rest" using False assms(3) by simp
    ultimately show ?thesis using less.hyps [OF _ s(1) l(3)] s(2) by simp
  qed
qed


lemma replay_file:
  assumes "replay cfg (receiverClient host wording links) l (n, R, w) = Some (n', R', w')"
    and "confirmed (fileRequests cb event transferId f content) l" "0 < cb" "length content = fi_size f"
    and "lane (event, transferId) fs nf b R w" "othersApart event links"
    and "fi_relative f \<notin> fst ` set fs" "CHR 0x5C \<notin> set (fi_relative f)"
  shows "lane (event, transferId) (fs @ [(fi_relative f, heldFile (fi_size f) content)]) nf b R' w' \<and> inbox R' = inbox R"
proof -
  have apart: "othersApart (fst (event, transferId)) links" using assms(6) by simp
  have new: "map_of fs (fi_relative f) = None" using assms(7) by (simp add: map_of_eq_None_iff)
  show ?thesis
  proof (cases "fi_size f = 0")
    case True
    let ?q = "(emptyRequest event transferId FILE_CHUNK)\<lparr>up_file_path := fi_relative f\<rparr>"
    have q: "up_opcode ?q = FILE_CHUNK" "(event, transferId) = (up_event_name ?q, up_transfer_id ?q)" "up_file_path ?q = fi_relative f"
      "up_data ?q = []" "up_offset ?q = 0" "up_total_bytes ?q = 0" by (simp_all add: emptyRequest_def)
    from assms(2) True obtain a l' where l: "l = (?q, Some a) # l'" "ur_success a" "confirmed [] l'"
      using confirmed_Cons [of ?q "[]" l] by (auto simp: fileRequests_def)
    then have l': "l' = []" by (simp add: confirmed_def)
    have plain: "CHR 0x5C \<notin> set (up_file_path ?q)" using assms(8) by (simp add: q)
    have f: "freshFile 0 = (case map_of fs (up_file_path ?q) of None \<Rightarrow> freshFile (up_total_bytes ?q) | Some f \<Rightarrow> f)"
      by (simp add: q(3,6) new)
    have o: "up_offset ?q = received_bytes (freshFile 0)" by (simp add: q freshFile_def)
    from replay_chunk [OF assms(1) [unfolded l(1)] l(2) assms(5) apart q(1,2) plain f o] True assms(4) show ?thesis
      by (auto simp: q l' freshFile_def heldFile_def update_absent [OF new])
  next
    case False
    let ?d = "take cb content"
    let ?q = "chunkRequest event transferId f 0 ?d"
    have q: "up_opcode ?q = FILE_CHUNK" "(event, transferId) = (up_event_name ?q, up_transfer_id ?q)" "up_file_path ?q = fi_relative f"
      "up_data ?q = ?d" "up_offset ?q = 0" "up_total_bytes ?q = fi_size f"
      by (simp_all add: chunkRequest_def emptyRequest_def)
    have "content \<noteq> []" using False assms(4) by auto
    then have chunks: "chunksFrom cb 0 content = (0, ?d) # chunksFrom cb (length ?d) (drop cb content)"
      using assms(3) by (subst chunksFrom.simps) simp
    have "confirmed (?q # map (\<lambda>(o', d). chunkRequest event transferId f o' d) (chunksFrom cb (length ?d) (drop cb content))) l"
      using assms(2) False unfolding fileRequests_def chunks by simp
    from confirmed_Cons [OF this] obtain a l' where l: "l = (?q, Some a) # l'" "ur_success a"
      "confirmed (map (\<lambda>(o', d). chunkRequest event transferId f o' d) (chunksFrom cb (length ?d) (drop cb content))) l'" by blast
    have plain: "CHR 0x5C \<notin> set (up_file_path ?q)" using assms(8) by (simp add: q)
    have f: "freshFile (fi_size f) = (case map_of fs (up_file_path ?q) of None \<Rightarrow> freshFile (up_total_bytes ?q) | Some f \<Rightarrow> f)"
      by (simp add: q(3,6) new)
    have o: "up_offset ?q = received_bytes (freshFile (fi_size f))" by (simp add: q freshFile_def)
    from replay_chunk [OF assms(1) [unfolded l(1)] l(2) assms(5) apart q(1,2) plain f o] obtain R1 w1 where
      s: "replay cfg (receiverClient host wording links) l' (Suc n, R1, w1) = Some (n', R', w')" "inbox R1 = inbox R"
      "lane (event, transferId) (fs @ [(fi_relative f, heldFile (fi_size f) ?d)]) nf b R1 w1"
      by (auto simp: q freshFile_def heldFile_def update_absent [OF new])
    from replay_chunks [OF s(1) l(3) assms(3) s(3) assms(6-8)] s(2) show ?thesis by simp
  qed
qed

lemma replay_files:
  assumes "replay cfg (receiverClient host wording links) l (n, R, w) = Some (n', R', w')"
    and "confirmed (concat (map (\<lambda>f. fileRequests cb event transferId f (content f)) infos)) l" "0 < cb"
    and "lane (event, transferId) fs nf b R w" "othersApart event links"
    and "distinct (map fst fs @ map fi_relative infos)"
    and "\<forall>f\<in>set infos. length (content f) = fi_size f \<and> CHR 0x5C \<notin> set (fi_relative f)"
  shows "lane (event, transferId) (fs @ map (\<lambda>f. (fi_relative f, heldFile (fi_size f) (content f))) infos) nf b R' w' \<and> inbox R' = inbox R"
  using assms
proof (induction infos arbitrary: fs n R w l)
  case Nil
  then show ?case by (simp add: confirmed_def)
next
  case (Cons f infos)
  from Cons.prems(2) have "confirmed (fileRequests cb event transferId f (content f) @
      concat (map (\<lambda>f. fileRequests cb event transferId f (content f)) infos)) l" by simp
  from confirmed_split [OF this] obtain l1 l2 where
    l: "l = l1 @ l2" "confirmed (fileRequests cb event transferId f (content f)) l1"
    "confirmed (concat (map (\<lambda>f. fileRequests cb event transferId f (content f)) infos)) l2" by blast
  from Cons.prems(1) l(1) obtain s where s: "replay cfg (receiverClient host wording links) l1 (n, R, w) = Some s"
    "replay cfg (receiverClient host wording links) l2 s = Some (n', R', w')"
    by (cases "replay cfg (receiverClient host wording links) l1 (n, R, w)") (auto simp: replay_append)
  obtain n1 R1 w1 where s1: "s = (n1, R1, w1)" by (cases s)
  have one: "lane (event, transferId) (fs @ [(fi_relative f, heldFile (fi_size f) (content f))]) nf b R1 w1 \<and> inbox R1 = inbox R"
    using Cons.prems(6,7) by (intro replay_file [OF s(1) [unfolded s1] l(2) Cons.prems(3) _ Cons.prems(4,5)]) auto
  have "distinct (map fst (fs @ [(fi_relative f, heldFile (fi_size f) (content f))]) @ map fi_relative infos)"
    using Cons.prems(6) by auto
  from Cons.IH [OF s(2) [unfolded s1] l(3) Cons.prems(3) conjunct1 [OF one] Cons.prems(5) this] Cons.prems(7) one show ?case by simp
qed


lemma replay_begin:
  assumes "replay cfg (receiverClient host wording links) ((q, Some a) # l) (n, R, w) = Some s'" "ur_success a"
    and "clear event R" "othersApart event links"
    and "q = (emptyRequest event transferId BEGIN)\<lparr>up_file_count := nf, up_total_bytes := b\<rparr>"
  shows "\<exists>R' w'. replay cfg (receiverClient host wording links) l (Suc n, R', w') = Some s' \<and>
    lane (event, transferId) [] nf b R' w' \<and> inbox R' = inbox R"
proof -
  from replay_step [OF assms(1,2)] obtain R1 w1 verdict R2 w2 where
    s: "fold (serveOther host) (arrivals (links n)) (R, w) = (R1, w1)"
    "handle_request host (pruneClock (links n)) (requestClock (links n)) q R1 w1 = ((True, verdict, ur_received_bytes a), R2, w2)"
    "replay cfg (receiverClient host wording links) l (Suc n, R2, w2) = Some s'" by blast
  have step: "clear event R' \<and> inbox R' = inbox R"
    if "(t, t', request) \<in> set (arrivals (links n))" "handle_request host t t' request R0 w0 = (reply, R', w')"
      "clear event R0 \<and> inbox R0 = inbox R" for t t' request R0 w0 reply R' w'
  proof -
    have "apart event (up_event_name request)" using assms(4) that(1) unfolding othersApart_def by fastforce
    from clear_other [OF conjunct1 [OF that(3)] that(2) this] that(3) show ?thesis by simp
  qed
  have R1: "clear event R1 \<and> inbox R1 = inbox R"
    by (rule others_keep [where I = "\<lambda>R' w'. clear event R' \<and> inbox R' = inbox R", OF _ s(1)])
      (erule (2) step, simp add: assms(3))
  have "receiver_ok R1" "\<forall>k\<in>fst ` set (transfers R1). fst k = fst (event, transferId) \<or> apart (fst (event, transferId)) (fst k)"
    using R1 by (simp_all add: clear_def)
  from lane_begin [OF s(2) this] R1 s(3) show ?thesis
    by (auto simp: assms(5) emptyRequest_def)
qed

lemma replay_end:
  assumes "replay cfg (receiverClient host wording links) [(emptyRequest event transferId END, Some a)] (n, R, w) = Some (n', R', w')" "ur_success a"
    and "lane (event, transferId) fs nf b R w" "othersApart event links"
  shows "(\<forall>(relative, f)\<in>set fs. readFile (disk w') (fileAt (inbox R @ [event]) relative) = Some (hasher f)) \<and>
    (\<forall>q. strict_prefix (inbox R @ [event]) q \<longrightarrow> readFile (disk w') q \<noteq> None \<longrightarrow> q \<in> fileAt (inbox R @ [event]) ` fst ` set fs)"
proof -
  from replay_step [OF assms(1,2)] obtain R1 w1 verdict R2 w2 where
    s: "fold (serveOther host) (arrivals (links n)) (R, w) = (R1, w1)"
    "handle_request host (pruneClock (links n)) (requestClock (links n)) (emptyRequest event transferId END) R1 w1 =
       ((True, verdict, ur_received_bytes a), R2, w2)" "w2 = w'" by auto
  have apart: "othersApart (fst (event, transferId)) links" using assms(4) by simp
  from lane_others [OF assms(3) s(1) apart] have R1: "lane (event, transferId) fs nf b R1 w1" "inbox R1 = inbox R" by simp_all
  have "up_opcode (emptyRequest event transferId END) = END"
    "(event, transferId) = (up_event_name (emptyRequest event transferId END), up_transfer_id (emptyRequest event transferId END))"
    by (simp_all add: emptyRequest_def)
  from lane_end [OF R1(1) s(2) this] R1(2) s(3) show ?thesis by simp
qed

text \<open>The published directory is the list of files of the conversation.\<close>

lemma conversation_published:
  assumes "replay cfg (receiverClient host wording links) (l @ [(emptyRequest event transferId END, Some a)]) (n, R, w) = Some (n', R', w')"
    and "confirmed ((emptyRequest event transferId BEGIN)\<lparr>up_file_count := nf, up_total_bytes := b\<rparr> #
      concat (map (\<lambda>f. fileRequests cb event transferId f (content f)) infos)) l" "ur_success a" "0 < cb"
    and "clear event R" "othersApart event links" "distinct (map fi_relative infos)"
    and "\<forall>f\<in>set infos. length (content f) = fi_size f \<and> CHR 0x5C \<notin> set (fi_relative f)"
  shows "(\<forall>f\<in>set infos. readFile (disk w') (fileAt (inbox R @ [event]) (fi_relative f)) = Some (content f)) \<and>
    (\<forall>q. strict_prefix (inbox R @ [event]) q \<longrightarrow> readFile (disk w') q \<noteq> None \<longrightarrow>
       q \<in> fileAt (inbox R @ [event]) ` fi_relative ` set infos)"
proof -
  let ?client = "receiverClient host wording links"
  from confirmed_Cons [OF assms(2)] obtain a0 l' where
    l: "l = ((emptyRequest event transferId BEGIN)\<lparr>up_file_count := nf, up_total_bytes := b\<rparr>, Some a0) # l'" "ur_success a0"
    "confirmed (concat (map (\<lambda>f. fileRequests cb event transferId f (content f)) infos)) l'" by blast
  from replay_begin [OF assms(1) [unfolded l(1) append_Cons] l(2) assms(5,6) refl] obtain R1 w1 where
    s1: "replay cfg ?client (l' @ [(emptyRequest event transferId END, Some a)]) (Suc n, R1, w1) = Some (n', R', w')"
    "lane (event, transferId) [] nf b R1 w1" "inbox R1 = inbox R" by blast
  from s1(1) obtain s2 where s2: "replay cfg ?client l' (Suc n, R1, w1) = Some s2"
    "replay cfg ?client [(emptyRequest event transferId END, Some a)] s2 = Some (n', R', w')"
    unfolding replay_append by (cases "replay cfg ?client l' (Suc n, R1, w1)") auto
  obtain n2 R2 w2 where e: "s2 = (n2, R2, w2)" by (cases s2)
  have "distinct (map fst [] @ map fi_relative infos)" using assms(7) by simp
  from replay_files [OF s2(1) [unfolded e] l(3) assms(4) s1(2) assms(6) this assms(8)]
  have R2: "lane (event, transferId) (map (\<lambda>f. (fi_relative f, heldFile (fi_size f) (content f))) infos) nf b R2 w2" "inbox R2 = inbox R1"
    by simp_all
  from replay_end [OF s2(2) [unfolded e] assms(3) R2(1) assms(6)] R2(2) s1(3) show ?thesis
    by (auto simp: heldFile_def image_image)
qed


section \<open>Properties\<close>

lemma upload_sends:
  assumes "uploadDirectory u (logged (uploadConfig u) client) view now dir w ([], r) = (ok, u', w', (log, r'))"
    and "0 < chunkBytes (uploadConfig u)"
    and "lookup (disk w) (dir @ [''.uploaded'']) = None" "lookup (disk w') (dir @ [''.uploaded'']) \<noteq> None"
  shows "\<exists>transferId infos l a. distinct (map fi_path infos) \<and>
    set (map fi_path infos) = {q. strict_prefix dir q \<and> readFile (disk w) q \<noteq> None \<and> \<not> isMarkerOrTemp (last q)} \<and>
    log = l @ [(emptyRequest (last dir) transferId END, Some a)] \<and> ur_success a \<and>
    confirmed ((emptyRequest (last dir) transferId BEGIN)\<lparr>up_file_count := length infos, up_total_bytes := sum_list (map fi_size infos)\<rparr> #
      concat (map (\<lambda>f. fileRequests (chunkBytes (uploadConfig u)) (last dir) transferId f (contentOf (fileView view) f)) infos)) l \<and>
    (\<forall>f\<in>set infos. fi_relative f = relativeText dir (fi_path f) \<and> view_size (fileView view (fi_path f)) = Some (fi_size f) \<and>
       length (contentOf (fileView view) f) = fi_size f)"
proof -
  from upload_marked [OF assms(1,3,4)] obtain w1 u2 w2 where
    a: "acquireLease (leaseTimeout (uploadConfig u)) now dir w = (True, w1)"
    and t: "transferDirectory u (logged (uploadConfig u) client) view now dir w1 ([], r) = (True, u2, w2, (log, r'))" by blast
  have len: "length (contentOf (fileView view) f) = fi_size f" if "steady (fileView view) f" for f
    using that by (auto simp: steady_def contentOf_def)
  from transfer_sends [OF t assms(2)] obtain transferId infos l a where sent:
    "map fi_path infos = collectFiles (disk w1) dir"
    "\<forall>f\<in>set infos. fi_relative f = relativeText dir (fi_path f) \<and> view_size (fileView view (fi_path f)) = Some (fi_size f) \<and> steady (fileView view) f"
    "log = l @ [(emptyRequest (last dir) transferId END, Some a)]" "ur_success a"
    "confirmed ((emptyRequest (last dir) transferId BEGIN)\<lparr>up_file_count := length infos, up_total_bytes := sum_list (map fi_size infos)\<rparr> #
      concat (map (\<lambda>f. fileRequests (chunkBytes (uploadConfig u)) (last dir) transferId f (contentOf (fileView view) f)) infos)) l"
    by auto
  have "set (map fi_path infos) = {q. strict_prefix dir q \<and> readFile (disk w) q \<noteq> None \<and> \<not> isMarkerOrTemp (last q)}"
    using collectFiles_leased [OF a] by (simp only: sent(1) set_collectFiles)
  moreover have "distinct (map fi_path infos)" unfolding sent(1) by (simp add: collectFiles_def below_def)
  ultimately show ?thesis using sent(2-5) len by blast
qed

lemma event_arrived:
  assumes "uploadDirectory u (receiverClient host wording links) (quietView (disk w)) now dir w (n, R, W) = (ok, u', w', (n', R', W'))"
    and "0 < chunkBytes (uploadConfig u)"
    and "lookup (disk w) (dir @ [''.uploaded'']) = None" "lookup (disk w') (dir @ [''.uploaded'']) \<noteq> None"
    and "clear (last dir) R" "othersApart (last dir) links"
    and "\<forall>s. readFile (disk w) (dir @ s) \<noteq> None \<longrightarrow> (\<forall>c\<in>set s. CHR ''/'' \<notin> set c \<and> CHR 0x5C \<notin> set c)"
    and "s \<noteq> []"
  shows "readFile (disk W') (inbox R @ last dir # s) = (if isMarkerOrTemp (last s) then None else readFile (disk w) (dir @ s))"
proof -
  let ?v = "fileView (quietView (disk w))" and ?F = "inbox R @ [last dir]"
  from upload_logged [OF assms(1)] obtain log where
    run: "uploadDirectory u (logged (uploadConfig u) (receiverClient host wording links)) (quietView (disk w)) now dir w ([], n, R, W) =
      (ok, u', w', (log, n', R', W'))" by blast
  from upload_sends [OF run assms(2-4)] obtain transferId infos l a where
    infos: "distinct (map fi_path infos)"
      "set (map fi_path infos) = {q. strict_prefix dir q \<and> readFile (disk w) q \<noteq> None \<and> \<not> isMarkerOrTemp (last q)}"
    and log: "log = l @ [(emptyRequest (last dir) transferId END, Some a)]" "ur_success a"
      "confirmed ((emptyRequest (last dir) transferId BEGIN)\<lparr>up_file_count := length infos, up_total_bytes := sum_list (map fi_size infos)\<rparr> #
         concat (map (\<lambda>f. fileRequests (chunkBytes (uploadConfig u)) (last dir) transferId f (contentOf ?v f)) infos)) l"
    and each: "\<forall>f\<in>set infos. fi_relative f = relativeText dir (fi_path f) \<and> view_size (?v (fi_path f)) = Some (fi_size f) \<and>
       length (contentOf ?v f) = fi_size f" by blast
  have parts: "split_fields CHR ''/'' (fi_relative f) = drop (length dir) (fi_path f) \<and> CHR 0x5C \<notin> set (fi_relative f) \<and>
      dir @ drop (length dir) (fi_path f) = fi_path f \<and> contentOf ?v f = the (readFile (disk w) (fi_path f)) \<and>
      readFile (disk w) (fi_path f) \<noteq> None" if f: "f \<in> set infos" for f
  proof -
    have q: "strict_prefix dir (fi_path f)" "readFile (disk w) (fi_path f) \<noteq> None" using f infos(2) by auto
    then obtain r where r: "fi_path f = dir @ r" "r \<noteq> []" by (auto simp: strict_prefix_def prefix_def)
    then have plain: "\<forall>c\<in>set r. CHR ''/'' \<notin> set c \<and> CHR 0x5C \<notin> set c" using assms(7) q(2) by auto
    have rel: "fi_relative f = joined CHR ''/'' r" using each f by (simp add: relativeText_def r(1))
    have "CHR 0x5C \<notin> set (joined CHR ''/'' r)" using plain by (induction r) (auto split: if_splits)
    moreover have "split_fields CHR ''/'' (joined CHR ''/'' r) = r" using plain r(2) by (intro split_fields_joined) auto
    moreover obtain c where c: "readFile (disk w) (fi_path f) = Some c" using q(2) by blast
    moreover have "fi_size f = length c" using each f c by (auto simp: quietView_def)
    ultimately show ?thesis by (simp add: rel r(1) contentOf_def quietView_def)
  qed
  have rel: "distinct (map fi_relative infos)"
  proof -
    have "inj_on fi_relative (set infos)"
    proof (rule inj_onI)
      fix f g assume fg: "f \<in> set infos" "g \<in> set infos" "fi_relative f = fi_relative g"
      then have "fi_path f = fi_path g" using parts [of f] parts [of g] by metis
      with fg infos(1) show "f = g" by (auto simp: distinct_map inj_on_def)
    qed
    with infos(1) show ?thesis by (simp add: distinct_map)
  qed
  have "\<forall>f\<in>set infos. length (contentOf ?v f) = fi_size f \<and> CHR 0x5C \<notin> set (fi_relative f)" using each parts by blast
  from conversation_published [OF upload_replay [OF run, unfolded log(1)] log(3,2) assms(2,5,6) rel this]
  have published: "\<forall>f\<in>set infos. readFile (disk W') (fileAt ?F (fi_relative f)) = Some (contentOf ?v f)"
    "\<forall>q. strict_prefix ?F q \<longrightarrow> readFile (disk W') q \<noteq> None \<longrightarrow> q \<in> fileAt ?F ` fi_relative ` set infos" by blast+
  show ?thesis
  proof (cases "readFile (disk w) (dir @ s) \<noteq> None \<and> \<not> isMarkerOrTemp (last s)")
    case True
    then have "dir @ s \<in> set (map fi_path infos)" using assms(8) infos(2) by (simp add: strict_prefix_def)
    then obtain f where f: "f \<in> set infos" "fi_path f = dir @ s" by auto
    with parts [OF f(1)] have "fileAt ?F (fi_relative f) = inbox R @ last dir # s" by (simp add: fileAt_def)
    moreover have "contentOf ?v f = the (readFile (disk w) (dir @ s))" using parts [OF f(1)] f(2) by simp
    ultimately show ?thesis using bspec [OF published(1) f(1)] True by auto
  next
    case False
    have "readFile (disk W') (inbox R @ last dir # s) = None"
    proof (rule ccontr)
      assume "readFile (disk W') (inbox R @ last dir # s) \<noteq> None"
      with published(2) assms(8) have "inbox R @ last dir # s \<in> fileAt ?F ` fi_relative ` set infos" by (simp add: strict_prefix_def)
      then obtain f where f: "f \<in> set infos" "split_fields CHR ''/'' (fi_relative f) = s" by (auto simp: fileAt_def)
      with parts [OF f(1)] have path: "fi_path f = dir @ s" by simp
      have "fi_path f \<in> set (map fi_path infos)" using f(1) by simp
      then have "dir @ s \<in> {q. strict_prefix dir q \<and> readFile (disk w) q \<noteq> None \<and> \<not> isMarkerOrTemp (last q)}"
        unfolding infos(2) path .
      with False assms(8) show False by simp
    qed
    with False show ?thesis by (cases "isMarkerOrTemp (last s)") simp_all
  qed
qed



section \<open>A sample delivery\<close>

definition goodLink :: Link where
  "goodLink = \<lparr>arrivals = [], reachable = True, delivered = True, pruneClock = 0, requestClock = 0, link_sentAt = 0,
     link_ticks = [\<lparr>tick_ready = True, tick_stopping = False, tick_now = 1\<rparr>]\<rparr>"

definition deliveredRow :: string where
  "deliveredRow = replicate 64 (CHR ''0'') @ ''  d''"

definition deliveryStore :: World where
  "deliveryStore = \<lparr>disk = [([''r''], Dir), ([''r'', ''e''], Dir), ([''r'', ''e'', ''.complete''], File ''x''),
     ([''r'', ''e'', ''.upload_id''], File ''t''), ([''r'', ''e'', ''d''], File ''abc''),
     ([''r'', ''e'', ''manifest.sha256''], File deliveredRow)], script = []\<rparr>"

definition deliveryUploader :: UploadWorker where
  "deliveryUploader = sampleUploader\<lparr>uploadConfig := (uploadConfig sampleUploader)\<lparr>chunkBytes := 100\<rparr>\<rparr>"

definition emptyInbox :: Receiver where
  "emptyInbox = \<lparr>inbox = [''i''], transfers = []\<rparr>"

definition inboxStore :: World where
  "inboxStore = \<lparr>disk = [([''i''], Dir)], script = []\<rparr>"

abbreviation sampleClient :: "(nat \<times> Receiver \<times> World) client" where
  "sampleClient \<equiv> receiverClient sampleHost (\<lambda>v. []) (\<lambda>n. goodLink)"

lemma sample_delivery:
  "case uploadDirectory deliveryUploader sampleClient (quietView (disk deliveryStore)) 5 [''r'', ''e''] deliveryStore (0, emptyInbox, inboxStore) of
     (ok, u', w', n', R', W') \<Rightarrow> ok \<and> lookup (disk w') [''r'', ''e'', ''.uploaded''] \<noteq> None"
  by code_simp

lemma sample_plain:
  "readFile (disk deliveryStore) ([''r'', ''e''] @ s) \<noteq> None \<Longrightarrow> \<forall>c\<in>set s. CHR ''/'' \<notin> set c \<and> CHR 0x5C \<notin> set c"
  by (auto simp: readFile_def lookup_def deliveryStore_def split: if_splits option.splits node.splits)

lemma sample_clear: "clear ''e'' emptyInbox" "othersApart ''e'' (\<lambda>n. goodLink)"
  by (simp_all add: clear_def receiver_ok_def emptyInbox_def othersApart_def goodLink_def)

end
