(* ===== verification/Delivery_Integrity.thy ===== *)
theory Delivery_Integrity
  imports Upload_Delivery Record_Verify
begin

text \<open>
  The receiver's copy of an event passes the verification (theory Record_Verify) with the same
  report as the sender's directory.
\<close>

section \<open>Copies without markers and temporary files\<close>

definition mirrors :: "disk \<Rightarrow> path \<Rightarrow> disk \<Rightarrow> path \<Rightarrow> bool" where
  "mirrors d dir d' dir' \<longleftrightarrow> (\<forall>s. s \<noteq> [] \<longrightarrow>
     readFile d' (dir' @ s) = (if isMarkerOrTemp (last s) then None else readFile d (dir @ s)))"

lemma mirrors_file: "mirrors d dir d' dir' \<Longrightarrow> s \<noteq> [] \<Longrightarrow> \<not> isMarkerOrTemp (last s) \<Longrightarrow> readFile d' (dir' @ s) = readFile d (dir @ s)"
  by (simp add: mirrors_def)

lemma covered_sent: "coveredName n \<Longrightarrow> \<not> isMarkerOrTemp n"
  by (auto simp: coveredName_def isMarkerOrTemp_def)

lemma mirrors_covered:
  assumes "mirrors d dir d' dir'"
  shows "relativeText dir' ` set (coveredFiles d' dir') = relativeText dir ` set (coveredFiles d dir)"
proof -
  have rel: "relativeText e ` set (coveredFiles c e) = joined CHR ''/'' ` {s. s \<noteq> [] \<and> readFile c (e @ s) \<noteq> None \<and> coveredName (last s)}" for c e
  proof -
    have "set (coveredFiles c e) = (@) e ` {s. s \<noteq> [] \<and> readFile c (e @ s) \<noteq> None \<and> coveredName (last s)}"
    proof (rule set_eqI)
      fix q
      have "last (e @ s) = last s" if "s \<noteq> []" for s using that by simp
      then show "q \<in> set (coveredFiles c e) \<longleftrightarrow> q \<in> (@) e ` {s. s \<noteq> [] \<and> readFile c (e @ s) \<noteq> None \<and> coveredName (last s)}"
        by (cases "prefix e q") (auto simp: coveredFiles_iff strict_prefix_def prefix_def)
    qed
    then show ?thesis by (simp add: image_image relativeText_def)
  qed
  have "s \<noteq> [] \<and> readFile d' (dir' @ s) \<noteq> None \<and> coveredName (last s) \<longleftrightarrow> s \<noteq> [] \<and> readFile d (dir @ s) \<noteq> None \<and> coveredName (last s)" for s
    using mirrors_file [OF assms, of s] covered_sent [of "last s"] by metis
  then show ?thesis unfolding rel by simp
qed

lemma fileSetProblems_cong:
  assumes "relativeText dir' ` set (coveredFiles d' dir') = relativeText dir ` set (coveredFiles d dir)"
  shows "fileSetProblems d' dir' expected = [] \<longleftrightarrow> fileSetProblems d dir expected = []"
proof -
  have "length (remdups (map f xs)) = card (f ` set xs)" for f :: "path \<Rightarrow> string" and xs by (simp add: length_remdups_card_conv)
  then show ?thesis using assms by (simp add: fileSetProblems_def Let_def filter_empty_conv)
qed

lemma mirrors_checksums:
  assumes "mirrors d dir d' dir'" "\<forall>s. readFile d (dir @ s) \<noteq> None \<longrightarrow> names_ok s"
    and "verifyChecksumManifest sha d dir [] = (True, [])"
  shows "verifyChecksumManifest sha d' dir' [] = (True, [])"
proof -
  obtain content where content: "readFile d (dir @ [''manifest.sha256'']) = Some content"
    using assms(3) by (auto simp: verifyChecksumManifest_def split: option.splits)
  have content': "readFile d' (dir' @ [''manifest.sha256'']) = Some content"
    using mirrors_file [OF assms(1), of "[''manifest.sha256'']"] content by (simp add: isMarkerOrTemp_def extension_def find_last_of_def)
  obtain expected problems where loop: "checksumLoop 0 (getlines content) ([], []) = (expected, problems)" by fastforce
  have run: "expected \<noteq> []" "problems = []" "List.map_filter (digestProblem sha d dir) expected = []" "fileSetProblems d dir expected = []"
    using assms(3) by (simp_all add: verifyChecksumManifest_def content loop Let_def)
  have "distinct (map fst expected)" using checksumLoop_distinct [of "[]" 0 "getlines content" "[]"] by (simp add: loop)
  from verified_files [OF _ content loop this, of sha] assms(3)
  have files: "relativeText dir ` set (coveredFiles d dir) = fst ` set expected" by simp
  have "digestProblem sha d' dir' x = None" if "x \<in> set expected" for x
  proof -
    obtain relative wanted where x: "x = (relative, wanted)" by (cases x)
    then have "relative \<in> fst ` set expected" using image_eqI [OF _ that, of relative fst] by simp
    then obtain q where q: "q \<in> set (coveredFiles d dir)" "relative = relativeText dir q" unfolding files [symmetric] by blast
    have q': "strict_prefix dir q" "readFile d q \<noteq> None" "coveredName (last q)" using q(1) by (simp_all add: coveredFiles_iff)
    then obtain s where "q = dir @ s" "s \<noteq> []" by (auto simp: strict_prefix_def prefix_def)
    with q' have s: "q = dir @ s" "s \<noteq> []" "readFile d (dir @ s) \<noteq> None" "coveredName (last s)" by simp_all
    have "pathElements relative = s"
      using pathElements_joined [of s] s assms(2) by (simp add: q(2) relativeText_def)
    then have "digestProblem sha d' dir' x = digestProblem sha d dir x"
      using mirrors_file [OF assms(1), of s] s(2,4) covered_sent by (simp add: x digestProblem_def)
    also have "\<dots> = None" using run(3) that by (auto simp: map_filter_def filter_empty_conv)
    finally show ?thesis .
  qed
  then have "List.map_filter (digestProblem sha d' dir') expected = []" by (simp add: map_filter_def filter_empty_conv)
  moreover have "fileSetProblems d' dir' expected = []" using run(4) fileSetProblems_cong [OF mirrors_covered [OF assms(1)]] by simp
  ultimately show ?thesis using run(1,2) by (simp add: verifyChecksumManifest_def content' loop Let_def)
qed

section \<open>The same report\<close>

text \<open>The reports are the same but for the warnings, which are about directories too.\<close>

definition sameFindings :: "VerificationReport \<Rightarrow> VerificationReport \<Rightarrow> bool" where
  "sameFindings r r' \<longleftrightarrow> r'\<lparr>warnings := []\<rparr> = r\<lparr>warnings := []\<rparr>"

lemma sameFindings_fields:
  "sameFindings r r' \<longleftrightarrow> totalEntries r' = totalEntries r \<and> verifiedEntries r' = verifiedEntries r \<and>
     failedEntries r' = failedEntries r \<and> problems r' = problems r"
  by (cases r; cases r') (auto simp: sameFindings_def)

lemma mirrors_problem:
  assumes "mirrors d dir d' dir'" "\<not> isMarkerOrTemp (last (pathElements (me_file e)))"
  shows "recordProblem z decodeImage decodeCloud d' dir' e = recordProblem z decodeImage decodeCloud d dir e"
proof -
  have "pathElements (me_file e) \<noteq> []" if "safeRelativePath (me_file e)"
    using that by (auto simp: safeRelativePath_def pathElements_def Let_def)
  then have "loadRecordBytes z d' dir' e = loadRecordBytes z d dir e"
    using mirrors_file [OF assms(1) _ assms(2)] by (simp add: loadRecordBytes_def readFileBytes_def)
  then show ?thesis by (simp add: recordProblem_def)
qed

lemma verifyLoop_same:
  assumes "\<forall>e\<in>set es. recordProblem z decodeImage decodeCloud d' dir' e = recordProblem z decodeImage decodeCloud d dir e"
    and "verifyLoop z decodeImage decodeCloud d dir options es report = Some r" "sameFindings report report'"
  shows "\<exists>r'. verifyLoop z decodeImage decodeCloud d' dir' options es report' = Some r' \<and> sameFindings r r'"
  using assms
proof (induction es arbitrary: report report')
  case (Cons e es)
  have total: "totalEntries report' = totalEntries report" using Cons.prems(3) by (simp add: sameFindings_fields)
  show ?case
  proof (cases "vo_sensor options \<noteq> [] \<and> me_sensor e \<noteq> vo_sensor options")
    case True
    with Cons show ?thesis by simp
  next
    case chosen: False
    show ?thesis
    proof (cases "vo_limit options \<noteq> 0 \<and> totalEntries report \<ge> vo_limit options")
      case True
      with Cons.prems chosen total show ?thesis by auto
    next
      case False
      with Cons.prems(2) chosen obtain r1 where
        r1: "verifyEntry z decodeImage decodeCloud d dir e report = Some r1" "verifyLoop z decodeImage decodeCloud d dir options es r1 = Some r"
        by (auto split: option.splits if_splits)
      have "recordProblem z decodeImage decodeCloud d' dir' e = recordProblem z decodeImage decodeCloud d dir e" using Cons.prems(1) by simp
      then obtain r1' where r1': "verifyEntry z decodeImage decodeCloud d' dir' e report' = Some r1'" "sameFindings r1 r1'"
        using r1(1) Cons.prems(3) by (auto simp: verifyEntry_def failWith_def sameFindings_fields Let_def split: option.splits if_splits)
      from Cons.IH [OF _ r1(2) r1'(2)] Cons.prems(1) obtain r' where
        "verifyLoop z decodeImage decodeCloud d' dir' options es r1' = Some r'" "sameFindings r r'" by auto
      moreover have "verifyLoop z decodeImage decodeCloud d' dir' options (e # es) report' = verifyLoop z decodeImage decodeCloud d' dir' options es r1'"
        using chosen False total r1'(1) by auto
      ultimately show ?thesis by simp
    qed
  qed
qed simp

lemma mirrors_verifies:
  assumes "mirrors d dir d' dir'" "\<forall>s. readFile d (dir @ s) \<noteq> None \<longrightarrow> names_ok s"
    and "\<forall>e\<in>set (fst (readManifest (readFile d (dir @ [''manifest.csv''])))). \<not> isMarkerOrTemp (last (pathElements (me_file e)))"
    and "verifyEventDirectory sha z decodeImage decodeCloud d dir options = Some r" "report_ok r"
  shows "\<exists>r'. verifyEventDirectory sha z decodeImage decodeCloud d' dir' options = Some r' \<and> sameFindings r r'"
proof -
  from assms(5) report_iff [OF assms(4)] obtain es where
    ok: "fst (verifyChecksumManifest sha d dir [])" "readManifest (readFile d (dir @ [''manifest.csv''])) = (es, [])" "selectedFrom 0 options es \<noteq> []"
    by blast
  then have ne: "es \<noteq> []" by (auto simp: selectedFrom_def)
  have "verifyChecksumManifest sha d dir [] = (True, [])" using ok(1)
    by (auto simp: verifyChecksumManifest_def Let_def split: option.splits prod.splits)
  then have sums: "verifyChecksumManifest sha d dir [] = (True, [])" "verifyChecksumManifest sha d' dir' [] = (True, [])"
    using mirrors_checksums [OF assms(1,2)] by simp_all
  have "readFile d' (dir' @ [''manifest.csv'']) = readFile d (dir @ [''manifest.csv''])"
    by (rule mirrors_file [OF assms(1)]) (simp_all add: isMarkerOrTemp_def extension_def find_last_of_def)
  then have manifest: "readManifest (readFile d' (dir' @ [''manifest.csv''])) = (es, [])" using ok(2) by simp
  have "\<forall>e\<in>set es. recordProblem z decodeImage decodeCloud d' dir' e = recordProblem z decodeImage decodeCloud d dir e"
    using assms(3) by (auto simp: ok(2) intro: mirrors_problem [OF assms(1)])
  from verifyLoop_same [OF this] assms(4) ne show ?thesis
    by (simp add: verifyEventDirectory_def sums ok(2) manifest sameFindings_def)
qed


section \<open>Properties\<close>

text \<open>
  C8. What the sender could verify, the receiver can: if an event directory passes
  \<open>verifyEventDirectory\<close> when an upload starts that ends in \<open>.uploaded\<close>, then the directory
  published by the receiver passes it too, with the same counters and problems, provided no row of
  \<open>manifest.csv\<close> names a hidden or temporary file.
\<close>

theorem delivered_event_verifies:
  assumes "uploadDirectory u (receiverClient host wording links) (quietView (disk w)) now dir w (n, R, W) = (ok, u', w', (n', R', W'))"
    and "0 < chunkBytes (uploadConfig u)"
    and "lookup (disk w) (dir @ [''.uploaded'']) = None" "lookup (disk w') (dir @ [''.uploaded'']) \<noteq> None"
    and "clear (last dir) R" "othersApart (last dir) links"
    and plain: "\<forall>s. readFile (disk w) (dir @ s) \<noteq> None \<longrightarrow> (\<forall>c\<in>set s. c \<noteq> [] \<and> CHR ''/'' \<notin> set c \<and> CHR 0x5C \<notin> set c)"
    and rows: "\<forall>e\<in>set (fst (readManifest (readFile (disk w) (dir @ [''manifest.csv''])))). \<not> isMarkerOrTemp (last (pathElements (me_file e)))"
    and checked: "verifyEventDirectory sha z decodeImage decodeCloud (disk w) dir options = Some r" "report_ok r"
  shows "\<exists>r'. verifyEventDirectory sha z decodeImage decodeCloud (disk W') (inbox R @ [last dir]) options = Some r' \<and>
    report_ok r' \<and> r'\<lparr>warnings := []\<rparr> = r\<lparr>warnings := []\<rparr>"
proof -
  have names: "\<forall>s. readFile (disk w) (dir @ s) \<noteq> None \<longrightarrow> (\<forall>c\<in>set s. CHR ''/'' \<notin> set c \<and> CHR 0x5C \<notin> set c)"
    "\<forall>s. readFile (disk w) (dir @ s) \<noteq> None \<longrightarrow> names_ok s"
    using plain unfolding names_ok_def by blast+
  have "mirrors (disk w) dir (disk W') (inbox R @ [last dir])"
    unfolding mirrors_def using event_arrived [OF assms(1-6) names(1)] by simp
  from mirrors_verifies [OF this names(2) rows checked] obtain r' where
    "verifyEventDirectory sha z decodeImage decodeCloud (disk W') (inbox R @ [last dir]) options = Some r'" "sameFindings r r'" by blast
  moreover from this(2) checked(2) have "report_ok r'" by (simp add: sameFindings_fields report_ok_def)
  ultimately show ?thesis unfolding sameFindings_def by blast
qed

text \<open>The upload of a directory with one record.\<close>

definition verifiedStore :: World where
  "verifiedStore = \<lparr>disk = ([''r'', ''.upload_id''], File ''t'') # intactStore, script = []\<rparr>"

definition firstHost :: Host where
  "firstHost = sampleHost\<lparr>hexdigest := (\<lambda>s. replicate 63 CHR ''a'' @ ''1'')\<rparr>"

lemma verified_delivery:
  "case uploadDirectory deliveryUploader (receiverClient firstHost (\<lambda>v. []) (\<lambda>n. goodLink)) (quietView (disk verifiedStore)) 5 [''r''] verifiedStore
       (0, emptyInbox, inboxStore) of
     (ok, u', w', n', R', W') \<Rightarrow> ok \<and> lookup (disk w') [''r'', ''.uploaded''] \<noteq> None"
  by code_simp

lemma verifiedStore_report:
  "verifyEventDirectory sampleSha storedFrames decodeSample (\<lambda>s. Inl ''no cloud'') (disk verifiedStore) [''r'']
     \<lparr>vo_sensor = [], vo_limit = 0\<rparr> = Some intactReport"
  by code_simp

lemma verifiedStore_rows:
  "\<forall>e\<in>set (fst (readManifest (readFile (disk verifiedStore) ([''r''] @ [''manifest.csv''])))). \<not> isMarkerOrTemp (last (pathElements (me_file e)))"
  by code_simp

lemma verifiedStore_plain:
  "\<forall>s. readFile (disk verifiedStore) ([''r''] @ s) \<noteq> None \<longrightarrow> (\<forall>c\<in>set s. c \<noteq> [] \<and> CHR ''/'' \<notin> set c \<and> CHR 0x5C \<notin> set c)"
  by (auto simp: readFile_def lookup_def verifiedStore_def intactStore_def split: if_splits option.splits node.splits)

theorem delivered_event_verifies_witness:
  "\<exists>ok u' w' n' R' W' r'. uploadDirectory deliveryUploader (receiverClient firstHost (\<lambda>v. []) (\<lambda>n. goodLink)) (quietView (disk verifiedStore)) 5
       [''r''] verifiedStore (0, emptyInbox, inboxStore) = (ok, u', w', (n', R', W')) \<and>
     verifyEventDirectory sampleSha storedFrames decodeSample (\<lambda>s. Inl ''no cloud'') (disk W') [''i'', ''r'']
       \<lparr>vo_sensor = [], vo_limit = 0\<rparr> = Some r' \<and> report_ok r' \<and> verifiedEntries r' = 1"
proof -
  obtain ok u' w' n' R' W' where run: "uploadDirectory deliveryUploader (receiverClient firstHost (\<lambda>v. []) (\<lambda>n. goodLink))
      (quietView (disk verifiedStore)) 5 [''r''] verifiedStore (0, emptyInbox, inboxStore) = (ok, u', w', (n', R', W'))" by (metis prod.exhaust)
  have marked: "lookup (disk w') ([''r''] @ [''.uploaded'']) \<noteq> None" using verified_delivery unfolding run by simp
  have fresh: "0 < chunkBytes (uploadConfig deliveryUploader)" "lookup (disk verifiedStore) ([''r''] @ [''.uploaded'']) = None"
    by (simp_all add: deliveryUploader_def verifiedStore_def intactStore_def lookup_def)
  have peace: "clear (last [''r'']) emptyInbox" "othersApart (last [''r'']) (\<lambda>n. goodLink)"
    by (simp_all add: clear_def receiver_ok_def emptyInbox_def othersApart_def goodLink_def)
  have "report_ok intactReport" by (simp add: report_ok_def intactReport_def)
  from delivered_event_verifies [OF run fresh(1,2) marked peace verifiedStore_plain verifiedStore_rows verifiedStore_report this] obtain r' where
    r': "verifyEventDirectory sampleSha storedFrames decodeSample (\<lambda>s. Inl ''no cloud'') (disk W') (inbox emptyInbox @ [last [''r'']])
       \<lparr>vo_sensor = [], vo_limit = 0\<rparr> = Some r'" "report_ok r'" "r'\<lparr>warnings := []\<rparr> = intactReport\<lparr>warnings := []\<rparr>" by blast
  have "verifiedEntries (r'\<lparr>warnings := []\<rparr>) = 1" unfolding r'(3) by (simp add: intactReport_def)
  then have "verifiedEntries r' = 1" by simp
  with run r' show ?thesis by (simp add: emptyInbox_def)
qed

end
