(* ===== verification/Receiver_Copies.thy ===== *)
theory Receiver_Copies
  imports Upload_Receiver
begin

text \<open>
  What the receiver (theory Upload_Receiver) guarantees of the copies it has published, over
  failures, crashes and restarts.
\<close>

section \<open>The last complete copy\<close>

lemma publish_old:
  assumes "publish staging final backup w = (r, w')" "siblings staging final backup"
    and "lookup (disk w) staging = Some Dir" "lookup (disk w) final = Some Dir"
  shows "(\<forall>s. lookup (disk w') (final @ s) = lookup (disk w) (final @ s)) \<or>
    (lookup (disk w') final = None \<and> (\<forall>s. lookup (disk w') (backup @ s) = lookup (disk w) (final @ s))) \<or>
    (\<forall>s. lookup (disk w') (final @ s) = lookup (disk w) (staging @ s))"
proof -
  note apart = siblings_apart [OF assms(2)]
  obtain o1 w1 where r1: "rmtree backup w = (o1, w1)" by fastforce
  obtain o2 w2 where r2: "openDirectory (parentPath final) w1 = (o2, w2)" by fastforce
  obtain o3 w3 where r3: "replacePath final backup w2 = (o3, w3)" by fastforce
  obtain o4 w4 where r4: "replacePath staging final w3 = (o4, w4)" by fastforce
  obtain o5 w5 where r5: "rmtree backup w4 = (o5, w5)" by fastforce
  obtain o6 w6 where r6: "openDirectory (parentPath final) w5 = (o6, w6)" by fastforce
  obtain o7 w7 where r7: "replacePath backup final w4 = (o7, w7)" by fastforce
  have same: "lookup (disk w2) (final @ s) = lookup (disk w) (final @ s)" "lookup (disk w2) (staging @ s) = lookup (disk w) (staging @ s)" for s
    using rmtree_lookup [OF r1] openDirectory_disk [OF r2] apart by auto
  from same(1) [of "[]"] assms(4) have f2: "lookup (disk w2) final = Some Dir" by simp
  then have there: "pathExists (disk w2) final" by (simp add: pathExists_def)
  note run = assms(1) [unfolded publish_def r1 Let_def snd_conv r2 prod.case eqTrueI [OF there] if_True r3 r4]
  consider "\<not> o2" | "o2" "\<not> o3" | "o2" "o3" "\<not> o4" | "o2" "o3" "o4" by blast
  then show ?thesis
  proof cases
    case 1
    with run have "w' = w2" by simp
    with same show ?thesis by simp
  next
    case 2
    with run have "w' = w3" by simp
    with 2 replacePath_failed [of final backup w2 w3] r3 same show ?thesis by simp
  next
    case 3
    have aside: "lookup (disk w3) (backup @ s) = lookup (disk w) (final @ s)" "lookup (disk w3) (final @ s) = None" for s
      using replacePath_tree [OF r3 [unfolded eqTrueI [OF 3(2)]] f2] same by simp_all
    have d4: "disk w4 = disk w3" using replacePath_failed [of staging final w3 w4] r4 3(3) by simp
    have b4: "lookup (disk w4) backup = Some Dir" using aside(1) [of "[]"] assms(4) d4 by simp
    have "final \<noteq> []" using assms(2) by (auto simp: siblings_def)
    then have "pathExists (disk w4) backup" "\<not> pathExists (disk w4) final" using aside(2) [of "[]"] d4 b4 by (simp_all add: pathExists_def)
    with run 3 r7 have "w' = w7" by simp
    show ?thesis
    proof (cases o7)
      case True
      with replacePath_tree(1) [OF _ b4, of final w7] r7 aside d4 \<open>w' = w7\<close> show ?thesis by simp
    next
      case False
      with replacePath_failed [of backup final w4 w7] r7 aside aside(2) [of "[]"] d4 \<open>w' = w7\<close> show ?thesis by simp
    qed
  next
    case 4
    with run r5 r6 have "w' = w6" by simp
    have s3: "lookup (disk w3) (staging @ s) = lookup (disk w) (staging @ s)" for s
      using replacePath_frame [OF r3, of "staging @ s"] same apart by simp
    then have "lookup (disk w3) staging = Some Dir" using s3 [of "[]"] assms(3) by simp
    from replacePath_tree(1) [OF r4 [unfolded eqTrueI [OF 4(3)]] this] s3
    have "lookup (disk w4) (final @ s) = lookup (disk w) (staging @ s)" for s by simp
    with rmtree_lookup [OF r5] openDirectory_disk [OF r6] apart \<open>w' = w6\<close> show ?thesis by simp
  qed
qed


text \<open>Recovery on a machine without failures.\<close>

lemma eventOf_backup [simp]: "eventOf (backupOf dir event) = event"
  by (simp add: eventOf_def backupOf_def backupName_def)

lemma isBackup_backupOf: "isBackup (backupOf dir event)"
  by (simp add: isBackup_def backupOf_def backupName_def starts_with_def ends_with_def)

lemma isBackup_child:
  assumes "isBackup p" "childOf dir p"
  shows "p = backupOf dir (eventOf p)"
proof -
  obtain name where p: "p = dir @ [name]" using assms(2) by (metis append_butlast_last_id childOf_def)
  have name: "take 1 name = ''.''" "drop (length name - length ''.backup'') name = ''.backup''" "length ''..backup'' \<le> length name"
    using assms(1) unfolding p isBackup_def starts_with_def ends_with_def by simp_all
  define u where "u = take (length name - length ''.backup'') name"
  have u: "name = u @ ''.backup''" using name(2) by (metis append_take_drop_id u_def)
  with name(3) obtain c v where "u = c # v" by (cases u) auto
  with name(1) u have "name = ''.'' @ v @ ''.backup''" by simp
  then show ?thesis by (simp add: p eventOf_def backupOf_def backupName_def)
qed


text \<open>The state of an event's directory: either in place, or set aside.\<close>

lemma recoverBackup_healthy:
  assumes "script w = []" "isDirectory (disk w) dir" "lookup (disk w) (backupOf dir e) \<noteq> None"
  shows "\<exists>w'. recoverBackup dir (backupOf dir e) w = (Inr (), w') \<and> script w' = [] \<and>
    (\<forall>q. \<not> prefix (backupOf dir e) q \<longrightarrow> \<not> validName e \<or> \<not> prefix (dir @ [e]) q \<or> lookup (disk w) (dir @ [e]) \<noteq> None \<longrightarrow>
       lookup (disk w') q = lookup (disk w) q) \<and>
    (validName e \<longrightarrow> lookup (disk w) (dir @ [e]) = None \<longrightarrow> lookup (disk w) (backupOf dir e) = Some Dir \<longrightarrow>
       (\<forall>s. lookup (disk w') (dir @ e # s) = lookup (disk w) (backupOf dir e @ s)))"
proof -
  let ?b = "backupOf dir e" and ?f = "dir @ [e]"
  consider "\<not> validName e" | "validName e" "lookup (disk w) ?f \<noteq> None" | "validName e" "lookup (disk w) ?f = None" by blast
  then show ?thesis
  proof cases
    case 1
    then have "validate_event_name e = None" by (metis not_None_eq validate_name)
    with assms(1) 1 show ?thesis by (simp add: recoverBackup_def ret_def)
  next
    case 2
    obtain ok w1 where rm: "rmtree ?b w = (ok, w1)" by fastforce
    have "script w1 = []" using rm assms(1) by (auto simp: rmtree_def perform_healthy split: if_splits)
    moreover have "recoverBackup dir ?b w = (Inr (), w1)" using 2 rm by (simp add: recoverBackup_def pathExists_def)
    ultimately show ?thesis using rmtree_lookup [OF rm] 2(2) by auto
  next
    case 3
    have apart: "\<not> prefix ?b ?f" "\<not> prefix ?f ?b" using published_apart(3) [OF 3(1), of e] by (auto simp: backupOf_def)
    have "replaceEffect ?b ?f (disk w) \<noteq> None"
      using assms(2,3) 3(2) apart
      by (auto simp: replaceEffect_def isDirectory_def readFile_def parentPath_def split: option.splits node.splits)
    then obtain d where d: "replaceEffect ?b ?f (disk w) = Some d" by blast
    then have rep: "replacePath ?b ?f w = (True, w\<lparr>disk := d\<rparr>)" by (simp add: replacePath_def perform_healthy assms(1))
    have "recoverBackup dir ?b w = (Inr (), w\<lparr>disk := d\<rparr>)" using 3 rep by (simp add: recoverBackup_def pathExists_def)
    moreover have "lookup d q = lookup (disk w) q" if "\<not> prefix ?b q" "\<not> prefix ?f q" for q
      using replacePath_frame [OF rep that] by simp
    moreover have "lookup d (dir @ e # s) = lookup (disk w) (?b @ s)" if "lookup (disk w) ?b = Some Dir" for s
      using replacePath_tree(1) [OF rep that, of s] by simp
    ultimately show ?thesis using assms(1) 3 by auto
  qed
qed


lemma backupOf_inject [simp]: "backupOf dir e = backupOf dir e' \<longleftrightarrow> e = e'"
  by (simp add: backupOf_def backupName_def)

lemma recoverLoop_healthy:
  assumes "distinct bs" "\<forall>b\<in>set bs. (\<exists>x. b = backupOf dir x) \<and> lookup (disk w) b \<noteq> None"
    and "script w = []" "isDirectory (disk w) dir" "validName e"
  shows "\<exists>w'. recoverLoop dir bs w = (Inr (), w') \<and>
    (lookup (disk w) (dir @ [e]) = Some Dir \<longrightarrow> (\<forall>s. lookup (disk w') (dir @ e # s) = lookup (disk w) (dir @ e # s))) \<and>
    (lookup (disk w) (dir @ [e]) = None \<longrightarrow> lookup (disk w) (backupOf dir e) = Some Dir \<longrightarrow> backupOf dir e \<in> set bs \<longrightarrow>
       (\<forall>s. lookup (disk w') (dir @ e # s) = lookup (disk w) (backupOf dir e @ s)))"
  using assms(1-4)
proof (induction bs arbitrary: w)
  case Nil
  then show ?case by (simp add: ret_def)
next
  case (Cons b bs)
  obtain x where b: "b = backupOf dir x" using Cons.prems(2) by auto
  have "lookup (disk w) (backupOf dir x) \<noteq> None" using Cons.prems(2) b by simp
  from recoverBackup_healthy [OF Cons.prems(3,4) this, folded b] obtain w1 where
    h: "recoverBackup dir b w = (Inr (), w1) \<and> script w1 = [] \<and>
      (\<forall>q. \<not> prefix b q \<longrightarrow> \<not> validName x \<or> \<not> prefix (dir @ [x]) q \<or> lookup (disk w) (dir @ [x]) \<noteq> None \<longrightarrow>
         lookup (disk w1) q = lookup (disk w) q) \<and>
      (validName x \<longrightarrow> lookup (disk w) (dir @ [x]) = None \<longrightarrow> lookup (disk w) b = Some Dir \<longrightarrow>
         (\<forall>s. lookup (disk w1) (dir @ x # s) = lookup (disk w) (b @ s)))"
    by (rule exE)
  note step = conjunct1 [OF h] conjunct1 [OF conjunct2 [OF h]]
    and frame = mp [OF mp [OF spec [OF conjunct1 [OF conjunct2 [OF conjunct2 [OF h]]]]]]
    and moved = spec [OF mp [OF mp [OF mp [OF conjunct2 [OF conjunct2 [OF conjunct2 [OF h]]]]]]]
  have "\<not> prefix b dir" "\<not> prefix (dir @ [x]) dir" by (auto simp: b backupOf_def prefix_def)
  then have dir1: "isDirectory (disk w1) dir" using frame [of dir] Cons.prems(4) by (simp add: isDirectory_def)
  have others: "lookup (disk w1) (backupOf dir y @ s) = lookup (disk w) (backupOf dir y @ s)" if "y \<noteq> x" for y s
  proof (rule frame)
    show "\<not> prefix b (backupOf dir y @ s)" using that by (simp add: b backupOf_def backupName_def)
    show "\<not> validName x \<or> \<not> prefix (dir @ [x]) (backupOf dir y @ s) \<or> lookup (disk w) (dir @ [x]) \<noteq> None"
      using published_apart(4) [of x y] by (auto simp: backupOf_def)
  qed
  have rest: "\<forall>b'\<in>set bs. (\<exists>y. b' = backupOf dir y) \<and> lookup (disk w1) b' \<noteq> None"
  proof
    fix b' assume "b' \<in> set bs"
    then obtain y where y: "b' = backupOf dir y" "y \<noteq> x" "lookup (disk w) b' \<noteq> None" using Cons.prems(1,2) b by fastforce
    with others [of y "[]"] show "(\<exists>y. b' = backupOf dir y) \<and> lookup (disk w1) b' \<noteq> None" by auto
  qed
  from Cons.IH [OF _ rest step(2) dir1] Cons.prems(1) obtain w' where
    ih: "recoverLoop dir bs w1 = (Inr (), w')"
    "lookup (disk w1) (dir @ [e]) = Some Dir \<Longrightarrow> lookup (disk w') (dir @ e # s) = lookup (disk w1) (dir @ e # s)"
    "lookup (disk w1) (dir @ [e]) = None \<Longrightarrow> lookup (disk w1) (backupOf dir e) = Some Dir \<Longrightarrow> backupOf dir e \<in> set bs \<Longrightarrow>
       lookup (disk w') (dir @ e # s) = lookup (disk w1) (backupOf dir e @ s)" for s
    by auto
  have run: "recoverLoop dir (b # bs) w = (Inr (), w')" using step(1) ih(1) by (simp add: andThen_def)
  have free: "\<not> prefix b (dir @ e # s)" for s using published_apart(3) [OF assms(5), of x] by (simp add: b backupOf_def)
  show ?case
  proof (cases "x = e")
    case True
    have present: "lookup (disk w1) (dir @ e # s) = lookup (disk w) (dir @ e # s)" if "lookup (disk w) (dir @ [e]) = Some Dir" for s
      using frame [OF free] that True by simp
    have "lookup (disk w') (dir @ e # s) = lookup (disk w) (b @ s)"
      if "lookup (disk w) (dir @ [e]) = None" "lookup (disk w) b = Some Dir" for s
    proof -
      have m: "lookup (disk w1) (dir @ e # t) = lookup (disk w) (b @ t)" for t
        using moved [of t] that assms(5) True by simp
      with m [of "[]"] that(2) have "lookup (disk w1) (dir @ [e]) = Some Dir" by simp
      with ih(2) m show ?thesis by simp
    qed
    with run present present [of "[]"] ih(2) True b show ?thesis by auto
  next
    case False
    have same: "lookup (disk w1) (dir @ e # s) = lookup (disk w) (dir @ e # s)" for s
      by (rule frame [OF free]) (use False in simp)
    have aside: "lookup (disk w1) (backupOf dir e @ s) = lookup (disk w) (backupOf dir e @ s)" for s
      by (rule others) (use False in simp)
    show ?thesis
    proof (intro exI [of _ w'] conjI impI allI run)
      fix s assume "lookup (disk w) (dir @ [e]) = Some Dir"
      with ih(2) [of s] same [of "[]"] same [of s] show "lookup (disk w') (dir @ e # s) = lookup (disk w) (dir @ e # s)" by simp
    next
      fix s assume a: "lookup (disk w) (dir @ [e]) = None" "lookup (disk w) (backupOf dir e) = Some Dir" "backupOf dir e \<in> set (b # bs)"
      then have "backupOf dir e \<in> set bs" using False b by auto
      with a ih(3) [of s] same [of "[]"] aside [of "[]"] aside [of s]
      show "lookup (disk w') (dir @ e # s) = lookup (disk w) (backupOf dir e @ s)" by simp
    qed
  qed
qed


lemma published_frame:
  assumes "dispatch host t t' request R w = (r, R', w')" "receiver_ok R" "validName e"
    and "up_opcode request \<noteq> END \<or> up_event_name request \<noteq> e"
  shows "lookup (disk w') (inbox R @ e # s) = lookup (disk w) (inbox R @ e # s)"
proof (rule dispatch_frame [OF assms(1,2)])
  note names = published_apart [OF assms(3)]
  have staging: "\<not> prefix (stagingOf (inbox R) key) (inbox R @ e # s)" for key
    using names by (simp add: stagingOf_def)
  moreover have "\<not> prefix (backupOf (inbox R) x) (inbox R @ e # s)" for x
    using names by (simp add: backupOf_def)
  ultimately show "untouched t R request (inbox R @ e # s)" using assms(4) by (auto simp: untouched_def)
  have "\<not> prefix (inbox R @ e # s) (stagingOf (inbox R) key)" for key
    using names by (auto simp: stagingOf_def)
  then show "lookup (disk w) (inbox R @ e # s) \<noteq> None \<or>
      \<not> prefix (inbox R @ e # s) (stagingOf (inbox R) (up_event_name request, up_transfer_id request))" by blast
qed

lemma verify_same:
  assumes "ts_files st = ts_files st'" "staging_dir st = staging_dir st'"
  shows "verify_checksums host st d = verify_checksums host st' d"
  unfolding verify_checksums_def assms ..

lemma request_outcomes:
  assumes "handle_request host t t' request R w = (reply, R', w')" "receiver_ok R" "validName e"
    and "lookup (disk w) (inbox R @ [e]) = Some Dir"
  shows "(\<forall>s. lookup (disk w') (inbox R @ e # s) = lookup (disk w) (inbox R @ e # s)) \<or>
    (lookup (disk w') (inbox R @ [e]) = None \<and> (\<forall>s. lookup (disk w') (backupOf (inbox R) e @ s) = lookup (disk w) (inbox R @ e # s))) \<or>
    (\<exists>st. map_of (transfers R) (e, up_transfer_id request) = Some st \<and>
       complete_transfer host st (disk (snd (prune_idle_transfers t R w))) \<and> staging_dir st \<noteq> [] \<and>
       (\<forall>s. lookup (disk w') (inbox R @ e # s) = lookup (disk (snd (prune_idle_transfers t R w))) (staging_dir st @ s)))"
proof -
  from assms(1) obtain r where run: "dispatch host t t' request R w = (r, R', w')" by (rule handle_dispatch)
  show ?thesis
  proof (cases "up_opcode request \<noteq> END \<or> up_event_name request \<noteq> e")
    case True
    with published_frame [OF run assms(2,3)] show ?thesis by blast
  next
    case False
    then have mine: "up_opcode request = END" "up_event_name request = e" by simp_all
    have kept: "lookup (disk w1) (inbox R @ e # s) = lookup (disk w) (inbox R @ e # s)" if "prune_idle_transfers t R w = (R1, w1)" for R1 w1 s
      by (rule prune_idle(4) [OF that assms(2)]) (use published_apart [OF assms(3)] in \<open>simp add: stagingOf_def\<close>)
    from run show ?thesis
    proof (cases rule: dispatch_cases)
      case (refused R1 w1)
      with kept show ?thesis by simp
    next
      case (ended R1 w1 st)
      note ok = prune_idle(1,2) [OF ended(1) assms(2)]
      let ?st = "st\<lparr>last_activity := t'\<rparr>"
      have entry: "entry_ok (inbox R) ((e, up_transfer_id request), ?st)"
        using receiver_ok_entry [OF ok(1) ended(3)] ok(2) mine by (auto simp: entry_ok_def)
      then have dirs: "final_dir ?st = inbox R @ [e]" "ts_event ?st = e" "backupOf (inbox R) (ts_event ?st) = backupOf (inbox R) e"
        by (simp_all add: entry_ok_def)
      note sib = siblings_dirs [OF entry]
      have final: "lookup (disk w1) (inbox R @ [e]) = Some Dir" using kept [OF ended(1), of "[]"] assms(4) by simp
      have outcome: ?thesis if "disk w2 = disk w1" "complete_transfer host ?st (disk w1)"
        "publish (staging_dir ?st) (final_dir ?st) (backupOf (inbox R) e) w2 = (out, w')" for w2 out
      proof -
        have ne: "staging_dir ?st \<noteq> []" using sib by (auto simp: siblings_def)
        have owner: "map_of (transfers R) (e, up_transfer_id request) = Some st"
          using map_of_prune [OF assms(2), of t] ended(3) mine unfolding prune_idle(3) [OF ended(1) assms(2)] by auto
        have whole: "complete_transfer host st (disk w1)" using that(2) verify_same [of ?st st] by (simp add: complete_transfer_def)
        from ne have "lookup (disk w2) (staging_dir ?st) = Some Dir" using that(1,2) by (simp add: complete_transfer_def isDirectory_def)
        moreover have "lookup (disk w2) (final_dir ?st) = Some Dir" using final dirs that(1) by simp
        ultimately show ?thesis
          using publish_old [OF that(3) sib [unfolded dirs(3)]] that(1) dirs kept [OF ended(1)] ended(1)
          ne owner whole unfolding dirs(1) append.assoc append.simps by (auto simp: that(1))
      qed
      from ended(4) show ?thesis
      proof (cases rule: finish_cases)
        case refused
        with kept [OF ended(1)] show ?thesis by simp
      next
        case (broken w2 x)
        with outcome [OF broken(1,2)] dirs ok(2) show ?thesis by simp
      next
        case (published w2)
        with outcome [OF published(1,2)] dirs ok(2) show ?thesis by simp
      qed
    qed (use mine in simp_all)
  qed
qed


lemma newReceiver_restart:
  assumes "script w = []" "\<forall>q. prefix q dir \<longrightarrow> isDirectory (disk w) q" "validName e"
  shows "\<exists>w'. newReceiver dir w = (Inr \<lparr>inbox = dir, transfers = []\<rparr>, w') \<and>
    (lookup (disk w) (dir @ [e]) = Some Dir \<longrightarrow> (\<forall>s. lookup (disk w') (dir @ e # s) = lookup (disk w) (dir @ e # s))) \<and>
    (lookup (disk w) (dir @ [e]) = None \<longrightarrow> lookup (disk w) (backupOf dir e) = Some Dir \<longrightarrow>
       (\<forall>s. lookup (disk w') (dir @ e # s) = lookup (disk w) (backupOf dir e @ s)))"
proof -
  have free: "readFile (disk w) q = None" if "q \<in> set (ancestors dir)" for q
    using assms(2) that by (auto simp: ancestors_prefix isDirectory_def readFile_def)
  obtain made w1 where mk: "createDirectories dir w = (made, w1)" by fastforce
  then have made: "made" "script w1 = []" "disk w1 = makeDirs (ancestors dir) (disk w)"
    using free assms(1) by (auto simp: createDirectories_def perform_healthy)
  have same: "lookup (disk w1) q = lookup (disk w) q" for q
    using assms(2) by (auto simp: made(3) lookup_makeDirs ancestors_prefix isDirectory_def)
  let ?bs = "filter isBackup (entries (disk w1) dir)"
  have child: "q \<in> set (entries (disk w1) dir) \<longleftrightarrow> childOf dir q \<and> lookup (disk w1) q \<noteq> None" for q
    by (auto simp: entries_def lookup_def map_of_eq_None_iff)
  have d: "distinct ?bs" by (simp add: entries_def)
  have bs: "\<forall>b\<in>set ?bs. (\<exists>x. b = backupOf dir x) \<and> lookup (disk w1) b \<noteq> None"
    using isBackup_child child by auto
  have "isDirectory (disk w1) dir" using assms(2) same by (simp add: isDirectory_def)
  from recoverLoop_healthy [OF d bs made(2) this assms(3)] obtain w2 where
    h: "recoverLoop dir ?bs w1 = (Inr (), w2) \<and>
    (lookup (disk w1) (dir @ [e]) = Some Dir \<longrightarrow> (\<forall>s. lookup (disk w2) (dir @ e # s) = lookup (disk w1) (dir @ e # s))) \<and>
    (lookup (disk w1) (dir @ [e]) = None \<longrightarrow> lookup (disk w1) (backupOf dir e) = Some Dir \<longrightarrow> backupOf dir e \<in> set ?bs \<longrightarrow>
       (\<forall>s. lookup (disk w2) (dir @ e # s) = lookup (disk w1) (backupOf dir e @ s)))"
    by (rule exE)
  have "backupOf dir e \<in> set ?bs" if "lookup (disk w) (backupOf dir e) = Some Dir"
    using that same child isBackup_backupOf by (simp add: childOf_def backupOf_def)
  moreover have "newReceiver dir w = (Inr \<lparr>inbox = dir, transfers = []\<rparr>, w2)"
    using mk made(1) conjunct1 [OF h] by (simp add: newReceiver_def)
  ultimately show ?thesis using conjunct2 [OF h] unfolding same by (intro exI [of _ w2]) simp
qed




text \<open>
  Across several requests the protection has a gap: a publication that finds no published
  directory, but a backup an earlier failure left behind, deletes the backup first; if the
  rename then fails, no copy is left.  Two events can also share a staging directory.
\<close>

lemma copy_lost:
  assumes "siblings staging final backup" "lookup (disk w) staging = Some Dir" "lookup (disk w) final = None"
    and "lookup (disk w) backup = Some Dir" "isDirectory (disk w) (parentPath final)" "script w = [Done, Done, Failed n]"
  shows "\<exists>w'. publish staging final backup w = (Inl ''replace'', w') \<and>
    lookup (disk w') final = None \<and> (\<forall>s. lookup (disk w') (backup @ s) = None)"
proof -
  note apart = siblings_apart [OF assms(1)]
  define w1 where "w1 = w\<lparr>disk := deleteAll (backup # below (disk w) backup) (disk w), script := [Done, Failed n]\<rparr>"
  have rm: "rmtree backup w = (True, w1)" by (simp add: rmtree_def perform_def assms(4,6) w1_def)
  have w1: "script w1 = [Done, Failed n]" "lookup (disk w1) backup = None" by (simp_all add: w1_def lookup_deleteAll)
  have gone: "lookup (disk w1) (backup @ s) = None" for s
    using rmtree_gone [OF rm w1(2)] assms(4) by simp
  have parent: "isDirectory (disk w1) (parentPath final)"
  proof -
    have "\<not> prefix backup (parentPath final)" using assms(1) by (auto simp: siblings_def parentPath_def prefix_def)
    with rmtree_lookup [OF rm] assms(5) show ?thesis by (simp add: isDirectory_def)
  qed
  have "lookup (disk w1) final = None"
    using rmtree_lookup [OF rm, of final] apart(6) [of "[]"] assms(3) by simp
  moreover have "final \<noteq> []" "backup \<noteq> []" using assms(1) by (auto simp: siblings_def)
  ultimately have final: "lookup (disk w1) final = None" "final \<noteq> []" "backup \<noteq> []" .
  have "openDirectory (parentPath final) w1 = (True, w1\<lparr>script := [Failed n]\<rparr>)"
    unfolding openDirectory_def perform_def w1(1) by (simp add: parent)
  moreover have "replacePath staging final (w1\<lparr>script := [Failed n]\<rparr>) = (False, w1\<lparr>script := []\<rparr>)"
    by (simp add: replacePath_def perform_def)
  ultimately have "publish staging final backup w = (Inl ''replace'', w1\<lparr>script := []\<rparr>)"
    using rm final w1(2) by (simp add: publish_def pathExists_def)
  with final gone show ?thesis by auto
qed

lemma staging_collision: "stagingOf dir (''a.b'', ''c'') = stagingOf dir (''a'', ''b.c'')"
  by (simp add: stagingOf_def stagingName_def)

text \<open>
  Two requests suffice to lose a copy: the first publication fails between its renames and at the roll-back,
  and the retry deletes the backup before it fails too.  The published copy is on the disk no more.
\<close>

definition failingStore :: World where
  "failingStore = crashingStore\<lparr>script := replicate 6 Done @ [Failed 0, Failed 0] @ replicate 5 Done @ [Failed 0]\<rparr>"

lemma retry_loses_copy:
  "lookup (disk failingStore) [''i'', ''e'', ''d''] = Some (File ''old'') \<and>
   (case handle_request sampleHost 0 0 (emptyRequest ''e'' ''t'' END) sampleReceiver failingStore of
     (reply1, R1, w1) \<Rightarrow>
       (case handle_request sampleHost 0 1 (emptyRequest ''e'' ''t'' END) R1 w1 of
          (reply2, R2, w2) \<Rightarrow> \<not> fst reply1 \<and> \<not> fst reply2 \<and> lookup (disk w1) [''i'', ''.e.backup'', ''d''] = Some (File ''old'') \<and>
            list_all (\<lambda>(p, x). x \<noteq> File ''old'') (disk w2) \<and> lookup (disk w2) [''i'', ''e''] = None))"
  by code_simp


end
