(* ===== verification/Upload_Service.thy ===== *)
theory Upload_Service
  imports Upload_Worker Cache_Node
begin

text \<open>
  The upload worker as the cache node runs it: its creation by \<open>createUploader\<close> and the loop of
  its thread, turn after turn.
\<close>

section \<open>Creation\<close>

definition createUploader :: "path \<Rightarrow> ConfigManager \<Rightarrow> UploadWorker option" where
  "createUploader cwd cfg =
     (if \<not> getBoolConfig cfg ''upload_enabled'' False then None
      else Some (snd (startUploads (newUploadWorker (loadRecordRoot cwd cfg) (uploaderConfig cfg)))))"

text \<open>
  The uploader watches the directory the recorder writes to, and its chunks fit a request.
\<close>

lemma uploader_watches_records:
  assumes "createUploader cwd cfg = Some u" "diskManager (storageWorker (newEventMonitor cfg cwd now flush synced)) = Some m"
  shows "uploadRoot u = recordRoot m \<and> 0 < chunkBytes (uploadConfig u) \<and> chunkBytes (uploadConfig u) \<le> kMaxChunkBytes \<and>
    uploadStarted u \<and> \<not> uploadStopping u"
  using assms
  by (auto simp: createUploader_def newUploadWorker_def startUploads_def uploaderConfig_def kMaxChunkBytes_def newEventMonitor_def
      newWorker_def newDiskSpaceManager_def split: if_splits)

section \<open>The loop of the thread\<close>

text \<open>
  A turn of the loop: the clock readings, what the file system and the visits are about, and
  whether \<open>stop\<close> is called during the wait that ends it.
\<close>

record ScanTurn =
  scanClock :: int
  leaseClock :: int
  markerAges :: "path \<Rightarrow> int option"
  turnVisits :: "path \<Rightarrow> Visit"
  stopCalled :: bool

primrec runUploads :: "'r client \<Rightarrow> ScanTurn list \<Rightarrow> UploadWorker \<Rightarrow> World \<Rightarrow> 'r \<Rightarrow> bool \<times> UploadWorker \<times> World \<times> 'r" where
  "runUploads client [] u w r = (True, u, w, r)"
| "runUploads client (t # ts) u w r =
     (case scanOnce client (scanClock t) (leaseClock t) (markerAges t) (turnVisits t) u w r of
        (False, u1, w1, r1) \<Rightarrow> (False, u1, w1, r1)
      | (True, u1, w1, r1) \<Rightarrow> runUploads client ts (if stopCalled t then stopUploads u1 else u1) w1 r1)"

section \<open>What the uploader leaves alone\<close>

definition spares :: "World \<Rightarrow> World \<Rightarrow> bool" where
  "spares w w' \<longleftrightarrow> (\<forall>q. q \<noteq> [] \<longrightarrow> lookup (disk w) q \<noteq> None \<longrightarrow> \<not> isMarkerOrTemp (last q) \<longrightarrow> lookup (disk w') q = lookup (disk w) q)"

lemma spares_refl [simp]: "spares w w"
  by (simp add: spares_def)

lemma spares_trans: "spares w w1 \<Longrightarrow> spares w1 w2 \<Longrightarrow> spares w w2"
  by (simp add: spares_def)

lemma spares_write:
  assumes "writeAtomically (dir @ [m]) c w = (ok, w')" "isMarkerOrTemp m" "isMarkerOrTemp (m @ ''.tmp'')"
  shows "spares w w'"
  unfolding spares_def
proof (intro allI impI)
  fix q assume q: "q \<noteq> []" "lookup (disk w) q \<noteq> None" "\<not> isMarkerOrTemp (last q)"
  have "q \<noteq> dir @ [m]" "q \<noteq> temporaryOf (dir @ [m])" using q(3) assms(2,3) by (auto simp: temporaryOf_def)
  then show "lookup (disk w') q = lookup (disk w) q" using q(2) by (intro write_frame [OF _ assms(1)]) simp_all
qed

lemma spares_remove:
  assumes "isMarkerOrTemp m"
  shows "spares w (snd (removePath (dir @ [m]) w))"
proof -
  have "q \<noteq> dir @ [m]" if "\<not> isMarkerOrTemp (last q)" for q using assms that by auto
  then show ?thesis by (simp add: spares_def removePath_other)
qed

lemma upload_names:
  "isMarkerOrTemp ''.uploading''" "isMarkerOrTemp (''.uploading'' @ ''.tmp'')" "isMarkerOrTemp ''.uploaded''" "isMarkerOrTemp (''.uploaded'' @ ''.tmp'')"
  "isMarkerOrTemp ''.upload_id''" "isMarkerOrTemp (''.upload_id'' @ ''.tmp'')"
  "isMarkerOrTemp ''.upload_failed''" "isMarkerOrTemp (''.upload_failed'' @ ''.tmp'')"
  by (simp_all add: isMarkerOrTemp_def)

lemma spares_leaseActive: "leaseActive timeout now dir w = (b, w') \<Longrightarrow> spares w w'"
  using spares_remove [OF upload_names(1), of w dir] by (auto simp: leaseActive_def split: option.splits if_splits)

lemma spares_acquire: "acquireLease timeout now dir w = (b, w') \<Longrightarrow> spares w w'"
  by (auto simp: acquireLease_def split: prod.splits bool.splits
      dest!: spares_leaseActive spares_write [OF _ upload_names(1,2)] intro: spares_trans)

lemma spares_upload:
  assumes "uploadDirectory u client view now dir w r = (ok, u', w', r')"
  shows "spares w w'"
proof -
  obtain b w1 where a: "acquireLease (leaseTimeout (uploadConfig u)) now dir w = (b, w1)" by fastforce
  note leased = spares_acquire [OF a]
  show ?thesis
  proof (cases b)
    case False
    with a assms leased show ?thesis by (simp add: uploadDirectory_def)
  next
    case True
    obtain fin u2 w2 r2 where t: "transferDirectory u client view now dir w1 r = (fin, u2, w2, r2)" by (metis prod.exhaust)
    have sent: "spares w1 w2" using transfer_frame [OF t] spares_write [OF _ upload_names(5,6)] by auto
    obtain marked w3 where m: "(if \<not> fin then (False, w2) else writeAtomically (dir @ [''.uploaded''])
        (''service='' @ serviceName (uploadConfig u) @ [newline] @ ''files='' @ nat_to_string (length (collectFiles (disk w2) dir)) @ [newline]) w2)
        = (marked, w3)" by fastforce
    have "spares w2 w3"
    proof (cases fin)
      case True
      with m show ?thesis by (intro spares_write [OF _ upload_names(3,4)]) simp
    qed (use m in simp)
    moreover have "w' = snd (removePath (dir @ [''.uploading'']) w3)"
      using assms a True t m by (simp add: uploadDirectory_def)
    moreover have "spares w3 (snd (removePath (dir @ [''.uploading'']) w3))" by (rule spares_remove [OF upload_names(1)])
    ultimately show ?thesis using spares_trans [OF spares_trans [OF leased sent]] spares_trans by blast
  qed
qed

lemma spares_failure: "noteFailure now dir u w = (u', w') \<Longrightarrow> spares w w'"
  by (auto simp: noteFailure_def Let_def split: prod.splits if_splits dest!: spares_write [OF _ upload_names(7,8)])

lemma spares_visits: "visitCandidates client scanNow xs u w r = (b, u', w', r') \<Longrightarrow> spares w w'"
proof (induction xs arbitrary: u w r)
  case (Cons x xs)
  obtain ok u1 w1 r1 where v: "uploadDirectory u client (uploadView (snd x)) (uploadNow (snd x)) (fst x) w r = (ok, u1, w1, r1)"
    by (metis prod.exhaust)
  obtain u2 w2 where f: "noteFailure (failureNow (snd x)) (fst x) u1 w1 = (u2, w2)" by fastforce
  note steps = spares_upload [OF v] spares_failure [OF f]
  from Cons.prems consider "w' = w" | "visitCandidates client scanNow xs u w r = (b, u', w', r')" | "w' = w1"
    | u3 where "visitCandidates client scanNow xs u3 w1 r1 = (b, u', w', r')" | "visitCandidates client scanNow xs u2 w2 r1 = (b, u', w', r')"
    by (auto simp: v f Let_def split: if_splits bool.splits)
  then show ?case
  proof cases
    case 2
    then show ?thesis by (rule Cons.IH)
  next
    case 4
    with Cons.IH steps spares_trans show ?thesis by metis
  next
    case 5
    with Cons.IH steps spares_trans show ?thesis by metis
  qed (use steps in simp_all)
qed simp

lemma spares_candidates:
  assumes "findUploadCandidates cfg now ages root w = (cs, w')"
  shows "spares w w'"
proof -
  have entry: "spares w w1" if "candidateEntry cfg now ages d (cs, w) = (cs1, w1)" for d cs cs1 and w w1 :: World
  proof -
    obtain b w0 where l: "leaseActive (leaseTimeout cfg) now d w = (b, w0)" by fastforce
    have "w1 \<in> {w, w0, snd (removePath (d @ [''.upload_failed'']) w0)}"
      using that l by (auto simp: candidateEntry_def Let_def split: if_splits prod.splits bool.splits option.splits)
    moreover note l' = spares_leaseActive [OF l]
    moreover have "spares w (snd (removePath (d @ [''.upload_failed'']) w0))"
      by (rule spares_trans [OF l' spares_remove [OF upload_names(7)]])
    ultimately show ?thesis by fastforce
  qed
  have "spares w w2" if "fold (candidateEntry cfg now ages) ds (cs, w) = (cs2, w2)" for ds cs cs2 and w w2 :: World
    using that
  proof (induction ds arbitrary: cs w)
    case (Cons d ds)
    obtain cs1 w1 where e: "candidateEntry cfg now ages d (cs, w) = (cs1, w1)" by fastforce
    with Cons.prems have "fold (candidateEntry cfg now ages) ds (cs1, w1) = (cs2, w2)" by simp
    with Cons.IH entry [OF e] spares_trans show ?case by metis
  qed simp
  with assms show ?thesis by (simp add: findUploadCandidates_def)
qed

lemma spares_scan:
  assumes "scanOnce client scanNow now ages visit u w r = (b, u', w', r')"
  shows "spares w w'"
proof -
  obtain cs w1 where c: "findUploadCandidates (uploadConfig u) now ages (uploadRoot u) w = (cs, w1)" by fastforce
  obtain g u2 w2 r2 where v: "visitCandidates client scanNow (map (\<lambda>d. (d, visit d)) cs) u w1 r = (g, u2, w2, r2)"
    by (cases "visitCandidates client scanNow (map (\<lambda>d. (d, visit d)) cs) u w1 r")
  have "scanOnce client scanNow now ages visit u w r = (g \<and> \<not> uploadStopping u2, u2, w2, r2)"
    unfolding scanOnce_def c Let_def prod.case v ..
  then have "w' = w2" using assms by simp
  with spares_trans [OF spares_candidates [OF c] spares_visits [OF v]] show ?thesis by simp
qed

section \<open>Properties\<close>

text \<open>
  The uploader never touches what it uploads: over any number of turns, with any receiver and any
  failures, every entry of the disk whose name is not that of a marker or temporary file stays as
  it is.
\<close>

lemma uploads_spare_data:
  assumes "runUploads client ts u w r = (b, u', w', r')" "q \<noteq> []" "lookup (disk w) q \<noteq> None" "\<not> isMarkerOrTemp (last q)"
  shows "lookup (disk w') q = lookup (disk w) q"
proof -
  have "spares w w'" using assms(1)
  proof (induction ts arbitrary: u w r)
    case (Cons t ts)
    obtain g u1 w1 r1 where s: "scanOnce client (scanClock t) (leaseClock t) (markerAges t) (turnVisits t) u w r = (g, u1, w1, r1)"
      by (metis prod.exhaust)
    show ?case
    proof (cases g)
      case True
      with Cons.prems s have "runUploads client ts (if stopCalled t then stopUploads u1 else u1) w1 r1 = (b, u', w', r')" by simp
      with Cons.IH spares_scan [OF s] spares_trans show ?thesis by metis
    qed (use Cons.prems s spares_scan [OF s] in simp)
  qed simp
  with assms(2-4) show ?thesis by (simp add: spares_def)
qed

text \<open>A stop ends the thread with the turn it falls into, at the latest with the next one.\<close>

lemma stop_ends_thread:
  assumes "uploadStopping u" "\<And>cs w1. findUploadCandidates (uploadConfig u) now ages (uploadRoot u) w = (cs, w1) \<Longrightarrow> \<forall>d\<in>set cs. stopBefore (visit d)"
  shows "\<not> fst (scanOnce client scanNow now ages visit u w r)"
proof -
  obtain cs w1 where c: "findUploadCandidates (uploadConfig u) now ages (uploadRoot u) w = (cs, w1)" by fastforce
  show ?thesis using assms(1) assms(2) [OF c] by (cases cs) (simp_all add: scanOnce_def c Let_def)
qed

end
