(* ===== verification/File_Digest.thy ===== *)
theory File_Digest
  imports Checksum "HOL-Library.Code_Target_Nat"
begin

text \<open>
  \<open>sha256File\<close>, which \<open>raw_storage_worker.hpp\<close> and \<open>record_io.hpp\<close> each have a version of.
  OpenSSL's digest functions are an argument; elsewhere the digest of a file is a function of its
  content, and this theory says which one.
\<close>

section \<open>The digest functions of OpenSSL\<close>

record 'c Evp =
  newContext :: "'c option"
  digestInit :: "'c \<Rightarrow> 'c option"
  digestUpdate :: "'c \<Rightarrow> string \<Rightarrow> 'c option"
  digestFinal :: "'c \<Rightarrow> string option"

text \<open>What a stream delivers before it ends, and whether that was the end of the file or an error.\<close>

record FileStream =
  delivered :: string
  at_eof :: bool

definition digestBuffer :: nat where
  "digestBuffer = 2 ^ 16"

function updateLoop :: "'c Evp \<Rightarrow> 'c \<Rightarrow> string \<Rightarrow> 'c option" where
  "updateLoop evp context rest =
     (let got = take digestBuffer rest in
      case (if got = [] then Some context else digestUpdate evp context got) of
        None \<Rightarrow> None
      | Some context' \<Rightarrow>
          if length got < digestBuffer then Some context'
          else updateLoop evp context' (drop digestBuffer rest))"
  by pat_completeness auto
termination
  by (relation "measure (\<lambda>(evp, context, rest). length rest)") (auto simp: digestBuffer_def)

declare updateLoop.simps [simp del]

definition kHex :: string where
  "kHex = ''0123456789abcdef''"

definition hexText :: "string \<Rightarrow> string" where
  "hexText hash = concat (map (\<lambda>b. [kHex ! (code b div 16), kHex ! (code b mod 16)]) hash)"

definition sha256File :: "'c Evp \<Rightarrow> FileStream option \<Rightarrow> string option" where
  "sha256File evp input =
     (case input of None \<Rightarrow> None
      | Some stream \<Rightarrow>
          (case newContext evp of None \<Rightarrow> None
           | Some context0 \<Rightarrow>
               (case digestInit evp context0 of None \<Rightarrow> None
                | Some context1 \<Rightarrow>
                    (case updateLoop evp context1 (delivered stream) of None \<Rightarrow> None
                     | Some context2 \<Rightarrow>
                         if \<not> at_eof stream then None
                         else (case digestFinal evp context2 of None \<Rightarrow> None
                             | Some hash \<Rightarrow> Some (hexText hash))))))"

text \<open>The version of the reader.\<close>

definition record_sha256File :: "'c Evp \<Rightarrow> FileStream option \<Rightarrow> string option" where
  "record_sha256File evp input =
     (let context = (if input \<noteq> None then newContext evp else None) in
      case Option.bind context (digestInit evp) of None \<Rightarrow> None
      | Some context1 \<Rightarrow>
          (case updateLoop evp context1 (delivered (the input)) of None \<Rightarrow> None
           | Some context2 \<Rightarrow>
               let hash = digestFinal evp context2; good = (at_eof (the input) \<and> hash \<noteq> None)
               in if \<not> good then None else Some (hexText (the hash))))"

section \<open>What the library promises\<close>

text \<open>
  The documentation of the digest functions: initialising starts an empty message, every update
  appends to it, and the final call gives the hash of the message, which has 32 bytes for SHA-256.
\<close>

definition computes :: "'c Evp \<Rightarrow> (string \<Rightarrow> string) \<Rightarrow> bool" where
  "computes evp hash \<longleftrightarrow>
     (\<exists>absorbed. (\<forall>c c'. digestInit evp c = Some c' \<longrightarrow> absorbed c' []) \<and>
        (\<forall>c s d c'. absorbed c s \<longrightarrow> digestUpdate evp c d = Some c' \<longrightarrow> absorbed c' (s @ d)) \<and>
        (\<forall>c s out. absorbed c s \<longrightarrow> digestFinal evp c = Some out \<longrightarrow> out = hash s)) \<and>
     (\<forall>s. length (hash s) = 32)"

lemma updateLoop_absorbs:
  assumes "updateLoop evp c rest = Some c'" "absorbed c s"
    and "\<forall>c s d c'. absorbed c s \<longrightarrow> digestUpdate evp c d = Some c' \<longrightarrow> absorbed c' (s @ d)"
  shows "absorbed c' (s @ rest)"
  using assms
proof (induction evp c rest arbitrary: s rule: updateLoop.induct)
  case (1 evp c rest)
  let ?got = "take digestBuffer rest"
  from "1.prems"(1) obtain c1 where c1: "(if ?got = [] then Some c else digestUpdate evp c ?got) = Some c1"
    and rest: "(if length ?got < digestBuffer then Some c1 else updateLoop evp c1 (drop digestBuffer rest)) = Some c'"
    by (auto simp: updateLoop.simps [of evp c rest] Let_def split: option.splits if_splits)
  have c1': "absorbed c1 (s @ ?got)"
  proof (cases "?got = []")
    case True
    with c1 "1.prems"(2) show ?thesis unfolding True by simp
  next
    case False
    with c1 have "digestUpdate evp c ?got = Some c1" by simp
    with "1.prems"(2,3) show ?thesis by blast
  qed
  show ?case
  proof (cases "length ?got < digestBuffer")
    case True
    then have "?got = rest" by simp
    with True rest c1' show ?thesis by simp
  next
    case False
    have "updateLoop evp c1 (drop digestBuffer rest) = Some c'" using rest False by simp
    with "1.IH" [OF refl c1 False] c1' "1.prems"(3) have "absorbed c' ((s @ ?got) @ drop digestBuffer rest)" by blast
    then show ?thesis by simp
  qed
qed

lemma same_sha256File: "record_sha256File evp input = sha256File evp input"
  by (auto simp: record_sha256File_def sha256File_def Let_def split: option.splits)

lemma hexText_chars: "length (hexText s) = 2 * length s \<and> list_all isHex (hexText s)"
proof -
  have hex: "isHex (kHex ! n)" if "n < 16" for n
    using that unfolding kHex_def by (auto simp: less_Suc_eq numeral_eq_Suc isHex_def text_eval)
  have "code b < 16 * 16" for b by (simp add: code_def)
  then have "code b div 16 < 16" for b by (rule less_mult_imp_div_less)
  then have "isHex (kHex ! (code b div 16)) \<and> isHex (kHex ! (code b mod 16))" for b using hex by simp
  then show ?thesis by (induction s) (simp_all add: hexText_def)
qed

section \<open>Properties\<close>


text \<open>Digest functions that keep the message and take its first 32 bytes for the hash.\<close>

definition keepingEvp :: "string Evp" where
  "keepingEvp = \<lparr>newContext = Some [], digestInit = (\<lambda>c. Some []), digestUpdate = (\<lambda>c s. Some (c @ s)),
     digestFinal = (\<lambda>c. Some (take 32 (c @ replicate 32 (CHR 0x00))))\<rparr>"

lemma keepingEvp_computes: "computes keepingEvp (\<lambda>s. take 32 (s @ replicate 32 (CHR 0x00)))"
  unfolding computes_def by (intro conjI exI [of _ "(=)"]) (auto simp: keepingEvp_def)

lemma kept_digest: "sha256File keepingEvp (Some \<lparr>delivered = ''ab'', at_eof = True\<rparr>) = Some (''6162'' @ replicate 60 (CHR ''0''))"
  by code_simp


end
