(* ===== verification/Sensor_Sources.thy ===== *)
theory Sensor_Sources
  imports Event_Integrity Sensor_Path
begin

text \<open>
  \<open>camera_node.cpp\<close> and \<open>lidar_sim_node.cc\<close>, which publish what the cache node receives.  The
  capture device, the PCD file, OpenCV's and PCL's conversions into messages are arguments.
\<close>

section \<open>Start-up\<close>

text \<open>
  A constructor may throw, and an integer division by zero ends the process.  A parameter is
  64 bits wide and narrowed to \<open>int\<close>.
\<close>

datatype 'n startup = Throws string | Dies | Runs 'n

definition narrowed :: "int \<Rightarrow> int" where
  "narrowed p = sint (word_of_int p :: 32 word)"

text \<open>\<open>1000 / rate\<close>, rounded towards zero, in milliseconds.\<close>

definition periodMs :: "int \<Rightarrow> int option" where
  "periodMs rate = (if rate = 0 then None else Some (sgn rate * (1000 div \<bar>rate\<bar>)))"

record CameraNode =
  cn_width :: int
  cn_height :: int
  cn_period :: int

definition newCameraNode :: "int \<Rightarrow> int \<Rightarrow> int \<Rightarrow> int \<Rightarrow> (int \<Rightarrow> bool) \<Rightarrow> CameraNode startup" where
  "newCameraNode fps device width height opens =
     (if \<not> opens (narrowed device) then Throws (''Failed to open camera device '' @ int_to_string (narrowed device))
      else (case periodMs (narrowed fps) of
          None \<Rightarrow> Dies
        | Some period \<Rightarrow> Runs \<lparr>cn_width = narrowed width, cn_height = narrowed height, cn_period = period\<rparr>))"

text \<open>A read that fails gives no frame; a frame may be empty.\<close>

definition captureAndPublish :: "('f \<Rightarrow> bool) \<Rightarrow> ('f \<Rightarrow> string \<Rightarrow> Image) \<Rightarrow> int \<Rightarrow> 'f option \<Rightarrow> Image option" where
  "captureAndPublish isEmpty toImageMsg now frame =
     (case frame of None \<Rightarrow> None
      | Some f \<Rightarrow> if isEmpty f then None else Some ((toImageMsg f ''bgr8'')\<lparr>img_stamp := now\<rparr>))"

record LidarSimNode =
  cloudMsg :: PointCloud2
  ln_period :: int

definition newLidarSimNode :: "(string \<Rightarrow> 'c option) \<Rightarrow> ('c \<Rightarrow> PointCloud2) \<Rightarrow> string \<Rightarrow> int \<Rightarrow> LidarSimNode startup" where
  "newLidarSimNode loadPCDFile toROSMsg pcdPath hz =
     (case loadPCDFile pcdPath of
        None \<Rightarrow> Throws (''Failed to load PCD file: '' @ pcdPath)
      | Some cloud \<Rightarrow>
          (case periodMs (narrowed hz) of
             None \<Rightarrow> Dies
           | Some period \<Rightarrow> Runs \<lparr>cloudMsg = toROSMsg cloud, ln_period = period\<rparr>))"

definition publishCloud :: "int \<Rightarrow> LidarSimNode \<Rightarrow> PointCloud2 \<times> LidarSimNode" where
  "publishCloud now n = (let message = (cloudMsg n)\<lparr>pc_stamp := now\<rparr> in (message, n\<lparr>cloudMsg := message\<rparr>))"

section \<open>What they publish can be recorded\<close>

text \<open>
  The documentation of the conversions: an image message has the frame's rows and columns, the
  encoding asked for, and rows of three bytes per pixel; a cloud message has room for its points.
\<close>

definition image_conversion :: "('f \<Rightarrow> bool) \<Rightarrow> ('f \<Rightarrow> string \<Rightarrow> Image) \<Rightarrow> bool" where
  "image_conversion isEmpty toImageMsg \<longleftrightarrow> (\<forall>f. \<not> isEmpty f \<longrightarrow>
     (let m = toImageMsg f ''bgr8'' in img_encoding m = ''bgr8'' \<and> 0 < img_height m \<and> 0 < img_width m \<and>
        img_step m = 3 * img_width m \<and> length (img_data m) = img_step m * img_height m))"

definition cloud_conversion :: "('c \<Rightarrow> PointCloud2) \<Rightarrow> bool" where
  "cloud_conversion toROSMsg \<longleftrightarrow> (\<forall>c. let m = toROSMsg c in pc_fields m \<noteq> [] \<and> 0 < pc_point_step m \<and>
     length (pc_data m) = pc_width m * pc_height m * pc_point_step m)"

lemma camera_frame_sound:
  assumes "image_conversion isEmpty toImageMsg" "captureAndPublish isEmpty toImageMsg now frame = Some m" "in_int64 now"
  shows "sound_frame (cameraFrame m) \<and> timestampOf (cameraFrame m) = now"
  using assms
  by (auto simp: captureAndPublish_def image_conversion_def cameraFrame_def sound_frame_def timestampOf_def Let_def
      split: option.splits if_splits)

lemma publishCloud_stamp: "pc_stamp (fst (publishCloud now n)) = now"
  by (simp add: publishCloud_def Let_def)

fun publishClouds :: "int list \<Rightarrow> LidarSimNode \<Rightarrow> PointCloud2 list \<times> LidarSimNode" where
  "publishClouds [] n = ([], n)"
| "publishClouds (t # ts) n = (let (m, n1) = publishCloud t n; (ms, n2) = publishClouds ts n1 in (m # ms, n2))"

lemma publishClouds_run:
  "fst (publishClouds ts n) = map (\<lambda>t. (cloudMsg n)\<lparr>pc_stamp := t\<rparr>) ts"
proof (induction ts arbitrary: n)
  case (Cons t ts)
  have "fst (publishClouds (t # ts) n) = fst (publishCloud t n) # fst (publishClouds ts (snd (publishCloud t n)))"
    by (simp add: case_prod_beta Let_def)
  then show ?case by (simp add: Cons publishCloud_def Let_def)
qed simp

text \<open>
  The messages fit what the rest of the program needs: each is stamped with the time of its
  publication and has the fields the recorder stores and the reader's verification asks for.
\<close>

lemma published_messages_sound:
  assumes "image_conversion isEmpty toImageMsg" "cloud_conversion toROSMsg" "\<forall>t\<in>set (now # ts). in_int64 t"
    and "newLidarSimNode loadPCDFile toROSMsg pcdPath hz = Runs n"
  shows "(\<forall>frame m. captureAndPublish isEmpty toImageMsg now frame = Some m \<longrightarrow>
      sound_frame (cameraFrame m) \<and> timestampOf (cameraFrame m) = now) \<and>
    map pc_stamp (fst (publishClouds ts n)) = ts \<and> (\<forall>m\<in>set (fst (publishClouds ts n)). sound_frame (lidarFrame m))"
proof -
  from assms(4) obtain c where c: "cloudMsg n = toROSMsg c" by (auto simp: newLidarSimNode_def split: option.splits)
  have conv: "pc_fields (toROSMsg c) \<noteq> [] \<and> 0 < pc_point_step (toROSMsg c) \<and>
      length (pc_data (toROSMsg c)) = pc_width (toROSMsg c) * pc_height (toROSMsg c) * pc_point_step (toROSMsg c)"
    using assms(2) by (simp add: cloud_conversion_def Let_def)
  have "sound_frame (lidarFrame ((cloudMsg n)\<lparr>pc_stamp := t\<rparr>))" if "t \<in> set ts" for t
    using conv assms(3) that by (simp add: c lidarFrame_def sound_frame_def timestampOf_def)
  with camera_frame_sound [OF assms(1)] assms(3) show ?thesis by (simp add: publishClouds_run comp_def)
qed

text \<open>
  The timers: sensible rates give sensible periods, but zero ends the process with a division by
  zero, and 2 to the power of 32 is zero too; above 1000 per second the period is zero.
\<close>

lemma camera_period:
  assumes "1 \<le> rate" "rate \<le> 1000"
  shows "\<exists>p. periodMs rate = Some p \<and> 1 \<le> p \<and> p * rate \<le> 1000"
proof -
  have "1 * rate \<le> 1000" using assms(2) by simp
  then have "1 \<le> 1000 div rate" using assms(1) by (simp add: pos_imp_zdiv_pos_iff int_one_le_iff_zero_less)
  moreover have "1000 div rate * rate \<le> 1000" using assms(1) by (simp add: minus_mod_eq_div_mult [symmetric])
  ultimately show ?thesis using assms(1) by (simp add: periodMs_def)
qed

lemma rate_faults:
  "opens (narrowed device) \<Longrightarrow> newCameraNode 0 device width height opens = Dies"
  "opens (narrowed device) \<Longrightarrow> newCameraNode (2 ^ 32) device width height opens = Dies"
  "periodMs 1001 = Some 0" "periodMs (- 30) = Some (- 33)"
  by (simp_all add: newCameraNode_def periodMs_def narrowed_def)

end
