(* ===== verification/Spec2Isabelle.thy ===== *)
theory Spec2Isabelle
  imports Data_Buffer Approx_Sync Pair_Index Keyboard_Node Trigger_Node Watchdog Config Event_State
    Record_Verify Storage_Worker Cache_Node Upload_Worker Event_Integrity Record_Reader Delivery_Integrity Receiver_Copies
    Upload_Service File_Digest Sensor_Sources
begin

text \<open>
  datacache records what a vehicle's camera and lidar saw around events.  This is a model of
  its C++ sources, and of the upload receiver in Python, in Isabelle/HOL with the properties
  that make it correct.

  \<^bold>\<open>The program.\<close>  The cache node (\<open>src/datacache_node.cpp\<close>) keeps the newest sensor
  messages in a buffer (\<open>databuffer.hpp\<close>) and pairs images with point clouds
  (\<open>approximate_synchronizer.hpp\<close>, \<open>pair_index.hpp\<close>).  A trigger reaches it from the keyboard
  (\<open>keyboard_trigger_node.cc\<close>) or a service (\<open>event_trigger_node.cc\<close>), as a signal the router
  checks, deduplicates and cools down (\<open>event_router_node.cc\<close>, \<open>event_router_policy.hpp\<close>), and
  makes the event monitor (\<open>event_monitor.hpp\<close>) capture the window around it: one job at
  once for what the buffer holds, one after the end of the window.  The storage worker
  (\<open>raw_storage_worker.hpp\<close>) writes the jobs into a directory per event, seals it with
  checksums and marks it (\<open>event_state.hpp\<close>) complete or failed; the disk space manager
  (\<open>disk_space_manager.hpp\<close>) makes room, the upload worker (\<open>upload_worker.hpp\<close>) sends
  complete directories to a receiver (\<open>tools/receiver_node.py\<close>), which publishes them in its
  inbox, and the reader (\<open>record_io.hpp\<close>, \<open>record_reader.cpp\<close>) verifies and exports them.

  \<^bold>\<open>Theories and sources.\<close>  Every definition has the name the code gives the operation, or
  that name with a suffix where HOL has the name already.
    \<^item> DC_Prelude: results, integer ranges, saturating addition, suffixes, stable sorting.
      Cpp_Text: \<open>std::string\<close>, \<open><cctype>\<close>, \<open>std::getline\<close>, \<open>std::stoll\<close>.  Disk: files and directories
      as a list of paths and nodes, each operation with an outcome taken from a script:
      it takes effect, it fails, possibly after part of its effect, or the machine stops.  Disk_Actions:
      actions on the disk that may end in an exception, and output streams.
    \<^item> Sensor_Data: \<open>data.hpp\<close>.  Stamped_Queue: the timestamp-ordered deque two components
      share, with its interface.  Data_Buffer, Approx_Sync, Pair_Index: the headers of that name;
      Window_Store: the interface by which the monitor reads buffer and index.  Sensor_Path:
      the sensor handlers of the cache node over these three.  Sensor_Sources:
      \<open>camera_node.cpp\<close> and \<open>lidar_sim_node.cc\<close>, which publish what they handle.
    \<^item> Trigger_Policy, Router_Policy, Event_Messages, Keyboard_Node, Trigger_Node,
      Router_Node: how triggers arise and travel.  Watchdog: \<open>sensor_watchdog.hpp\<close>.  Config:
      \<open>config_keys.hpp\<close> and \<open>config_manager.cpp\<close>.
    \<^item> Event_State: the markers.  Checksum, Record_Text: the formats of a record directory,
      writer and reader together.  File_Digest: the digest of a file, by the two \<open>sha256File\<close>.
      Storage_Job: one job (\<open>writeJob\<close> and what it calls).
      Disk_Space: retention and the write gate.  Storage_Worker: the queue with its
      reservations and the thread.  Record_Verify, Record_Reader: reading back.
    \<^item> Event_Monitor: captures.  Cache_Node: start-up, the trigger service, the lifecycle timer.
      Upload_Worker: candidates, leases, transfers, retries; Upload_Service: its thread over many
      turns.  Event_Integrity: the storage
      worker against the verification of the reader.
    \<^item> Upload_Receiver: \<open>tools/receiver_node.py\<close>, from the names it accepts to the recovery at its
      start, with the operations of Python on files.  Receiver_Copies: its published copies over
      failures and restarts.  Upload_Delivery: the upload worker with this
      receiver as its service; a \<open>Link\<close> per call says what the network does and which requests
      of other senders come first.  Delivery_Integrity: what the receiver published against the
      verification of the reader.  This theory: properties that need components no
      other theory brings together.

  \<^bold>\<open>State and operations.\<close>  A class is a \<open>record\<close> of its members, an operation a function that
  takes and returns it; code that works on the disk takes and returns the \<open>World\<close>.
  The mutexes of the code make every operation one step; interleavings are lists or relations
  of such steps (\<open>queueStep\<close>, \<open>monitorStep\<close>, lists of arrivals and of polls).  What
  the program learns from outside is an argument: clock readings, free space, file times,
  ROS serialisation, Zstandard, OpenCV, PCL, SHA-256, the service that the upload worker
  calls (instantiated with the receiver in Upload_Delivery).  Where a theorem
  needs more of one of these than its type, the condition is named in its statement
  (\<open>pcd_local\<close>, \<open>exporter_local\<close>, \<open>readable\<close>: a writer writes the file it is given only, a
  record decodes again) and its witness gives an instance.

  \<^bold>\<open>What is shown.\<close>
    \<^item> Buffering and pairing: the buffer refines a specification by filtering and stable
      sorting and keeps its limits; no message is lost, matched twice or paired outside the tolerance,
      and pairing is maximal; messages reach the index exactly once.
    \<^item> Triggers: identifiers are deduplicated, events cooled down, each signal answered
      once, each status reported once and truthfully.
    \<^item> Captures: all or nothing, a reservation for every outstanding job, both jobs together
      the whole window, directory names unique and dated.
    \<^item> Storage: a job that reports success stored everything, overwrites nothing, and an event
      marked complete passes the verification of the reader; markers exclude each other at
      every point of failure, and a restart settles every event.
    \<^item> Reading: the formats round-trip, the verification is sound and complete for what it
      checks, decompression returns, exit codes and exports of the tool.
    \<^item> Space and upload: retention and upload do not collide, the write gate, delivered
      before marked, bounded retries.
    \<^item> Delivery: when an event is marked uploaded, the receiver has published its files and
      nothing else, over a network that loses requests and replies and among other senders,
      and the copy verifies as the original did; no request or crash costs a published copy.
      The receiver writes below its inbox only.
    \<^item> Interfaces are locales, interpreted on the model: \<open>stamped_queue\<close>,
      \<open>window_store\<close>, \<open>marker_writer\<close>, \<open>atomic_writer\<close>, \<open>line_codec\<close>, \<open>slot_provider\<close>.

  \<^bold>\<open>Bounds, loops and width.\<close>  There is no fuel.  Loops over data are structural or have a measure;
  the decompression loop is a \<open>partial_function\<close> whose return is proved from the contract
  of \<open>ZSTD_decompressStream\<close> (it consumes or produces something, or reports an error).  Counters
  that wrap are words (\<open>nextTransferId\<close>); times are integers, with their 64-bit range in the
  hypotheses where the code relies on it and the saturating or overflowing arithmetic
  written out where it matters (Disk_Space, Data_Buffer).

  \<^bold>\<open>Readings of the code.\<close>  \<open>std::sort\<close> is a stable sort; the order of an \<open>unordered_map\<close> is that of
  the list that models it; directory iteration is in the order of the disk; \<open>fsync\<close>
  has no effect, as an operation that took effect is not lost by a crash of the model;
  \<open>acquireLease\<close> reads the clock twice and gets one reading; symbolic links and permissions do not exist.

  \<^bold>\<open>Not modelled.\<close>  The entry points, the creation of subscriptions, publishers and callback
  groups, \<open>fsync\<close>, and log messages.  Of the receiver, the start of the executor;
  its texts have characters below 256, and Unicode's case folding, UTF-8 and SHA-256 are the
  argument \<open>Host\<close>.
\<close>

section \<open>Properties across components\<close>

text \<open>
  C40. The uploader and the retention sweep do not collide: with uploading enabled, a sweep leaves
  every file of every directory the uploader has selected as it is, and whatever the
  setting, one it holds the lease of.
\<close>

theorem uploads_protected_from_retention:
  assumes "findUploadCandidates ucfg t ages root w = (cs, w1)" "dir \<in> set cs" "prefix dir q"
    and "recordRoot m = root" "diskPolicy m = loadDiskPolicy cfg"
  shows "(getBoolConfig cfg ''upload_enabled'' False \<longrightarrow>
      lookup (disk (snd (enforceRetention force now sys m w1))) q = lookup (disk w1) q) \<and>
    (\<forall>timeout t' w2. acquireLease timeout t' dir w1 = (True, w2) \<longrightarrow>
      lookup (disk (snd (enforceRetention force now sys m w2))) q = lookup (disk w2) q)"
proof -
  from candidates_complete [OF assms(1,2)] have c: "childOf root dir" "pathExists (disk w1) (dir @ [''.complete''])"
    "\<not> pathExists (disk w1) (dir @ [''.uploaded''])" by (auto simp: entries_def)
  have "\<not> collectable (diskPolicy m) (disk w1) dir" if "getBoolConfig cfg ''upload_enabled'' False"
    using c that by (simp add: collectable_def loadDiskPolicy_def assms(5) Let_def)
  moreover have "\<not> collectable (diskPolicy m) (disk w2) dir" if "acquireLease timeout t' dir w1 = (True, w2)" for timeout t' w2
    using acquireLease_marker [OF that] by (simp add: collectable_def pathExists_def)
  ultimately show ?thesis using uncollected_untouched [OF c(1) assms(4) _ assms(3)] by blast
qed
definition uploadingConfig :: ConfigManager where
  "uploadingConfig = \<lparr>config = [(''upload_enabled'', ''true'')], validationProblems = []\<rparr>"

theorem uploads_protected_from_retention_witness:
  "\<exists>cs w1. findUploadCandidates (uploadConfig sampleUploader) 5 (\<lambda>_. None) [''r''] uploadStore = (cs, w1) \<and>
     lookup (disk (snd (enforceRetention True 0 0 (newDiskSpaceManager [''r''] (loadDiskPolicy uploadingConfig) 0) w1)))
       [''r'', ''e'', ''d''] = Some (File ''abc'')"
proof -
  have scan: "findUploadCandidates (uploadConfig sampleUploader) 5 (\<lambda>_. None) [''r''] uploadStore = ([[''r'', ''e'']], uploadStore)"
    by (simp add: findUploadCandidates_def candidateEntry_def leaseActive_def uploadStore_def entries_def childOf_def isDirectory_def
       readFile_def lookup_def pathExists_def)
  have "getBoolConfig uploadingConfig ''upload_enabled'' False" by (simp add: getBoolConfig_def uploadingConfig_def)
  moreover have "lookup (disk uploadStore) [''r'', ''e'', ''d''] = Some (File ''abc'')" by (simp add: uploadStore_def lookup_def)
  ultimately show ?thesis
    using uploads_protected_from_retention [OF scan, of "[''r'', ''e'']" "[''r'', ''e'', ''d'']"
        "newDiskSpaceManager [''r''] (loadDiskPolicy uploadingConfig) 0" uploadingConfig True 0 0]
    by (simp add: scan newDiskSpaceManager_def)
qed

end
